(* ===== verification/Text_Util.thy ===== *)
theory Text_Util
  imports Prelude
begin

section \<open>Text operations of the standard library\<close>

text \<open>
  \<open>strip_prefix\<close>, \<open>split_once\<close>, \<open>split\<close>, \<open>find\<close>, \<open>trim\<close>, \<open>trim_ascii\<close> and \<open>str::from_utf8\<close>
  as functions on byte lists, each with the lemma that states what it does: which
  decomposition of its argument it returns.
\<close>

subsection \<open>Prefixes and splits\<close>

fun strip_prefix :: "string \<Rightarrow> string \<Rightarrow> string option" where
  "strip_prefix [] s = Some s"
| "strip_prefix (p # ps) [] = None"
| "strip_prefix (p # ps) (c # cs) = (if p = c then strip_prefix ps cs else None)"

lemma strip_prefix_iff: "strip_prefix p s = Some r \<longleftrightarrow> s = p @ r"
  by (induction p s rule: strip_prefix.induct) auto

lemma strip_prefix_append [simp, codec]: "strip_prefix p (p @ s) = Some s"
  by (simp add: strip_prefix_iff)

lemma strip_prefix_None: "strip_prefix p s = None \<longleftrightarrow> (\<forall>r. s \<noteq> p @ r)"
  by (metis not_None_eq strip_prefix_iff)

fun split_once :: "char \<Rightarrow> string \<Rightarrow> (string \<times> string) option" where
  "split_once d [] = None"
| "split_once d (c # cs) =
     (if c = d then Some ([], cs) else map_option (\<lambda>(a, b). (c # a, b)) (split_once d cs))"

lemma split_once_Some: "split_once d s = Some (a, b) \<Longrightarrow> s = a @ d # b \<and> d \<notin> set a"
  by (induction s arbitrary: a) (auto split: if_splits)

lemma split_once_append [simp, codec]: "d \<notin> set a \<Longrightarrow> split_once d (a @ d # b) = Some (a, b)"
  by (induction a) auto

lemma split_once_None: "split_once d s = None \<longleftrightarrow> d \<notin> set s"
  by (induction s) auto

lemma split_once_iff: "split_once d s = Some (a, b) \<longleftrightarrow> s = a @ d # b \<and> d \<notin> set a"
  using split_once_Some split_once_append by blast

fun split_on :: "char \<Rightarrow> string \<Rightarrow> string list" where
  "split_on d [] = [[]]"
| "split_on d (c # cs) =
     (if c = d then [] # split_on d cs
      else (case split_on d cs of [] \<Rightarrow> [[c]] | w # ws \<Rightarrow> (c # w) # ws))"

fun join_with :: "string \<Rightarrow> string list \<Rightarrow> string" where
  "join_with sep [] = []"
| "join_with sep [w] = w"
| "join_with sep (w # v # ws) = w @ sep @ join_with sep (v # ws)"

lemma join_with_Cons: "ws \<noteq> [] \<Longrightarrow> join_with sep (w # ws) = w @ sep @ join_with sep ws"
  by (cases ws) auto

lemma split_on_not_Nil [simp]: "split_on d s \<noteq> []"
  by (induction s) (auto split: list.splits)

lemma split_on_parts: "w \<in> set (split_on d s) \<Longrightarrow> d \<notin> set w"
proof (induction s arbitrary: w)
  case (Cons c cs)
  obtain v vs where eq: "split_on d cs = v # vs" by (cases "split_on d cs") auto
  with Cons show ?case by (auto split: if_splits)
qed simp

lemma split_on_id: "d \<notin> set w \<Longrightarrow> split_on d w = [w]"
  by (induction w) auto

lemma split_on_append_sep: "d \<notin> set w \<Longrightarrow> split_on d (w @ d # s) = w # split_on d s"
  by (induction w) auto

lemma join_split_on: "join_with [d] (split_on d s) = s"
proof (induction s)
  case (Cons c cs)
  obtain v vs where eq: "split_on d cs = v # vs" by (cases "split_on d cs") auto
  with Cons show ?case by (cases vs) auto
qed simp

lemma split_on_join [codec]:
  "ws \<noteq> [] \<Longrightarrow> \<forall>w \<in> set ws. d \<notin> set w \<Longrightarrow> split_on d (join_with [d] ws) = ws"
proof (induction ws)
  case (Cons w ws)
  show ?case
  proof (cases "ws = []")
    case True
    with Cons.prems show ?thesis by (simp add: split_on_id)
  next
    case False
    with Cons show ?thesis by (simp add: join_with_Cons split_on_append_sep)
  qed
qed simp

fun find_sub :: "string \<Rightarrow> string \<Rightarrow> nat option" where
  "find_sub pat [] = (if strip_prefix pat [] = None then None else Some 0)"
| "find_sub pat (c # cs) =
     (if strip_prefix pat (c # cs) \<noteq> None then Some 0 else map_option Suc (find_sub pat cs))"

lemma find_sub_Some: "find_sub pat s = Some i \<Longrightarrow> s = take i s @ pat @ drop (i + length pat) s"
proof (induction s arbitrary: i)
  case Nil
  then show ?case by (cases pat) auto
next
  case (Cons c cs)
  show ?case
  proof (cases "strip_prefix pat (c # cs)")
    case None
    with Cons.prems obtain j where j: "find_sub pat cs = Some j" "i = Suc j" by auto
    with Cons.IH [OF j(1)] show ?thesis by simp
  next
    case (Some r)
    with Cons.prems have i: "i = 0" by simp
    from Some have "c # cs = pat @ r" by (simp add: strip_prefix_iff)
    then show ?thesis by (simp add: i)
  qed
qed

lemma strip_prefix_length: "strip_prefix pat s \<noteq> None \<Longrightarrow> length pat \<le> length s"
  by (auto simp: strip_prefix_iff)

lemma find_sub_bound: "find_sub pat s = Some i \<Longrightarrow> i + length pat \<le> length s"
proof (induction s arbitrary: i)
  case Nil
  then show ?case using strip_prefix_length [of pat "[]"] by (auto split: if_splits)
next
  case (Cons c cs)
  then show ?case using strip_prefix_length [of pat "c # cs"] by (fastforce split: if_splits)
qed

lemma find_sub_strip: "strip_prefix pat s \<noteq> None \<Longrightarrow> find_sub pat s = Some 0"
  by (cases s) auto

lemma find_sub_None: "find_sub pat s = None \<longleftrightarrow> (\<forall>a b. s \<noteq> a @ pat @ b)"
proof (induction s)
  case Nil
  then show ?case by (cases pat) auto
next
  case (Cons c cs)
  show ?case
  proof (cases "strip_prefix pat (c # cs)")
    case None
    then have none: "\<And>r. c # cs \<noteq> pat @ r" by (simp add: strip_prefix_None)
    show ?thesis
    proof
      assume "find_sub pat (c # cs) = None"
      with None Cons.IH have IH: "\<And>a b. cs \<noteq> a @ pat @ b" by simp
      show "\<forall>a b. c # cs \<noteq> a @ pat @ b"
      proof (intro allI)
        fix a b
        show "c # cs \<noteq> a @ pat @ b" using none [of b] IH by (cases a) auto
      qed
    next
      assume all: "\<forall>a b. c # cs \<noteq> a @ pat @ b"
      have "cs \<noteq> a @ pat @ b" for a b
        using all [rule_format, of "c # a" b] by simp
      with None Cons.IH show "find_sub pat (c # cs) = None" by simp
    qed
  next
    case (Some r)
    then have "c # cs = [] @ pat @ r" by (simp add: strip_prefix_iff)
    with Some show ?thesis by (metis find_sub.simps(2) option.distinct(1))
  qed
qed

text \<open>The first occurrence: no occurrence starts in the literal before it.\<close>

lemma find_sub_append:
  assumes "\<And>a b. lit @ pat \<noteq> a @ pat @ b \<or> length lit \<le> length a"
  shows "find_sub pat (lit @ pat @ s) = Some (length lit)"
  using assms
proof (induction lit)
  case Nil
  show ?case by (simp add: find_sub_strip)
next
  case (Cons c cs)
  have "strip_prefix pat (c # cs @ pat @ s) = None"
  proof (rule ccontr)
    assume "strip_prefix pat (c # cs @ pat @ s) \<noteq> None"
    then obtain r where "c # cs @ pat @ s = pat @ r" by (auto simp: strip_prefix_iff)
    then have "take (length pat) (((c # cs) @ pat) @ s) = pat" by simp
    moreover have "take (length pat) (((c # cs) @ pat) @ s) = take (length pat) ((c # cs) @ pat)"
      by (simp only: take_append) simp
    ultimately have "take (length pat) ((c # cs) @ pat) = pat" by simp
    then have "(c # cs) @ pat = [] @ pat @ drop (length pat) ((c # cs) @ pat)"
      by (metis append_Nil append_take_drop_id)
    with Cons.prems [of "[]" "drop (length pat) ((c # cs) @ pat)"] show False by simp
  qed
  moreover have "find_sub pat (cs @ pat @ s) = Some (length cs)"
  proof (rule Cons.IH)
    fix a b
    show "cs @ pat \<noteq> a @ pat @ b \<or> length cs \<le> length a"
      using Cons.prems [of "c # a" b] by auto
  qed
  ultimately show ?case by simp
qed

subsection \<open>Trimming\<close>

text \<open>The UTF-8 encodings of the characters with the Unicode \<open>White_Space\<close> property.\<close>

definition white_space_bytes :: "nat list list" where
  "white_space_bytes =
     [[9], [10], [11], [12], [13], [32], [194, 133], [194, 160], [225, 154, 128],
      [226, 128, 128], [226, 128, 129], [226, 128, 130], [226, 128, 131], [226, 128, 132],
      [226, 128, 133], [226, 128, 134], [226, 128, 135], [226, 128, 136], [226, 128, 137],
      [226, 128, 138], [226, 128, 168], [226, 128, 169], [226, 128, 175], [226, 129, 159],
      [227, 128, 128]]"

definition white_space :: "string list" where
  "white_space = map (map char_of) white_space_bytes"

fun strip_any :: "string list \<Rightarrow> string \<Rightarrow> string option" where
  "strip_any [] s = None"
| "strip_any (p # ps) s = (case strip_prefix p s of Some r \<Rightarrow> Some r | None \<Rightarrow> strip_any ps s)"

lemma strip_any_Some: "strip_any ps s = Some r \<Longrightarrow> \<exists>p \<in> set ps. s = p @ r"
  by (induction ps) (auto simp: strip_prefix_iff split: option.splits)

function strip_all :: "string list \<Rightarrow> string \<Rightarrow> string" where
  "strip_all ps s =
     (case strip_any ps s of None \<Rightarrow> s | Some r \<Rightarrow> if length r < length s then strip_all ps r else s)"
  by pat_completeness auto
termination
  by (relation "measure (\<lambda>(ps, s). length s)") auto

declare strip_all.simps [simp del]

definition trim_start :: "string \<Rightarrow> string" where
  "trim_start s = strip_all white_space s"

definition trim_end :: "string \<Rightarrow> string" where
  "trim_end s = rev (strip_all (map rev white_space) (rev s))"

definition trim :: "string \<Rightarrow> string" where
  "trim s = trim_end (trim_start s)"

definition is_ascii_whitespace :: "char \<Rightarrow> bool" where
  "is_ascii_whitespace c \<longleftrightarrow> byte_val c \<in> {9, 10, 12, 13, 32}"

definition trim_ascii :: "bytes \<Rightarrow> bytes" where
  "trim_ascii s = rev (dropWhile is_ascii_whitespace (rev (dropWhile is_ascii_whitespace s)))"

lemma strip_all_None: "strip_any ps s = None \<Longrightarrow> strip_all ps s = s"
  by (subst strip_all.simps) simp

lemma strip_any_one: "strip_any ps [c] = Some [] \<Longrightarrow> strip_any ps (c # s) \<noteq> None"
  by (induction ps) (auto simp: strip_prefix_iff split: option.splits)

subsection \<open>UTF-8\<close>

abbreviation utf8_cont :: "char \<Rightarrow> bool" where
  "utf8_cont c \<equiv> 128 \<le> byte_val c \<and> byte_val c \<le> 191"

fun utf8_valid :: "bytes \<Rightarrow> bool" where
  "utf8_valid [] = True"
| "utf8_valid (a # s) =
     (let v = byte_val a in
      if v < 128 then utf8_valid s
      else if 194 \<le> v \<and> v \<le> 223 then
        (case s of b # t \<Rightarrow> utf8_cont b \<and> utf8_valid t | _ \<Rightarrow> False)
      else if 224 \<le> v \<and> v \<le> 239 then
        (case s of b # c # t \<Rightarrow>
           (if v = 224 then 160 \<le> byte_val b \<and> byte_val b \<le> 191
            else if v = 237 then 128 \<le> byte_val b \<and> byte_val b \<le> 159
            else utf8_cont b) \<and> utf8_cont c \<and> utf8_valid t
         | _ \<Rightarrow> False)
      else if 240 \<le> v \<and> v \<le> 244 then
        (case s of b # c # d # t \<Rightarrow>
           (if v = 240 then 144 \<le> byte_val b \<and> byte_val b \<le> 191
            else if v = 244 then 128 \<le> byte_val b \<and> byte_val b \<le> 143
            else utf8_cont b) \<and> utf8_cont c \<and> utf8_cont d \<and> utf8_valid t
         | _ \<Rightarrow> False)
      else False)"

definition from_utf8 :: "bytes \<Rightarrow> string option" where
  "from_utf8 s = (if utf8_valid s then Some s else None)"

lemma utf8_valid_ascii [simp]: "\<forall>c \<in> set s. byte_val c < 128 \<Longrightarrow> utf8_valid s"
  by (induction s) (auto simp: Let_def)

lemma from_utf8_ascii [simp, codec]: "\<forall>c \<in> set s. byte_val c < 128 \<Longrightarrow> from_utf8 s = Some s"
  by (simp add: from_utf8_def)

lemma from_utf8_Some: "from_utf8 s = Some t \<Longrightarrow> t = s"
  by (simp add: from_utf8_def split: if_splits)

end
