(* ===== verification/Duration.thy ===== *)
theory Duration
  imports Text_Util
begin

section \<open>Durations of the definition file (\<open>duration.rs\<close>)\<close>

text \<open>
  An integer and a unit, such as \<open>30s\<close> or \<open>7d\<close>. The count is a \<open>u64\<close> and the product with the
  unit is checked, so a value beyond \<open>u64\<close> is an error and never wraps. A duration is its
  count of seconds.
\<close>

datatype invalid_duration = InvalidDuration string

text \<open>\<open>trim_end_matches\<close> with the ASCII letters, and the letters it removed.\<close>

definition duration_digits :: "string \<Rightarrow> string" where
  "duration_digits text = rev (dropWhile is_ascii_alphabetic (rev text))"

definition duration_unit :: "string \<Rightarrow> string" where
  "duration_unit text = drop (length (duration_digits text)) text"

definition unit_seconds :: "string \<Rightarrow> nat option" where
  "unit_seconds unit =
     (if unit = ''s'' then Some 1
      else if unit = ''m'' then Some 60
      else if unit = ''h'' then Some 3600
      else if unit = ''d'' then Some 86400
      else None)"

definition checked_mul_u64 :: "nat \<Rightarrow> nat \<Rightarrow> nat option" where
  "checked_mul_u64 a b = (if a * b \<le> u64_max then Some (a * b) else None)"

definition parse_duration :: "string \<Rightarrow> invalid_duration + nat" where
  "parse_duration text =
     (let digits = duration_digits text; unit = duration_unit text in
      if digits = [] \<or> \<not> list_all is_ascii_digit digits then Inl (InvalidDuration text)
      else case parse_unsigned u64_max digits of
        None \<Rightarrow> Inl (InvalidDuration text)
      | Some count \<Rightarrow>
          (case unit_seconds unit of
            None \<Rightarrow> Inl (InvalidDuration text)
          | Some seconds \<Rightarrow>
              (case checked_mul_u64 count seconds of
                None \<Rightarrow> Inl (InvalidDuration text)
              | Some d \<Rightarrow> Inr d)))"

subsection \<open>What it accepts\<close>

lemma digit_not_alphabetic [simp]: "is_ascii_digit c \<Longrightarrow> \<not> is_ascii_alphabetic c"
  by (auto simp: char_class)

lemma unit_seconds_alphabetic: "unit_seconds u = Some k \<Longrightarrow> u \<noteq> [] \<and> list_all is_ascii_alphabetic u"
  by (auto simp: unit_seconds_def char_class split: if_splits)

lemma unit_seconds_pos: "unit_seconds u = Some k \<Longrightarrow> 0 < k"
  by (auto simp: unit_seconds_def split: if_splits)

lemma duration_split: "duration_digits text @ duration_unit text = text"
proof -
  have "rev (takeWhile is_ascii_alphabetic (rev text)) = duration_unit text"
    by (metis (no_types, lifting) append_eq_conv_conj duration_digits_def duration_unit_def
        rev_append rev_rev_ident takeWhile_dropWhile_id)
  then show ?thesis
    by (metis (no_types, lifting) duration_digits_def rev_append rev_rev_ident takeWhile_dropWhile_id)
qed

lemma duration_digits_append:
  assumes "ds \<noteq> []" and "list_all is_ascii_digit ds" and "list_all is_ascii_alphabetic u"
  shows "duration_digits (ds @ u) = ds" and "duration_unit (ds @ u) = u"
proof -
  have alpha: "\<forall>c \<in> set (rev u). is_ascii_alphabetic c"
    using assms(3) by (simp add: list_all_iff)
  have digit: "dropWhile is_ascii_alphabetic (rev ds) = rev ds"
    using assms(1,2) by (cases "rev ds") (auto simp: list_all_iff)
  have "dropWhile is_ascii_alphabetic (rev (ds @ u)) = rev ds"
    using alpha by (subst rev_append, subst dropWhile_append2) (simp_all add: digit)
  then show digits: "duration_digits (ds @ u) = ds"
    by (simp add: duration_digits_def)
  show "duration_unit (ds @ u) = u"
    by (simp add: duration_unit_def digits)
qed

lemma parse_unsigned_digits:
  assumes "ds \<noteq> []" and "list_all is_ascii_digit ds"
  shows "parse_unsigned m ds = (if digits_val ds \<le> m then Some (digits_val ds) else None)"
proof -
  obtain c cs where ds: "ds = c # cs" using assms(1) by (cases ds) auto
  then have "c \<noteq> CHR ''+''" using assms(2) by (auto dest: plus_not_digit)
  with assms ds show ?thesis by (simp add: parse_unsigned_def)
qed

text \<open>The accepted texts are exactly the digits and a unit whose product is within \<open>u64\<close>.\<close>

lemma parse_duration_iff:
  "parse_duration text = Inr d \<longleftrightarrow>
     (\<exists>ds u k. text = ds @ u \<and> ds \<noteq> [] \<and> list_all is_ascii_digit ds \<and>
        unit_seconds u = Some k \<and> d = digits_val ds * k \<and> d \<le> u64_max)"
    (is "?lhs \<longleftrightarrow> ?rhs")
proof
  assume ?lhs
  then have "\<exists>k. duration_digits text \<noteq> [] \<and> list_all is_ascii_digit (duration_digits text) \<and>
      unit_seconds (duration_unit text) = Some k \<and> d = digits_val (duration_digits text) * k \<and> d \<le> u64_max"
    by (auto simp: parse_duration_def Let_def checked_mul_u64_def parse_unsigned_digits
        split: if_splits option.splits)
  then show ?rhs using duration_split [of "text"] by metis
next
  assume ?rhs
  then obtain ds u k where *: "text = ds @ u" "ds \<noteq> []" "list_all is_ascii_digit ds"
      "unit_seconds u = Some k" "d = digits_val ds * k" "d \<le> u64_max" by blast
  have alpha: "list_all is_ascii_alphabetic u" using *(4) unit_seconds_alphabetic by simp
  have "0 < k" using *(4) by (rule unit_seconds_pos)
  then have "digits_val ds \<le> digits_val ds * k" by simp
  then have "digits_val ds \<le> u64_max" using *(5,6) by linarith
  with * alpha show "parse_duration text = Inr d"
    by (simp add: parse_duration_def Let_def duration_digits_append parse_unsigned_digits checked_mul_u64_def)
qed

text \<open>Formatting a count and a unit and parsing the text gives the count back in seconds.\<close>

lemma parse_duration_show [codec]:
  assumes "unit_seconds u = Some k" and "n * k \<le> u64_max"
  shows "parse_duration (show_nat n @ u) = Inr (n * k)"
  unfolding parse_duration_iff
  using assms by (intro exI [of _ "show_nat n"] exI [of _ u] exI [of _ k]) simp

end
