(* ===== verification/Partition.thy ===== *)
theory Partition
  imports Text_Util
begin

section \<open>Partition keys (\<open>partition.rs\<close>)\<close>

text \<open>
  The key of a partition: \<open>[A-Za-z0-9_]\<close> of one to sixteen bytes. \<open>partition_new\<close> validates a
  text; \<open>of_time\<close> formats the UTC fields of a time. The calendar is the \<open>chrono\<close> crate's and
  a parameter, \<open>utc\<close>: the fields of a time in milliseconds from the Unix epoch, or \<open>None\<close> out
  of its range.
\<close>

datatype partitioning = Daily | Hourly | Unpartitioned

definition show_partitioning :: "partitioning \<Rightarrow> string" where
  "show_partitioning p = (case p of Daily \<Rightarrow> ''daily'' | Hourly \<Rightarrow> ''hourly'' | Unpartitioned \<Rightarrow> ''none'')"

datatype partition = Partition (as_str: string)

datatype invalid_partition = InvalidPartition string

definition max_partition_len :: nat where
  "max_partition_len = 16"

definition partition_byte :: "char \<Rightarrow> bool" where
  "partition_byte b \<longleftrightarrow> is_ascii_alphanumeric b \<or> b = CHR ''_''"

definition partition_new :: "string \<Rightarrow> invalid_partition + partition" where
  "partition_new text =
     (let valid = text \<noteq> [] \<and> length text \<le> max_partition_len \<and> list_all partition_byte text
      in if valid then Inr (Partition text) else Inl (InvalidPartition text))"

definition partition_none :: partition where
  "partition_none = Partition ''none''"

text \<open>The order of the keys is the order of their texts (a derived \<open>Ord\<close>).\<close>

instantiation partition :: linorder
begin

definition less_eq_partition :: "partition \<Rightarrow> partition \<Rightarrow> bool" where
  "p \<le> q \<longleftrightarrow> as_str p \<le> as_str q"

definition less_partition :: "partition \<Rightarrow> partition \<Rightarrow> bool" where
  "p < q \<longleftrightarrow> as_str p < as_str q"

instance
  by standard (auto simp: less_eq_partition_def less_partition_def partition.expand)

end

subsection \<open>The partition of a time\<close>

record civil =
  year :: nat
  month :: nat
  day :: nat
  hour :: nat

definition i64_max :: nat where
  "i64_max = 9223372036854775807"

definition daily_key :: "civil \<Rightarrow> string" where
  "daily_key t = pad_zero 4 (show_nat (year t)) @ pad_zero 2 (show_nat (month t)) @ pad_zero 2 (show_nat (day t))"

definition hourly_key :: "civil \<Rightarrow> string" where
  "hourly_key t = daily_key t @ ''T'' @ pad_zero 2 (show_nat (hour t))"

definition of_time :: "(nat \<Rightarrow> civil option) \<Rightarrow> partitioning \<Rightarrow> nat \<Rightarrow> partition option" where
  "of_time utc p ms =
     (if i64_max < ms then None
      else case utc ms of
        None \<Rightarrow> None
      | Some t \<Rightarrow>
          if 9999 < year t then None
          else (case p of
              Daily \<Rightarrow> Some (Partition (daily_key t))
            | Hourly \<Rightarrow> Some (Partition (hourly_key t))
            | Unpartitioned \<Rightarrow> Some partition_none))"

text \<open>
  What the code relies on of the calendar: the fields are in their ranges, and they grow
  lexicographically with the time.
\<close>

definition civil_tuple :: "civil \<Rightarrow> nat list" where
  "civil_tuple t = [year t, month t, day t, hour t]"

definition calendar :: "(nat \<Rightarrow> civil option) \<Rightarrow> bool" where
  "calendar utc \<longleftrightarrow>
     (\<forall>ms t. utc ms = Some t \<longrightarrow> 1 \<le> month t \<and> month t \<le> 12 \<and> 1 \<le> day t \<and> day t \<le> 31 \<and> hour t \<le> 23) \<and>
     (\<forall>ms ms' t t'. ms \<le> ms' \<longrightarrow> utc ms = Some t \<longrightarrow> utc ms' = Some t' \<longrightarrow> civil_tuple t \<le> civil_tuple t')"

subsection \<open>Fixed-width decimals order as their values\<close>

lemma digits_val_Cons: "digits_val (c # cs) = digit_val c * 10 ^ length cs + digits_val cs"
proof (induction cs rule: rev_induct)
  case Nil
  then show ?case by (simp add: digits_val_def)
next
  case (snoc d cs)
  have "digits_val (c # cs @ [d]) = 10 * digits_val (c # cs) + digit_val d"
    using digits_val_snoc [of "c # cs" d] by simp
  with snoc show ?case by simp
qed

lemma digit_val_less: "is_ascii_digit c \<Longrightarrow> digit_val c < 10"
  by (auto simp: digit_val_def is_ascii_digit_def)

lemma digit_val_less_iff: "is_ascii_digit c \<Longrightarrow> is_ascii_digit d \<Longrightarrow> digit_val c < digit_val d \<longleftrightarrow> c < d"
  by (auto simp: digit_val_def is_ascii_digit_def less_char_def)

lemma digits_val_less: "list_all is_ascii_digit ds \<Longrightarrow> digits_val ds < 10 ^ length ds"
proof (induction ds)
  case (Cons c cs)
  then have "digits_val cs < 10 ^ length cs" and "digit_val c \<le> 9"
    using digit_val_less [of c] by auto
  moreover have "digit_val c * 10 ^ length cs \<le> 9 * 10 ^ length cs"
    using \<open>digit_val c \<le> 9\<close> by simp
  ultimately have "digit_val c * 10 ^ length cs + digits_val cs < 9 * 10 ^ length cs + 10 ^ length cs"
    by linarith
  then show ?case by (simp add: digits_val_Cons)
qed (simp add: digits_val_def)

lemma digits_less_iff:
  assumes "length a = length b" and "list_all is_ascii_digit a" and "list_all is_ascii_digit b"
  shows "a < b \<longleftrightarrow> digits_val a < digits_val b"
  using assms
proof (induction a b rule: list_induct2)
  case (Cons c a d b)
  have IH: "a < b \<longleftrightarrow> digits_val a < digits_val b" using Cons by simp
  have la: "digits_val a < 10 ^ length b" and lb: "digits_val b < 10 ^ length b"
    using Cons.prems Cons.hyps digits_val_less [of a] digits_val_less [of b] by auto
  consider "digit_val c < digit_val d" | "digit_val d < digit_val c" | "digit_val c = digit_val d"
    by linarith
  then show ?case
  proof cases
    case 1
    then have "Suc (digit_val c) * 10 ^ length b \<le> digit_val d * 10 ^ length b"
      by (intro mult_right_mono) auto
    moreover have "c < d" using 1 Cons.prems by (simp add: digit_val_less_iff)
    ultimately show ?thesis using la Cons.hyps by (simp add: digits_val_Cons)
  next
    case 2
    then have "Suc (digit_val d) * 10 ^ length b \<le> digit_val c * 10 ^ length b"
      by (intro mult_right_mono) auto
    moreover have "d < c" using 2 Cons.prems by (simp add: digit_val_less_iff)
    ultimately show ?thesis using lb Cons.hyps by (auto simp: digits_val_Cons)
  next
    case 3
    then have "c = d"
      using Cons.prems digit_val_less_iff [of c d] digit_val_less_iff [of d c] by auto
    then show ?thesis using 3 IH Cons.hyps by (simp add: digits_val_Cons)
  qed
qed (simp add: digits_val_def)

lemma digits_le_iff:
  assumes "length a = length b" and "list_all is_ascii_digit a" and "list_all is_ascii_digit b"
  shows "a \<le> b \<longleftrightarrow> digits_val a \<le> digits_val b"
  using digits_less_iff [of b a] assms by (auto simp: not_less [symmetric])

lemma append_le_iff:
  fixes a b c d :: string
  shows "length a = length c \<Longrightarrow> a @ b \<le> c @ d \<longleftrightarrow> a < c \<or> a = c \<and> b \<le> d"
  by (induction a c rule: list_induct2) auto

lemma zero_digit [simp]: "is_ascii_digit (CHR ''0'')"
  by (simp add: is_ascii_digit_def)

lemma digits_pad_zero [simp]: "list_all is_ascii_digit (pad_zero k (show_nat n))"
  by (auto simp: pad_zero_def list_all_iff)

lemma digits_val_pad_zero [simp]: "digits_val (pad_zero k (show_nat n)) = n"
proof -
  have "digits_val (replicate j (CHR ''0'') @ s) = digits_val s" for j s
    by (induction j) (simp_all add: digits_val_Cons digit_val_def)
  then show ?thesis by (simp add: pad_zero_def)
qed

lemma length_pad_show: "n < 10 ^ Suc k \<Longrightarrow> length (pad_zero (Suc k) (show_nat n)) = Suc k"
  using length_show_nat_le [of n k] by (simp add: length_pad_zero)

lemma pad_le_iff:
  "m < 10 ^ Suc k \<Longrightarrow> n < 10 ^ Suc k \<Longrightarrow>
     pad_zero (Suc k) (show_nat m) \<le> pad_zero (Suc k) (show_nat n) \<longleftrightarrow> m \<le> n"
  by (simp add: digits_le_iff length_pad_show)

lemma pad_less_iff:
  "m < 10 ^ Suc k \<Longrightarrow> n < 10 ^ Suc k \<Longrightarrow>
     pad_zero (Suc k) (show_nat m) < pad_zero (Suc k) (show_nat n) \<longleftrightarrow> m < n"
  by (simp add: digits_less_iff length_pad_show)

lemma pad_eq_iff: "pad_zero k (show_nat m) = pad_zero k (show_nat n) \<longleftrightarrow> m = n"
  using digits_val_pad_zero by metis

lemmas pad2 = length_pad_show [of _ 1, simplified, folded numeral_2_eq_2]
  pad_le_iff [of _ 1, simplified, folded numeral_2_eq_2]
  pad_less_iff [of _ 1, simplified, folded numeral_2_eq_2]

lemma numeral_4_Suc: "(4::nat) = Suc 3" by simp

lemmas pad4 = length_pad_show [of _ 3, folded numeral_4_Suc, simplified]
  pad_le_iff [of _ 3, folded numeral_4_Suc, simplified]
  pad_less_iff [of _ 3, folded numeral_4_Suc, simplified]

subsection \<open>The keys of a time are partition keys\<close>

definition civil_fields :: "civil \<Rightarrow> bool" where
  "civil_fields t \<longleftrightarrow> year t \<le> 9999 \<and> 1 \<le> month t \<and> month t \<le> 12 \<and> 1 \<le> day t \<and> day t \<le> 31 \<and> hour t \<le> 23"

lemma calendar_fields: "calendar utc \<Longrightarrow> utc ms = Some t \<Longrightarrow> year t \<le> 9999 \<Longrightarrow> civil_fields t"
  by (auto simp: calendar_def civil_fields_def)

lemma length_daily_key: "civil_fields t \<Longrightarrow> length (daily_key t) = 8"
  by (simp add: civil_fields_def daily_key_def pad2 pad4)

lemma length_hourly_key: "civil_fields t \<Longrightarrow> length (hourly_key t) = 11"
  using length_daily_key [of t] by (simp add: civil_fields_def hourly_key_def pad2)

lemma digits_daily_key: "list_all is_ascii_digit (daily_key t)"
  by (simp add: daily_key_def)

lemma partition_byte_digit [simp]: "is_ascii_digit c \<Longrightarrow> partition_byte c"
  by (simp add: partition_byte_def)

lemma partition_bytes_digits: "list_all is_ascii_digit s \<Longrightarrow> list_all partition_byte s"
  by (simp add: list_all_iff)

lemma partition_bytes_daily: "list_all partition_byte (daily_key t)"
  by (rule partition_bytes_digits) (rule digits_daily_key)

lemma partition_bytes_hourly: "list_all partition_byte (hourly_key t)"
proof -
  have "partition_byte (CHR ''T'')" by (simp add: partition_byte_def char_class)
  then show ?thesis by (simp add: hourly_key_def partition_bytes_daily partition_bytes_digits)
qed

definition partition_ok :: "partition \<Rightarrow> bool" where
  "partition_ok p \<longleftrightarrow> partition_new (as_str p) = Inr p"

lemma partition_ok_iff:
  "partition_ok p \<longleftrightarrow> as_str p \<noteq> [] \<and> length (as_str p) \<le> 16 \<and> list_all partition_byte (as_str p)"
  by (simp add: partition_ok_def partition_new_def max_partition_len_def)

lemma partition_new_ok [wf_intros]: "partition_new s = Inr p \<Longrightarrow> partition_ok p \<and> as_str p = s"
  by (auto simp: partition_new_def partition_ok_iff max_partition_len_def Let_def split: if_splits)

lemma partition_new_as_str [simp, codec]: "partition_ok p \<Longrightarrow> partition_new (as_str p) = Inr p"
  by (simp add: partition_ok_def)

lemma partition_ok_none [simp, wf_intros]: "partition_ok partition_none"
  by (simp add: partition_ok_iff partition_none_def partition_byte_def char_class)

lemma of_time_cases:
  assumes "of_time utc p ms = Some k"
  obtains t where "utc ms = Some t" and "year t \<le> 9999"
    and "k = (case p of Daily \<Rightarrow> Partition (daily_key t) | Hourly \<Rightarrow> Partition (hourly_key t)
                      | Unpartitioned \<Rightarrow> partition_none)"
  using assms by (auto simp: of_time_def split: if_splits option.splits partitioning.splits)

lemma of_time_ok:
  assumes "calendar utc" and "of_time utc p ms = Some k"
  shows "partition_ok k"
  using assms(2)
proof (rule of_time_cases)
  fix t
  assume t: "utc ms = Some t" "year t \<le> 9999"
    and k: "k = (case p of Daily \<Rightarrow> Partition (daily_key t) | Hourly \<Rightarrow> Partition (hourly_key t)
                      | Unpartitioned \<Rightarrow> partition_none)"
  have "civil_fields t" using assms(1) t by (rule calendar_fields)
  then have "length (daily_key t) = 8" "length (hourly_key t) = 11"
    by (simp_all add: length_daily_key length_hourly_key)
  moreover from this have "daily_key t \<noteq> []" "hourly_key t \<noteq> []" by auto
  ultimately show ?thesis
    using partition_bytes_daily [of t] partition_bytes_hourly [of t]
    by (cases p) (simp_all add: k partition_ok_iff [of "Partition _"])
qed

lemma daily_key_le:
  "civil_fields t \<Longrightarrow> civil_fields u \<Longrightarrow> civil_tuple t \<le> civil_tuple u \<Longrightarrow> daily_key t \<le> daily_key u"
  unfolding civil_fields_def daily_key_def civil_tuple_def
  by (subst append_le_iff, simp add: pad4) (auto simp: append_le_iff pad2 pad4)

lemma hourly_key_le:
  assumes "civil_fields t" and "civil_fields u" and "civil_tuple t \<le> civil_tuple u"
  shows "hourly_key t \<le> hourly_key u"
proof -
  have "daily_key t \<le> daily_key u" using assms by (rule daily_key_le)
  moreover have "daily_key t = daily_key u \<Longrightarrow> hour t \<le> hour u"
    using assms unfolding daily_key_def civil_fields_def civil_tuple_def
    by (auto simp: append_eq_append_conv pad2 pad4 pad_eq_iff)
  moreover have "daily_key t @ ''T'' @ pad_zero 2 (show_nat (hour t)) \<le> daily_key u @ ''T'' @ pad_zero 2 (show_nat (hour u)) \<longleftrightarrow>
      daily_key t < daily_key u \<or> daily_key t = daily_key u \<and> hour t \<le> hour u"
    using assms(1,2) by (subst append_le_iff) (simp_all add: length_daily_key pad2 civil_fields_def)
  ultimately show ?thesis unfolding hourly_key_def le_less by blast
qed

end
