(* ===== verification/Ordered_Map.thy ===== *)
theory Ordered_Map
  imports Prelude
begin

section \<open>Ordered maps and sets\<close>

text \<open>
  The source keeps its collections in \<open>BTreeMap\<close> and \<open>BTreeSet\<close>, whose iteration order is
  the key order. The order is visible (the order of the faults, of a listing, of the upstreams
  of a node), so a \<open>BTreeMap\<close> is a list of entries with strictly increasing keys and a
  \<open>BTreeSet\<close> is a strictly increasing list. The locale \<open>ordered_dict\<close> states what the clients
  rely on: lookups after an insert and a removal, and the order invariant. The clients use its
  lemmas on folds of inserts and of entry updates through the interpretation \<open>bt\<close>.
\<close>

type_synonym ('k, 'v) btree = "('k \<times> 'v) list"

subsection \<open>Operations\<close>

definition bt_get :: "('k, 'v) btree \<Rightarrow> 'k \<Rightarrow> 'v option" where
  "bt_get m k = map_of m k"

fun bt_insert :: "'k::linorder \<Rightarrow> 'v \<Rightarrow> ('k, 'v) btree \<Rightarrow> ('k, 'v) btree" where
  "bt_insert k v [] = [(k, v)]"
| "bt_insert k v (e # m) =
     (if k < fst e then (k, v) # e # m
      else if k = fst e then (k, v) # m
      else e # bt_insert k v m)"

definition bt_remove :: "'k \<Rightarrow> ('k, 'v) btree \<Rightarrow> ('k, 'v) btree" where
  "bt_remove k m = filter (\<lambda>e. fst e \<noteq> k) m"

definition bt_keys :: "('k, 'v) btree \<Rightarrow> 'k list" where
  "bt_keys m = map fst m"

definition bt_wf :: "('k::linorder, 'v) btree \<Rightarrow> bool" where
  "bt_wf m \<longleftrightarrow> sorted_wrt (<) (map fst m)"

text \<open>\<open>entry(k)\<close> followed by \<open>or_default\<close> and an update of the value.\<close>

definition bt_entry :: "'k::linorder \<Rightarrow> ('v option \<Rightarrow> 'v) \<Rightarrow> ('k, 'v) btree \<Rightarrow> ('k, 'v) btree" where
  "bt_entry k f m = bt_insert k (f (bt_get m k)) m"

fun bs_insert :: "'k::linorder \<Rightarrow> 'k list \<Rightarrow> 'k list" where
  "bs_insert k [] = [k]"
| "bs_insert k (e # s) = (if k < e then k # e # s else if k = e then e # s else e # bs_insert k s)"

definition bs_extend :: "'k::linorder list \<Rightarrow> 'k list \<Rightarrow> 'k list" where
  "bs_extend ks s = fold bs_insert ks s"

subsection \<open>The interface\<close>

locale ordered_dict =
  fixes get :: "'m \<Rightarrow> 'k::linorder \<Rightarrow> 'v option"
    and insert :: "'k \<Rightarrow> 'v \<Rightarrow> 'm \<Rightarrow> 'm"
    and remove :: "'k \<Rightarrow> 'm \<Rightarrow> 'm"
    and keys :: "'m \<Rightarrow> 'k list"
    and wf :: "'m \<Rightarrow> bool"
  assumes get_insert: "get (insert k v m) = (get m)(k \<mapsto> v)"
    and get_remove: "get (remove k m) = (get m)(k := None)"
    and set_keys: "set (keys m) = dom (get m)"
    and sorted_keys: "wf m \<Longrightarrow> sorted_wrt (<) (keys m)"
    and wf_insert: "wf m \<Longrightarrow> wf (insert k v m)"
    and wf_remove: "wf m \<Longrightarrow> wf (remove k m)"
begin

lemma distinct_keys: "wf m \<Longrightarrow> distinct (keys m)"
  using sorted_keys [of m] by (simp add: strict_sorted_iff)

lemma get_insert_same: "get (insert k v m) k = Some v"
  by (simp add: get_insert)

lemma get_insert_other: "k' \<noteq> k \<Longrightarrow> get (insert k v m) k' = get m k'"
  by (simp add: get_insert)

lemma keys_insert: "set (keys (insert k v m)) = {k} \<union> set (keys m)"
  by (auto simp: set_keys get_insert)

lemma get_fold_insert:
  "get (fold (\<lambda>x. insert (f x) (g x)) xs m) k
     = fold (\<lambda>x r. Some (g x)) (filter (\<lambda>x. f x = k) xs) (get m k)"
  by (induction xs arbitrary: m) (auto simp: get_insert)

lemma get_fold_entry:
  "get (fold (\<lambda>x m. insert (f x) (g x (get m (f x))) m) xs m) k
     = fold (\<lambda>x r. Some (g x r)) (filter (\<lambda>x. f x = k) xs) (get m k)"
  by (induction xs arbitrary: m) (auto simp: get_insert)

lemma dom_fold_entry:
  "dom (get (fold (\<lambda>x m. insert (f x) (g x (get m (f x))) m) xs m)) = f ` set xs \<union> dom (get m)"
  by (induction xs arbitrary: m) (auto simp: get_insert)

lemma wf_fold_insert: "wf m \<Longrightarrow> wf (fold (\<lambda>x. insert (f x) (g x)) xs m)"
  by (induction xs arbitrary: m) (auto intro: wf_insert)

lemma wf_fold_entry: "wf m \<Longrightarrow> wf (fold (\<lambda>x m. insert (f x) (g x (get m (f x))) m) xs m)"
  by (induction xs arbitrary: m) (auto intro: wf_insert)

end

subsection \<open>The entries with increasing keys provide it\<close>

lemma bt_get_Nil [simp]: "bt_get [] k = None"
  by (simp add: bt_get_def)

lemma bt_wf_Nil [simp]: "bt_wf []"
  by (simp add: bt_wf_def)

lemma bt_wf_Cons: "bt_wf ((k, v) # m) \<longleftrightarrow> (\<forall>k' \<in> fst ` set m. k < k') \<and> bt_wf m"
  by (auto simp: bt_wf_def)

lemma bt_insert_get: "bt_get (bt_insert k v m) = (bt_get m)(k \<mapsto> v)"
  by (induction m) (auto simp: bt_get_def fun_eq_iff)

lemma bt_remove_get: "bt_get (bt_remove k m) = (bt_get m)(k := None)"
  by (induction m) (auto simp: bt_get_def bt_remove_def fun_eq_iff)

lemma bt_insert_fst: "fst ` set (bt_insert k v m) = {k} \<union> fst ` set m"
  by (induction m) auto

lemma bt_insert_wf: "bt_wf m \<Longrightarrow> bt_wf (bt_insert k v m)"
proof (induction m)
  case (Cons e m)
  obtain k' v' where e: "e = (k', v')" by (cases e)
  from Cons.prems have lt: "\<forall>x \<in> fst ` set m. k' < x" and wf: "bt_wf m"
    by (simp_all add: e bt_wf_Cons)
  show ?case
  proof (cases "k < k' \<or> k = k'")
    case True
    with lt wf show ?thesis by (auto simp: e bt_wf_Cons dest: less_trans)
  next
    case False
    then have "k' < k" by auto
    with lt Cons.IH [OF wf] show ?thesis
      by (auto simp: e bt_wf_Cons bt_insert_fst)
  qed
qed (simp add: bt_wf_def)

lemma bt_remove_wf: "bt_wf m \<Longrightarrow> bt_wf (bt_remove k m)"
  by (induction m) (auto simp: bt_wf_def bt_remove_def)

interpretation bt: ordered_dict bt_get bt_insert bt_remove bt_keys bt_wf
proof unfold_locales
  fix m :: "('a::linorder, 'b) btree"
  show "set (bt_keys m) = dom (bt_get m)"
    by (simp add: bt_keys_def bt_get_def [abs_def] dom_map_of_conv_image_fst)
  show "bt_wf m \<Longrightarrow> sorted_wrt (<) (bt_keys m)"
    by (simp add: bt_wf_def bt_keys_def)
qed (simp_all add: bt_insert_get bt_remove_get bt_insert_wf bt_remove_wf)

lemmas bt_get_simps [simp] = bt.get_insert bt.get_remove

lemma bt_get_mem: "bt_get m k = Some v \<Longrightarrow> (k, v) \<in> set m"
  by (simp add: bt_get_def map_of_SomeD)

lemma bt_wf_get: "bt_wf m \<Longrightarrow> bt_get m k = Some v \<longleftrightarrow> (k, v) \<in> set m"
proof -
  assume "bt_wf m"
  then have "distinct (map fst m)"
    using bt.distinct_keys [of m] by (simp add: bt_keys_def)
  then show ?thesis by (simp add: bt_get_def map_of_eq_Some_iff)
qed

lemma bt_wf_filter: "bt_wf m \<Longrightarrow> bt_wf (filter P m)"
  by (induction m) (auto simp: bt_wf_def)

lemma bt_wf_map_snd: "bt_wf m \<Longrightarrow> bt_wf (map (\<lambda>(k, v). (k, f k v)) m)"
proof -
  assume "bt_wf m"
  moreover have "map fst (map (\<lambda>(k, v). (k, f k v)) m) = map fst m" by (induction m) auto
  ultimately show ?thesis unfolding bt_wf_def by (simp only:)
qed

lemma bt_get_filter:
  assumes "bt_wf m"
  shows "bt_get (filter P m) k = (case bt_get m k of Some v \<Rightarrow> if P (k, v) then Some v else None | None \<Rightarrow> None)"
proof (cases "bt_get (filter P m) k")
  case None
  then have "\<And>v. (k, v) \<in> set m \<Longrightarrow> \<not> P (k, v)"
    by (force simp: bt_get_def map_of_eq_None_iff)
  then show ?thesis using None assms by (auto simp: bt_wf_get split: option.splits)
next
  case (Some v)
  then have "(k, v) \<in> set m" and "P (k, v)" using bt_get_mem [OF Some] by auto
  then have "bt_get m k = Some v" using assms by (simp add: bt_wf_get)
  with Some \<open>P (k, v)\<close> show ?thesis by simp
qed

text \<open>Two ordered maps with the same lookups are equal: the form is canonical.\<close>

lemma bt_ext:
  assumes "bt_wf m" and "bt_wf n" and "bt_get m = bt_get n"
  shows "m = n"
proof -
  have keys: "map fst m = map fst n"
  proof (rule strict_sorted_equal)
    show "sorted_wrt (<) (map fst n)" using assms by (simp add: bt_wf_def)
    show "sorted_wrt (<) (map fst m)" using assms by (simp add: bt_wf_def)
    show "set (map fst m) = set (map fst n)"
      using assms(3) bt.set_keys [of m] bt.set_keys [of n] by (simp add: bt_keys_def)
  qed
  have set_eq: "set m = set n"
    using bt_wf_get [OF assms(1)] bt_wf_get [OF assms(2)] assms(3) by auto
  have inj: "inj_on fst (set m \<union> set n)"
    using bt.distinct_keys [OF assms(1)] set_eq
    by (simp add: bt_keys_def distinct_map)
  show ?thesis
    using keys inj by (simp add: inj_on_map_eq_map)
qed

subsection \<open>Sets\<close>

lemma set_bs_insert [simp]: "set (bs_insert k s) = {k} \<union> set s"
  by (induction s) auto

lemma sorted_bs_insert: "sorted_wrt (<) s \<Longrightarrow> sorted_wrt (<) (bs_insert k s)"
proof (induction s)
  case (Cons e s)
  show ?case
  proof (cases "k < e \<or> k = e")
    case True
    with Cons.prems show ?thesis by (auto dest: less_trans)
  next
    case False
    then have "e < k" by auto
    with Cons show ?thesis by auto
  qed
qed simp

lemma set_bs_extend [simp]: "set (bs_extend ks s) = set ks \<union> set s"
  by (induction ks arbitrary: s) (auto simp: bs_extend_def)

lemma sorted_bs_extend: "sorted_wrt (<) s \<Longrightarrow> sorted_wrt (<) (bs_extend ks s)"
  by (induction ks arbitrary: s) (auto simp: bs_extend_def sorted_bs_insert)

end
