(* ===== verification/Json.thy ===== *)
theory Json
  imports Ordered_Map Text_Util
begin

section \<open>JSON and TOML values\<close>

text \<open>
  The data of \<open>serde_json::Value\<close> and \<open>toml::Value\<close>, which the source takes apart by pattern
  matching. An object and a table are their entries in iteration order. A number is one of the
  three forms of \<open>serde_json\<close>, a float by its bits. Printing, parsing and the conversion of a
  TOML table to JSON are the crates' and are parameters where the source uses them.
\<close>

datatype number = PosInt u64 | NegInt u64 | Float u64

datatype json =
    JNull
  | JBool bool
  | JNumber number
  | JString string
  | JArray "json list"
  | JObject "(string \<times> json) list"

datatype toml =
    TString string
  | TInteger int
  | TFloat u64
  | TBoolean bool
  | TDatetime string
  | TArray "toml list"
  | TTable "(string \<times> toml) list"

type_synonym toml_table = "(string \<times> toml) list"

lemma size_toml_array [termination_simp]: "v \<in> set vs \<Longrightarrow> size v < Suc (size_list size vs)"
  by (induction vs) auto

subsection \<open>Lookup of a dotted path (\<open>template.rs\<close>, \<open>lookup\<close>)\<close>

text \<open>An object gives the value of the key, an array the element at the index the key parses to.\<close>

definition json_get :: "json \<Rightarrow> string \<Rightarrow> json option" where
  "json_get value key =
     (case value of
       JObject m \<Rightarrow> map_of m key
     | JArray items \<Rightarrow>
         (case parse_unsigned u64_max key of
           Some i \<Rightarrow> if i < length items then Some (items ! i) else None
         | None \<Rightarrow> None)
     | _ \<Rightarrow> None)"

fun lookup :: "json \<Rightarrow> string list \<Rightarrow> json option" where
  "lookup value [] = Some value"
| "lookup value (key # path) = (case json_get value key of None \<Rightarrow> None | Some v \<Rightarrow> lookup v path)"

lemma lookup_append: "lookup j (p @ q) = (case lookup j p of None \<Rightarrow> None | Some v \<Rightarrow> lookup v q)"
  by (induction p arbitrary: j) (auto split: option.splits)

lemma lookup_scalar: "j \<in> {JNull, JBool b, JNumber n, JString s} \<Longrightarrow> lookup j (k # p) = None"
  by (auto simp: json_get_def)

lemma lookup_array_index:
  "i < length items \<Longrightarrow> i \<le> u64_max \<Longrightarrow> lookup (JArray items) (show_nat i # p) = lookup (items ! i) p"
  by (simp add: json_get_def)

end
