(* ===== verification/Template.thy ===== *)
theory Template
  imports Json
begin

section \<open>The substitution language (\<open>template.rs\<close>)\<close>

text \<open>
  A parameter string is a sequence of literals and references. \<open>parse\<close> is the loop over the
  text with its offset, \<open>reference\<close> the parser of one reference and \<open>render\<close> the
  substitution against a context. The JSON text of a value is \<open>serde_json\<close>'s and a parameter,
  \<open>json_text\<close>.
\<close>

datatype run_field = RunId | RunSummary

datatype segment =
    Literal string
  | PartitionRef
  | Run run_field
  | Upstream string "string list"
  | Env string
  | Item "string list"

datatype template_error = Unclosed nat | UnknownReference string

datatype render_error =
    MissingUpstream string
  | MissingPath string string
  | MissingEnv string
  | MissingItem
  | MissingItemPath string

record render_context =
  rc_partition :: string
  rc_run_id :: string
  rc_run_summary :: string
  rc_upstream :: "(string, json) btree"
  rc_env :: "(string, string) btree"
  rc_item :: "json option"

subsection \<open>Parsing\<close>

definition is_env_name :: "string \<Rightarrow> bool" where
  "is_env_name name =
     (case name of
       [] \<Rightarrow> False
     | c # cs \<Rightarrow> (is_ascii_alphabetic c \<or> c = CHR ''_'') \<and>
         list_all (\<lambda>c. is_ascii_alphanumeric c \<or> c = CHR ''_'') cs)"

definition reference :: "string \<Rightarrow> template_error + segment" where
  "reference t =
     (if t = ''partition'' then Inr PartitionRef
      else if t = ''item'' then Inr (Item [])
      else let unknown = Inl (UnknownReference t) in
        case strip_prefix ''item.'' t of
          Some rest \<Rightarrow>
            (let path = split_on (CHR ''.'') rest
             in if list_ex (\<lambda>p. p = []) path then unknown else Inr (Item path))
        | None \<Rightarrow>
        (case strip_prefix ''run.'' t of
          Some field \<Rightarrow>
            (if field = ''id'' then Inr (Run RunId)
             else if field = ''summary'' then Inr (Run RunSummary)
             else unknown)
        | None \<Rightarrow>
        (case strip_prefix ''env.'' t of
          Some name \<Rightarrow> (if is_env_name name then Inr (Env name) else unknown)
        | None \<Rightarrow>
        (case strip_prefix ''upstream.'' t of
          None \<Rightarrow> unknown
        | Some rest \<Rightarrow>
            (case split_on (CHR ''.'') rest of
              [] \<Rightarrow> unknown
            | node # path \<Rightarrow>
                if node = [] \<or> list_ex (\<lambda>p. p = []) path then unknown
                else Inr (Upstream node path))))))"

function parse_loop :: "segment list \<Rightarrow> string \<Rightarrow> nat \<Rightarrow> template_error + segment list" where
  "parse_loop segments rest offset =
     (case find_sub ''{{'' rest of
       None \<Rightarrow> Inr (if rest \<noteq> [] then segments @ [Literal rest] else segments)
     | Some opn \<Rightarrow>
         (let segments' = (if 0 < opn then segments @ [Literal (take opn rest)] else segments);
              after_open = drop (opn + 2) rest
          in case find_sub ''}}'' after_open of
            None \<Rightarrow> Inl (Unclosed (offset + opn))
          | Some cls \<Rightarrow>
              (case reference (trim (take cls after_open)) of
                Inl e \<Rightarrow> Inl e
              | Inr seg \<Rightarrow>
                  (let consumed = opn + 2 + cls + 2
                   in parse_loop (segments' @ [seg]) (drop consumed rest) (offset + consumed)))))"
  by pat_completeness auto
termination
  by (relation "measure (\<lambda>(segs, rest, offset). length rest)") (auto dest: find_sub_bound)

declare parse_loop.simps [simp del]

definition parse :: "string \<Rightarrow> template_error + segment list" where
  "parse source = parse_loop [] source 0"

subsection \<open>What a template refers to\<close>

definition upstream_nodes :: "segment list \<Rightarrow> string list" where
  "upstream_nodes segs = List.map_filter (\<lambda>s. case s of Upstream node path \<Rightarrow> Some node | _ \<Rightarrow> None) segs"

definition refers_to_item :: "segment list \<Rightarrow> bool" where
  "refers_to_item segs = list_ex (\<lambda>s. case s of Item path \<Rightarrow> True | _ \<Rightarrow> False) segs"

subsection \<open>Rendering\<close>

definition push_value :: "(json \<Rightarrow> string) \<Rightarrow> json \<Rightarrow> string" where
  "push_value json_text value = (case value of JString t \<Rightarrow> t | other \<Rightarrow> json_text other)"

definition render_segment ::
  "(json \<Rightarrow> string) \<Rightarrow> render_context \<Rightarrow> segment \<Rightarrow> render_error + string" where
  "render_segment json_text ctx segment =
     (case segment of
       Literal t \<Rightarrow> Inr t
     | PartitionRef \<Rightarrow> Inr (rc_partition ctx)
     | Run RunId \<Rightarrow> Inr (rc_run_id ctx)
     | Run RunSummary \<Rightarrow> Inr (rc_run_summary ctx)
     | Upstream node path \<Rightarrow>
         (case bt_get (rc_upstream ctx) node of
           None \<Rightarrow> Inl (MissingUpstream node)
         | Some output \<Rightarrow>
             (case lookup output path of
               None \<Rightarrow> Inl (MissingPath node (join_with ''.'' path))
             | Some value \<Rightarrow> Inr (push_value json_text value)))
     | Env name \<Rightarrow>
         (case bt_get (rc_env ctx) name of
           None \<Rightarrow> Inl (MissingEnv name)
         | Some value \<Rightarrow> Inr value)
     | Item path \<Rightarrow>
         (case rc_item ctx of
           None \<Rightarrow> Inl MissingItem
         | Some item \<Rightarrow>
             (case lookup item path of
               None \<Rightarrow> Inl (MissingItemPath (join_with ''.'' path))
             | Some value \<Rightarrow> Inr (push_value json_text value))))"

fun render :: "(json \<Rightarrow> string) \<Rightarrow> render_context \<Rightarrow> segment list \<Rightarrow> render_error + string" where
  "render json_text ctx [] = Inr []"
| "render json_text ctx (segment # segments) =
     (case render_segment json_text ctx segment of
       Inl e \<Rightarrow> Inl e
     | Inr out \<Rightarrow>
         (case render json_text ctx segments of
           Inl e \<Rightarrow> Inl e
         | Inr rest \<Rightarrow> Inr (out @ rest)))"

subsection \<open>Rendering reads the references alone\<close>

lemma render_append:
  "render jt ctx (a @ b) =
     (case render jt ctx a of Inl e \<Rightarrow> Inl e
      | Inr x \<Rightarrow> (case render jt ctx b of Inl e \<Rightarrow> Inl e | Inr y \<Rightarrow> Inr (x @ y)))"
  by (induction a) (auto split: sum.splits)

lemma upstream_nodes_simps [simp]:
  "upstream_nodes [] = []"
  "upstream_nodes (s # segs) = (case s of Upstream node path \<Rightarrow> node # upstream_nodes segs | _ \<Rightarrow> upstream_nodes segs)"
  by (simp_all add: upstream_nodes_def List.map_filter_simps split: segment.splits)

lemma refers_to_item_simps [simp]:
  "\<not> refers_to_item []"
  "refers_to_item (s # segs) \<longleftrightarrow> (\<exists>path. s = Item path) \<or> refers_to_item segs"
  by (auto simp: refers_to_item_def split: segment.splits)

lemma render_cong:
  assumes "rc_partition ctx = rc_partition ctx'" and "rc_run_id ctx = rc_run_id ctx'"
    and "rc_run_summary ctx = rc_run_summary ctx'" and "rc_env ctx = rc_env ctx'"
    and "refers_to_item segs \<Longrightarrow> rc_item ctx = rc_item ctx'"
    and "\<And>n. n \<in> set (upstream_nodes segs) \<Longrightarrow> bt_get (rc_upstream ctx) n = bt_get (rc_upstream ctx') n"
  shows "render jt ctx segs = render jt ctx' segs"
  using assms
proof (induction segs)
  case (Cons s segs)
  have "render jt ctx segs = render jt ctx' segs"
    by (rule Cons.IH) (use Cons.prems in \<open>auto split: segment.splits\<close>)
  moreover have "render_segment jt ctx s = render_segment jt ctx' s"
    using Cons.prems by (auto simp: render_segment_def split: segment.splits run_field.splits)
  ultimately show ?case by (auto split: sum.splits)
qed simp

lemma render_literals: "render jt ctx (map Literal ts) = Inr (concat ts)"
  by (induction ts) (simp_all add: render_segment_def)

text \<open>A rendering fails with the error of its first reference that does not resolve.\<close>

lemma render_Inl_iff:
  "render jt ctx segs = Inl e \<longleftrightarrow>
     (\<exists>a s b. segs = a @ s # b \<and> (\<exists>out. render jt ctx a = Inr out) \<and> render_segment jt ctx s = Inl e)"
    (is "?lhs segs \<longleftrightarrow> ?rhs segs")
proof
  assume "?lhs segs"
  then show "?rhs segs"
  proof (induction segs)
    case (Cons s segs)
    show ?case
    proof (cases "render_segment jt ctx s")
      case (Inl x)
      with Cons.prems show ?thesis by (intro exI [of _ "[]"] exI [of _ s] exI [of _ segs]) simp
    next
      case (Inr out)
      with Cons.prems have "?lhs segs" by (auto split: sum.splits)
      with Cons.IH obtain a t b where "segs = a @ t # b" "\<exists>out. render jt ctx a = Inr out"
          "render_segment jt ctx t = Inl e" by blast
      with Inr show ?thesis by (intro exI [of _ "s # a"] exI [of _ t] exI [of _ b]) auto
    qed
  qed simp
next
  assume "?rhs segs"
  then show "?lhs segs" by (auto simp: render_append)
qed

lemma render_Inr_iff: "(\<exists>out. render jt ctx segs = Inr out) \<longleftrightarrow> (\<forall>s \<in> set segs. \<exists>out. render_segment jt ctx s = Inr out)"
  by (induction segs) (auto split: sum.splits)

lemma render_missing_upstream:
  assumes "render jt ctx segs = Inl (MissingUpstream n)"
  shows "n \<in> set (upstream_nodes segs) \<and> bt_get (rc_upstream ctx) n = None"
proof -
  obtain a s b where segs: "segs = a @ s # b" and s: "render_segment jt ctx s = Inl (MissingUpstream n)"
    using assms by (auto simp: render_Inl_iff)
  from s obtain path where "s = Upstream n path" "bt_get (rc_upstream ctx) n = None"
    by (auto simp: render_segment_def split: segment.splits run_field.splits option.splits)
  moreover have "n \<in> set (upstream_nodes (a @ Upstream n path # b))"
    by (induction a) (auto split: segment.splits)
  ultimately show ?thesis by (simp add: segs)
qed

end
