(* ===== verification/Template_Roundtrip.thy ===== *)
theory Template_Roundtrip
  imports Template Partition
begin

section \<open>The grammar of templates\<close>

text \<open>
  The printed form of a segment list, and the lists the parser reads back from it: names of
  \<open>[A-Za-z0-9_]\<close>, literals without an opening brace pair, no two adjacent literals, and no
  literal that ends in a brace in front of a reference (whose brace pair it would move).
  \<open>parse\<close> inverts \<open>show_template\<close> on them, and reports an unclosed reference at the offset of
  its brace pair.
\<close>

definition show_reference :: "segment \<Rightarrow> string" where
  "show_reference s =
     (case s of
       Literal t \<Rightarrow> t
     | PartitionRef \<Rightarrow> ''partition''
     | Run RunId \<Rightarrow> ''run.id''
     | Run RunSummary \<Rightarrow> ''run.summary''
     | Upstream node path \<Rightarrow> ''upstream.'' @ join_with ''.'' (node # path)
     | Env name \<Rightarrow> ''env.'' @ name
     | Item [] \<Rightarrow> ''item''
     | Item path \<Rightarrow> ''item.'' @ join_with ''.'' path)"

fun show_segment :: "segment \<Rightarrow> string" where
  "show_segment (Literal t) = t"
| "show_segment s = ''{{'' @ '' '' @ show_reference s @ '' '' @ ''}}''"

definition show_template :: "segment list \<Rightarrow> string" where
  "show_template segs = concat (map show_segment segs)"

definition name_part :: "string \<Rightarrow> bool" where
  "name_part p \<longleftrightarrow> p \<noteq> [] \<and> list_all partition_byte p"

fun wf_segment :: "segment \<Rightarrow> bool" where
  "wf_segment (Literal t) \<longleftrightarrow> t \<noteq> [] \<and> find_sub ''{{'' t = None"
| "wf_segment (Upstream node path) \<longleftrightarrow> name_part node \<and> list_all name_part path"
| "wf_segment (Env name) \<longleftrightarrow> is_env_name name"
| "wf_segment (Item path) \<longleftrightarrow> list_all name_part path"
| "wf_segment _ \<longleftrightarrow> True"

fun is_literal :: "segment \<Rightarrow> bool" where
  "is_literal (Literal t) = True"
| "is_literal _ = False"

fun canonical :: "segment list \<Rightarrow> bool" where
  "canonical [] \<longleftrightarrow> True"
| "canonical [s] \<longleftrightarrow> wf_segment s"
| "canonical (Literal t # s # segs) \<longleftrightarrow>
     wf_segment (Literal t) \<and> \<not> is_literal s \<and> last t \<noteq> CHR ''{'' \<and> canonical (s # segs)"
| "canonical (s # segs) \<longleftrightarrow> wf_segment s \<and> canonical segs"

subsection \<open>One reference\<close>

definition ref_byte :: "char \<Rightarrow> bool" where
  "ref_byte c \<longleftrightarrow> partition_byte c \<or> c = CHR ''.''"

lemma ref_byte_val: "ref_byte c \<Longrightarrow> 46 \<le> byte_val c \<and> byte_val c \<le> 122"
  by (auto simp: ref_byte_def partition_byte_def char_class)

lemma white_space_bytes:
  "list_all (\<lambda>ns. ns \<noteq> [] \<and> (ns = [32] \<or> (hd ns < 32 \<or> 128 \<le> hd ns) \<and> (last ns < 32 \<or> 128 \<le> last ns)) \<and>
     hd ns < 256 \<and> last ns < 256) white_space_bytes"
  by (simp add: white_space_bytes_def)

lemma space_char: "char_of (32::nat) = CHR '' ''"
proof -
  have "byte_val (char_of (32::nat)) = byte_val (CHR '' '')" by simp
  then show ?thesis by (simp only: of_char_eq_iff)
qed

lemma white_space_cases:
  assumes "p \<in> set white_space"
  shows "p = [CHR '' ''] \<or> p \<noteq> [] \<and> (byte_val (hd p) < 32 \<or> 128 \<le> byte_val (hd p)) \<and>
    (byte_val (last p) < 32 \<or> 128 \<le> byte_val (last p))"
proof -
  obtain ns where ns: "ns \<in> set white_space_bytes" and p: "p = map char_of ns"
    using assms by (auto simp: white_space_def)
  have "ns \<noteq> [] \<and> (ns = [32] \<or> (hd ns < 32 \<or> 128 \<le> hd ns) \<and> (last ns < 32 \<or> 128 \<le> last ns)) \<and>
     hd ns < 256 \<and> last ns < 256"
    using white_space_bytes ns by (simp add: list_all_iff)
  note spec = this
  show ?thesis
  proof (cases "ns = [32]")
    case True
    then show ?thesis unfolding p by (simp only: list.map space_char) simp
  next
    case False
    have "byte_val (hd p) = hd ns" "byte_val (last p) = last ns"
      using spec by (simp_all add: p hd_map last_map)
    then show ?thesis using spec False p by simp
  qed
qed

lemma strip_any_hd: "\<forall>p \<in> set ps. p \<noteq> [] \<and> hd p \<noteq> c \<Longrightarrow> strip_any ps (c # s) = None"
proof (induction ps)
  case (Cons p ps)
  then show ?case by (cases p) auto
qed simp

lemma strip_any_single:
  assumes "[c] \<in> set ps" and "\<forall>p \<in> set ps. p \<noteq> [] \<and> (p = [c] \<or> hd p \<noteq> c)"
  shows "strip_any ps (c # s) = Some s"
  using assms
proof (induction ps)
  case (Cons p ps)
  show ?case
  proof (cases "p = [c]")
    case False
    have "p \<noteq> [] \<and> (p = [c] \<or> hd p \<noteq> c)" using Cons.prems(2) by simp
    then obtain d ds where p: "p = d # ds" "d \<noteq> c" using False by (cases p) auto
    have "strip_any ps (c # s) = Some s"
      by (rule Cons.IH) (use Cons.prems False in simp_all)
    then show ?thesis by (simp add: p)
  qed simp
qed simp

lemma white_space_has_space: "[CHR '' ''] \<in> set white_space"
proof -
  have "[32] \<in> set white_space_bytes" by (simp add: white_space_bytes_def)
  then have "map char_of [32::nat] \<in> set white_space" unfolding white_space_def set_map by (rule imageI)
  then show ?thesis by (simp add: space_char)
qed

lemma strip_any_space: "strip_any white_space (CHR '' '' # s) = Some s"
proof (rule strip_any_single [OF white_space_has_space], intro ballI)
  fix p
  assume "p \<in> set white_space"
  then show "p \<noteq> [] \<and> (p = [CHR '' ''] \<or> hd p \<noteq> CHR '' '')"
    using white_space_cases [of p] by auto
qed

lemma strip_any_space_rev: "strip_any (map rev white_space) (CHR '' '' # s) = Some s"
proof (rule strip_any_single)
  show "[CHR '' ''] \<in> set (map rev white_space)"
    using white_space_has_space by (metis image_eqI list.set_map rev_singleton_conv)
  show "\<forall>p \<in> set (map rev white_space). p \<noteq> [] \<and> (p = [CHR '' ''] \<or> hd p \<noteq> CHR '' '')"
  proof
    fix p
    assume "p \<in> set (map rev white_space)"
    then obtain q where "q \<in> set white_space" and "p = rev q" by auto
    then show "p \<noteq> [] \<and> (p = [CHR '' ''] \<or> hd p \<noteq> CHR '' '')"
      using white_space_cases [of q] by (auto simp: hd_rev)
  qed
qed

lemma strip_all_ref:
  assumes "ref_byte c"
  shows "strip_all white_space (c # s) = c # s" and "strip_all (map rev white_space) (c # s) = c # s"
proof -
  have "p \<noteq> [] \<and> hd p \<noteq> c \<and> last p \<noteq> c" if "p \<in> set white_space" for p
    using white_space_cases [OF that] ref_byte_val [OF assms] by auto
  then have "\<forall>p \<in> set white_space. p \<noteq> [] \<and> hd p \<noteq> c"
    and "\<forall>p \<in> set (map rev white_space). p \<noteq> [] \<and> hd p \<noteq> c"
    by (fastforce simp: hd_rev)+
  then show "strip_all white_space (c # s) = c # s" "strip_all (map rev white_space) (c # s) = c # s"
    by (blast intro: strip_all_None strip_any_hd)+
qed

lemma trim_reference:
  assumes "r \<noteq> []" and "list_all ref_byte r"
  shows "trim ('' '' @ r @ '' '') = r"
proof -
  obtain c cs where r: "r = c # cs" using assms(1) by (cases r) auto
  obtain d ds where r': "rev r = d # ds" using assms(1) by (cases "rev r") auto
  have "d \<in> set r" using r' by (metis list.set_intros(1) set_rev)
  then have ref: "ref_byte c" "ref_byte d" using assms(2) r by (auto simp: list_all_iff)
  have "trim_start ('' '' @ r @ '' '') = r @ '' ''"
    using strip_all_ref(1) [OF ref(1), of "cs @ '' ''"]
    by (simp add: trim_start_def r strip_all.simps [of _ "CHR '' '' # _"] strip_any_space)
  moreover have "trim_end (r @ '' '') = r"
    using strip_all_ref(2) [OF ref(2), of ds] r'
    by (simp add: trim_end_def strip_all.simps [of _ "CHR '' '' # _"] strip_any_space_rev)
  ultimately show ?thesis by (simp add: trim_def)
qed

lemma name_part_no_dot: "name_part p \<Longrightarrow> CHR ''.'' \<notin> set p"
  by (auto simp: name_part_def list_all_iff partition_byte_def char_class)

lemma split_on_name_parts:
  "ws \<noteq> [] \<Longrightarrow> list_all name_part ws \<Longrightarrow> split_on (CHR ''.'') (join_with ''.'' ws) = ws"
  by (rule split_on_join) (auto simp: list_all_iff dest: name_part_no_dot)

lemma name_parts_nonempty: "list_all name_part ws \<Longrightarrow> \<not> list_ex (\<lambda>p. p = []) ws"
  by (induction ws) (auto simp: name_part_def)

lemma reference_show:
  assumes "wf_segment s" and "\<not> is_literal s"
  shows "reference (show_reference s) = Inr s"
proof (cases s)
  case (Run f)
  then show ?thesis by (cases f) (simp_all add: show_reference_def reference_def)
next
  case (Upstream node path)
  then have "list_all name_part (node # path)" using assms by simp
  then have "split_on (CHR ''.'') (join_with ''.'' (node # path)) = node # path"
    and "\<not> list_ex (\<lambda>p. p = []) (node # path)"
    by (auto intro: split_on_name_parts dest: name_parts_nonempty simp: name_part_def)
  then show ?thesis using Upstream by (simp add: show_reference_def reference_def)
next
  case (Env name)
  then show ?thesis using assms by (simp add: show_reference_def reference_def)
next
  case (Item path)
  show ?thesis
  proof (cases path)
    case Nil
    with Item show ?thesis by (simp add: show_reference_def reference_def)
  next
    case (Cons p ps)
    then have "list_all name_part path" "path \<noteq> []" using Item assms by auto
    then have "split_on (CHR ''.'') (join_with ''.'' path) = path"
      and "\<not> list_ex (\<lambda>p. p = []) path"
      by (auto intro: split_on_name_parts dest: name_parts_nonempty)
    then show ?thesis using Item Cons by (simp add: show_reference_def reference_def)
  qed
next
  case (Literal t)
  then show ?thesis using assms by simp
next
  case PartitionRef
  then show ?thesis by (simp add: show_reference_def reference_def)
qed

lemma ref_byte_join: "list_all name_part ws \<Longrightarrow> list_all ref_byte (join_with ''.'' ws)"
  by (induction "''.''" ws rule: join_with.induct)
     (auto simp: name_part_def list_all_iff ref_byte_def)

lemma ref_byte_literals [simp]:
  "list_all ref_byte ''partition''" "list_all ref_byte ''item''" "list_all ref_byte ''item.''"
  "list_all ref_byte ''run.id''" "list_all ref_byte ''run.summary''" "list_all ref_byte ''env.''"
  "list_all ref_byte ''upstream.''"
  by (simp_all add: ref_byte_def partition_byte_def char_class)

lemma ref_byte_env_name: "is_env_name name \<Longrightarrow> list_all ref_byte name"
  by (auto simp: is_env_name_def list_all_iff ref_byte_def partition_byte_def
      is_ascii_alphanumeric_def split: list.splits)

lemma show_reference_bytes:
  assumes "wf_segment s" and "\<not> is_literal s"
  shows "show_reference s \<noteq> [] \<and> list_all ref_byte (show_reference s)"
proof (cases s)
  case (Run f)
  then show ?thesis by (cases f) (simp_all add: show_reference_def del: list.pred_inject)
next
  case (Upstream node path)
  then have "list_all ref_byte (join_with ''.'' (node # path))"
    using assms by (intro ref_byte_join) simp
  then have "list_all ref_byte (''upstream.'' @ join_with ''.'' (node # path))"
    by (simp only: list_all_append ref_byte_literals simp_thms)
  then show ?thesis by (simp only: Upstream show_reference_def segment.case) simp
next
  case (Env name)
  then have "list_all ref_byte (''env.'' @ name)"
    using assms by (simp only: list_all_append ref_byte_literals simp_thms) (simp add: ref_byte_env_name)
  then show ?thesis by (simp only: Env show_reference_def segment.case) simp
next
  case (Item path)
  show ?thesis
  proof (cases path)
    case Nil
    then show ?thesis using Item by (simp add: show_reference_def del: list.pred_inject)
  next
    case (Cons p ps)
    then have "list_all ref_byte (join_with ''.'' (p # ps))"
      using Item assms by (intro ref_byte_join) simp
    then have "list_all ref_byte (''item.'' @ join_with ''.'' (p # ps))"
      by (simp only: list_all_append ref_byte_literals simp_thms)
    then show ?thesis by (simp only: Item Cons show_reference_def segment.case list.case) simp
  qed
next
  case (Literal t)
  then show ?thesis using assms by simp
next
  case PartitionRef
  then show ?thesis by (simp add: show_reference_def del: list.pred_inject)
qed

subsection \<open>The parser inverts the printer\<close>

lemma ref_byte_no_brace: "list_all ref_byte r \<Longrightarrow> CHR ''}'' \<notin> set ('' '' @ r @ '' '')"
  by (auto simp: list_all_iff ref_byte_def partition_byte_def char_class)

lemma find_sub_close: "CHR ''}'' \<notin> set t \<Longrightarrow> find_sub ''}}'' (t @ ''}}'' @ s) = Some (length t)"
proof (rule find_sub_append)
  fix a b
  assume t: "CHR ''}'' \<notin> set t"
  show "t @ ''}}'' \<noteq> a @ ''}}'' @ b \<or> length t \<le> length a"
  proof (rule ccontr)
    assume "\<not> ?thesis"
    then have eq: "t @ ''}}'' = a @ ''}}'' @ b" and lt: "length a < length t" by auto
    then have "t ! length a = CHR ''}''" by (metis nth_append nth_append_length append_Cons)
    with lt t show False by (metis nth_mem)
  qed
qed

lemma find_sub_literal:
  assumes "find_sub ''{{'' t = None" and "t \<noteq> [] \<Longrightarrow> last t \<noteq> CHR ''{''"
  shows "find_sub ''{{'' (t @ ''{{'' @ s) = Some (length t)"
proof (rule find_sub_append)
  fix a b
  show "t @ ''{{'' \<noteq> a @ ''{{'' @ b \<or> length t \<le> length a"
  proof (rule ccontr)
    assume "\<not> ?thesis"
    then have eq: "t @ ''{{'' = a @ ''{{'' @ b" and lt: "length a < length t" by auto
    consider "Suc (length a) < length t" | "Suc (length a) = length t" using lt by linarith
    then show False
    proof cases
      case 1
      then obtain m where m: "length t = length a + (2 + m)"
        by (metis Suc_leI add_2_eq_Suc add_Suc_right group_cancel.add1 le_Suc_ex)
      have "t = take (length t) (t @ ''{{'')" by simp
      also have "\<dots> = take (length a + (2 + m)) (a @ ''{{'' @ b)" by (simp only: eq m)
      also have "\<dots> = a @ ''{{'' @ take m b" by simp
      finally have "t = a @ ''{{'' @ take m b" .
      with assms(1) show False by (simp only: find_sub_None) blast
    next
      case 2
      then have "t = a @ [t ! length a]"
        using eq lt by (metis append_eq_append_conv_if append_eq_conv_conj le_refl length_append_singleton
            take_Suc_conv_app_nth take_all_iff append_take_drop_id less_imp_le_nat)
      moreover have "t ! length a = CHR ''{''"
        using eq lt by (metis nth_append nth_append_length append_Cons)
      ultimately have "last t = CHR ''{''" and "t \<noteq> []" by (metis last_snoc, metis append_is_Nil_conv not_Cons_self2)
      with assms(2) show False by simp
    qed
  qed
qed

text \<open>One turn of the loop: an optional literal and the reference after it.\<close>

lemma parse_loop_ref:
  assumes "find_sub ''{{'' t = None" and "t \<noteq> [] \<Longrightarrow> last t \<noteq> CHR ''{''"
    and "wf_segment r" and "\<not> is_literal r"
  shows "parse_loop segs (t @ show_segment r @ rest) off
    = parse_loop ((if 0 < length t then segs @ [Literal t] else segs) @ [r]) rest (off + length (t @ show_segment r))"
proof -
  let ?body = "'' '' @ show_reference r @ '' ''"
  have seg: "show_segment r = ''{{'' @ ?body @ ''}}''"
    using assms(4) by (cases r) simp_all
  have bytes: "show_reference r \<noteq> []" "list_all ref_byte (show_reference r)"
    using show_reference_bytes [OF assms(3,4)] by simp_all
  have "find_sub ''{{'' (t @ ''{{'' @ (?body @ ''}}'' @ rest)) = Some (length t)"
    using assms(1,2) by (rule find_sub_literal)
  then have opn: "find_sub ''{{'' (t @ show_segment r @ rest) = Some (length t)"
    by (simp add: seg)
  have after: "drop (length t + 2) (t @ show_segment r @ rest) = ?body @ ''}}'' @ rest"
    by (simp add: seg)
  have lit: "take (length t) (t @ show_segment r @ rest) = t" by simp
  have cls: "find_sub ''}}'' (?body @ ''}}'' @ rest) = Some (length ?body)"
    by (rule find_sub_close) (rule ref_byte_no_brace [OF bytes(2)])
  have body: "take (length ?body) (?body @ ''}}'' @ rest) = ?body" by simp
  have ref: "reference (trim ?body) = Inr r"
    using trim_reference [OF bytes] reference_show [OF assms(3,4)] by simp
  have len: "length t + 2 + length ?body + 2 = length (t @ show_segment r)" by (simp add: seg)
  have left: "drop (length (t @ show_segment r)) (t @ show_segment r @ rest) = rest" by simp
  show ?thesis
    by (subst parse_loop.simps)
       (simp only: opn option.case Let_def after lit cls body ref sum.case len left)
qed

lemma canonical_Cons: "canonical (s # ss) \<Longrightarrow> wf_segment s \<and> canonical ss"
  by (cases ss; cases s) auto

lemma canonical_Literal:
  "canonical (Literal t # s # ss) \<Longrightarrow>
     find_sub ''{{'' t = None \<and> last t \<noteq> CHR ''{'' \<and> t \<noteq> [] \<and> wf_segment s \<and> \<not> is_literal s \<and> canonical ss"
  using canonical_Cons [of s ss] by simp

lemma parse_loop_end: "find_sub ''{{'' t = None \<Longrightarrow> parse_loop segs t off = Inr (if t \<noteq> [] then segs @ [Literal t] else segs)"
  by (subst parse_loop.simps) simp

lemma parse_loop_show:
  "canonical ss \<Longrightarrow> parse_loop segs (show_template ss) off = Inr (segs @ ss)"
proof (induction ss arbitrary: segs off rule: length_induct)
  case (1 ss)
  note IH = 1(1) [rule_format] and can = 1(2)
  show ?case
  proof (cases ss)
    case Nil
    then show ?thesis by (simp add: show_template_def parse_loop_end)
  next
    case (Cons s rest)
    show ?thesis
    proof (cases "is_literal s")
      case False
      have "wf_segment s" "canonical rest" using canonical_Cons can Cons by auto
      then show ?thesis
        using parse_loop_ref [of "[]" s segs "show_template rest" off] False IH [of rest] Cons
        by (simp add: show_template_def)
    next
      case True
      then obtain t where t: "s = Literal t" by (cases s) auto
      show ?thesis
      proof (cases rest)
        case Nil
        then have "t \<noteq> []" "find_sub ''{{'' t = None" using can Cons t by auto
        then show ?thesis using Nil Cons t by (simp add: show_template_def parse_loop_end)
      next
        case (Cons r rest')
        have lit: "find_sub ''{{'' t = None" "last t \<noteq> CHR ''{''" "t \<noteq> []"
            "wf_segment r" "\<not> is_literal r" "canonical rest'"
          using canonical_Literal [of t r rest'] can t \<open>ss = s # rest\<close> Cons by auto
        then show ?thesis
          using parse_loop_ref [of t r segs "show_template rest'" off] IH [of rest'] t Cons \<open>ss = s # rest\<close>
          by (simp add: show_template_def)
      qed
    qed
  qed
qed

subsection \<open>The offset of an unclosed reference\<close>

lemma parse_loop_unclosed:
  assumes "parse_loop segs rest off = Inl (Unclosed k)" and "drop off source = rest"
  shows "\<exists>t. drop k source = ''{{'' @ t \<and> find_sub ''}}'' t = None"
  using assms
proof (induction segs rest off rule: parse_loop.induct)
  case (1 segs rest off)
  obtain opn where opn: "find_sub ''{{'' rest = Some opn"
    using 1(2) by (cases "find_sub ''{{'' rest") (simp_all add: parse_loop.simps [of segs rest off])
  have at: "drop opn rest = ''{{'' @ drop (opn + 2) rest"
    using arg_cong [OF find_sub_Some [OF opn], of "drop opn"] find_sub_bound [OF opn] by simp
  show ?case
  proof (cases "find_sub ''}}'' (drop (opn + 2) rest)")
    case None
    then have "k = off + opn"
      using 1(2) opn by (simp add: parse_loop.simps [of segs rest off] Let_def)
    moreover have "drop (off + opn) source = drop opn rest"
      by (simp add: add.commute 1(3) [symmetric])
    ultimately show ?thesis using at None by simp
  next
    case (Some cls)
    obtain seg where seg: "reference (trim (take cls (drop (opn + 2) rest))) = Inr seg"
      using 1(2) opn Some
      by (cases "reference (trim (take cls (drop (opn + 2) rest)))")
         (auto simp: parse_loop.simps [of segs rest off] Let_def reference_def split: if_splits option.splits list.splits)
    have "drop (off + (opn + 2 + cls + 2)) source = drop (opn + 2 + cls + 2) rest"
      by (simp add: add.commute 1(3) [symmetric])
    then show ?thesis
      using 1(1) [OF opn refl refl Some seg refl] 1(2) opn Some seg
      by (simp add: parse_loop.simps [of segs rest off] Let_def)
  qed
qed

end
