(* ===== verification/Graph.thy ===== *)
theory Graph
  imports Partition Template
begin

section \<open>The graph model (\<open>graph.rs\<close>): data and accessors\<close>

text \<open>
  The specification a front-end passes to \<open>Graph::build\<close>, the built graph with its nodes, and
  the faults of a specification. A cron expression is the \<open>taquba_cron\<close> crate's and a type
  parameter \<open>'x\<close>, with its operations in the record \<^term>\<open>cron\<close>. A catch-up window is its count of seconds.
\<close>

datatype trigger_rule = AllSucceeded | AllDone | OneFailed

datatype node_kind =
    AssetNode (nk_produces: string) (nk_consumes: "string list")
  | TaskNode (nk_after: "string list") (nk_trigger_rule: trigger_rule)

record node_spec =
  ns_name :: string
  ns_kind :: node_kind
  ns_operator :: string
  ns_pool :: string
  ns_retries :: u32
  ns_params :: toml_table
  ns_each :: "string option"

record graph_spec =
  gs_name :: string
  gs_schedule :: "string option"
  gs_catchup :: "nat option"
  gs_partitioning :: partitioning
  gs_nodes :: "node_spec list"

record node =
  nd_spec :: node_spec
  nd_upstreams :: "string list"
  nd_downstreams :: "string list"

record 'x graph =
  gr_name :: string
  gr_schedule :: "'x option"
  gr_catchup :: "nat option"
  gr_partitioning :: partitioning
  gr_nodes :: "node list"
  gr_index :: "(string, nat) btree"

datatype problem =
    InvalidGraphName string
  | InvalidSchedule string string
  | ScheduleWithoutPartition
  | ScheduleWithinPartition string partitioning
  | InvalidCatchup string
  | NoNodes
  | AssetNodeAfter string
  | AssetNodeTriggerRule string
  | TaskNodeConsumes string
  | DuplicateNode string
  | InvalidNodeName string
  | NamesTooLong string
  | InvalidAssetName string string
  | DuplicateAsset string "string list"
  | UnknownAsset string string
  | UnknownNode string string
  | UnknownOperator string string
  | InvalidParams string string string
  | InvalidTemplate string string template_error
  | UnknownTemplateUpstream string string string
  | ItemWithoutEach string string
  | InvalidEach string template_error
  | EachRefersToItem string
  | UnknownEachUpstream string string
  | Cycle "string list"

text \<open>The errors of a cron parse: the message of an invalid expression, or another error's text.\<close>

datatype cron_error = InvalidExpression string | OtherCronError string

record 'x cron =
  cron_parse :: "string \<Rightarrow> cron_error + 'x"
  cron_next_after :: "'x \<Rightarrow> nat \<Rightarrow> nat option"
  cron_previous_before :: "'x \<Rightarrow> nat \<Rightarrow> nat option"

subsection \<open>Names\<close>

definition name_byte :: "char \<Rightarrow> bool" where
  "name_byte b \<longleftrightarrow> is_ascii_lowercase b \<or> is_ascii_digit b \<or> b = CHR ''_''"

definition is_name :: "string \<Rightarrow> bool" where
  "is_name t \<longleftrightarrow> t \<noteq> [] \<and> list_all name_byte t"

definition max_graph_and_node_name_len :: nat where
  "max_graph_and_node_name_len = 98"

subsection \<open>Accessors of a node\<close>

definition node_name :: "node \<Rightarrow> string" where
  "node_name n = ns_name (nd_spec n)"

definition node_asset :: "node \<Rightarrow> string option" where
  "node_asset n = (case ns_kind (nd_spec n) of AssetNode produces consumes \<Rightarrow> Some produces | TaskNode after rule \<Rightarrow> None)"

definition node_trigger_rule :: "node \<Rightarrow> trigger_rule" where
  "node_trigger_rule n = (case ns_kind (nd_spec n) of AssetNode produces consumes \<Rightarrow> AllSucceeded | TaskNode after rule \<Rightarrow> rule)"

definition node_operator :: "node \<Rightarrow> string" where
  "node_operator n = ns_operator (nd_spec n)"

definition node_pool :: "node \<Rightarrow> string" where
  "node_pool n = ns_pool (nd_spec n)"

definition node_retries :: "node \<Rightarrow> u32" where
  "node_retries n = ns_retries (nd_spec n)"

definition node_params :: "node \<Rightarrow> toml_table" where
  "node_params n = ns_params (nd_spec n)"

definition node_each :: "node \<Rightarrow> string option" where
  "node_each n = ns_each (nd_spec n)"

subsection \<open>Accessors of a graph\<close>

text \<open>\<open>Graph::node\<close>: the node at the index of the name.\<close>

definition graph_node :: "'x graph \<Rightarrow> string \<Rightarrow> node option" where
  "graph_node g name = map_option (\<lambda>i. gr_nodes g ! i) (bt_get (gr_index g) name)"

definition graph_roots :: "'x graph \<Rightarrow> node list" where
  "graph_roots g = filter (\<lambda>n. nd_upstreams n = []) (gr_nodes g)"

definition graph_leaves :: "'x graph \<Rightarrow> node list" where
  "graph_leaves g = filter (\<lambda>n. nd_downstreams n = []) (gr_nodes g)"

definition graph_edge_count :: "'x graph \<Rightarrow> nat" where
  "graph_edge_count g = sum_list (map (\<lambda>n. length (nd_upstreams n)) (gr_nodes g))"

definition conflicting_asset :: "'x graph \<Rightarrow> 'x graph \<Rightarrow> node option" where
  "conflicting_asset g other =
     find (\<lambda>n. node_asset n \<noteq> None \<and> list_ex (\<lambda>m. node_asset m = node_asset n) (gr_nodes other)) (gr_nodes g)"

definition graph_names :: "'x graph \<Rightarrow> string list" where
  "graph_names g = map node_name (gr_nodes g)"

subsection \<open>Well-formed graphs\<close>

text \<open>
  What \<open>Graph::build\<close> promises of a graph and every other component relies on. The upstream
  relation is acyclic, and the upstream and downstream lists are ordered, name nodes of the
  graph and are converse to each other.
\<close>

definition upstream_rel :: "'x graph \<Rightarrow> (string \<times> string) set" where
  "upstream_rel g = {(node_name n, u) | n u. n \<in> set (gr_nodes g) \<and> u \<in> set (nd_upstreams n)}"

definition wf_graph :: "'x graph \<Rightarrow> bool" where
  "wf_graph g \<longleftrightarrow>
     distinct (graph_names g) \<and>
     (\<forall>name. bt_get (gr_index g) name =
        map_of (map (\<lambda>i. (graph_names g ! i, i)) [0..<length (gr_nodes g)]) name) \<and>
     (\<forall>n \<in> set (gr_nodes g). sorted_wrt (<) (nd_upstreams n) \<and> sorted_wrt (<) (nd_downstreams n)) \<and>
     (\<forall>n \<in> set (gr_nodes g). set (nd_upstreams n) \<subseteq> set (graph_names g)) \<and>
     (\<forall>n \<in> set (gr_nodes g). set (nd_downstreams n) =
        {node_name m | m. m \<in> set (gr_nodes g) \<and> node_name n \<in> set (nd_upstreams m)}) \<and>
     acyclic (upstream_rel g)"

lemma wf_graph_distinct [simp]: "wf_graph g \<Longrightarrow> distinct (graph_names g)"
  by (simp add: wf_graph_def)

lemma wf_graph_acyclic: "wf_graph g \<Longrightarrow> acyclic (upstream_rel g)"
  by (simp add: wf_graph_def)

lemma finite_upstream_rel [simp]: "finite (upstream_rel g)"
proof -
  have "upstream_rel g = (\<Union>n \<in> set (gr_nodes g). (\<lambda>u. (node_name n, u)) ` set (nd_upstreams n))"
    by (auto simp: upstream_rel_def)
  then show ?thesis by simp
qed

lemma wf_graph_upstream: "wf_graph g \<Longrightarrow> n \<in> set (gr_nodes g) \<Longrightarrow> u \<in> set (nd_upstreams n) \<Longrightarrow> u \<in> set (graph_names g)"
  by (auto simp: wf_graph_def)

lemma wf_graph_downstream:
  "wf_graph g \<Longrightarrow> n \<in> set (gr_nodes g) \<Longrightarrow>
     d \<in> set (nd_downstreams n) \<longleftrightarrow> (\<exists>m \<in> set (gr_nodes g). d = node_name m \<and> node_name n \<in> set (nd_upstreams m))"
  by (auto simp: wf_graph_def)

lemma map_of_positions:
  "distinct xs \<Longrightarrow> map_of (map (\<lambda>i. (xs ! i, i)) [0..<length xs]) x = Some i \<longleftrightarrow> i < length xs \<and> xs ! i = x"
  by (subst map_of_eq_Some_iff) (auto simp: distinct_map inj_on_def nth_eq_iff_index_eq comp_def)

text \<open>A lookup by name finds exactly the node of that name.\<close>

lemma graph_node_iff:
  assumes "wf_graph g"
  shows "graph_node g name = Some n \<longleftrightarrow> n \<in> set (gr_nodes g) \<and> node_name n = name"
proof -
  have len: "length (graph_names g) = length (gr_nodes g)" by (simp add: graph_names_def)
  have idx: "bt_get (gr_index g) name = Some i \<longleftrightarrow> i < length (gr_nodes g) \<and> graph_names g ! i = name" for i
    using assms map_of_positions [of "graph_names g" name i] by (simp add: wf_graph_def len)
  have "graph_node g name = Some n \<longleftrightarrow> (\<exists>i < length (gr_nodes g). graph_names g ! i = name \<and> gr_nodes g ! i = n)"
    by (auto simp: graph_node_def idx)
  also have "\<dots> \<longleftrightarrow> n \<in> set (gr_nodes g) \<and> node_name n = name"
    by (auto simp: graph_names_def in_set_conv_nth)
  finally show ?thesis .
qed

lemma graph_node_name [simp]:
  "wf_graph g \<Longrightarrow> n \<in> set (gr_nodes g) \<Longrightarrow> graph_node g (node_name n) = Some n"
  by (simp add: graph_node_iff)

lemma graph_node_unique:
  "wf_graph g \<Longrightarrow> n \<in> set (gr_nodes g) \<Longrightarrow> m \<in> set (gr_nodes g) \<Longrightarrow> node_name n = node_name m \<Longrightarrow> n = m"
  by (metis graph_node_name option.inject)

lemma graph_node_None: "wf_graph g \<Longrightarrow> graph_node g name = None \<longleftrightarrow> name \<notin> set (graph_names g)"
  by (cases "graph_node g name") (auto simp: graph_names_def graph_node_iff)

text \<open>Induction along the upstream edges: a fact holds of a node when it holds of its upstreams.\<close>

lemma graph_induct [consumes 2, case_names node]:
  assumes "wf_graph g" and "n \<in> set (gr_nodes g)"
    and step: "\<And>n. n \<in> set (gr_nodes g) \<Longrightarrow>
      (\<And>m. m \<in> set (gr_nodes g) \<Longrightarrow> node_name m \<in> set (nd_upstreams n) \<Longrightarrow> P m) \<Longrightarrow> P n"
  shows "P n"
proof -
  have "wf ((upstream_rel g)\<inverse>)"
    using assms(1) by (intro finite_acyclic_wf) (auto dest: wf_graph_acyclic)
  then have "\<forall>n \<in> set (gr_nodes g). node_name n = x \<longrightarrow> P n" for x
  proof (induction x rule: wf_induct_rule)
    case (less x)
    show ?case
    proof (intro ballI impI)
      fix n
      assume n: "n \<in> set (gr_nodes g)" "node_name n = x"
      show "P n"
      proof (rule step [OF n(1)])
        fix m
        assume m: "m \<in> set (gr_nodes g)" "node_name m \<in> set (nd_upstreams n)"
        then have "(node_name m, x) \<in> (upstream_rel g)\<inverse>" using n by (auto simp: upstream_rel_def)
        from less.IH [OF this] m(1) show "P m" by simp
      qed
    qed
  qed
  with assms(2) show ?thesis by blast
qed

lemma conflicting_asset_iff:
  "conflicting_asset g other = None \<longleftrightarrow>
     (\<forall>n \<in> set (gr_nodes g). \<forall>m \<in> set (gr_nodes other). node_asset n = None \<or> node_asset m \<noteq> node_asset n)"
  by (auto simp: conflicting_asset_def find_None_iff list_ex_iff)

end
