(* ===== verification/Graph_Cycle.thy ===== *)
theory Graph_Cycle
  imports Graph
begin

section \<open>The cycle search (\<open>graph.rs\<close>, \<open>find_cycle\<close>)\<close>

text \<open>
  The depth-first search over the upstream edges. \<open>visit\<close> marks a node active, pushes it on the
  path, visits its unvisited upstreams and marks it done. An active upstream closes a cycle,
  which is the path from that upstream on. \<open>None\<close> stands for a panic: a name outside the index
  or an active node outside the path.

  The search terminates because every visit of an unvisited node shrinks the set of unvisited
  nodes. It never panics on the input \<open>Graph::build\<close> gives it, it returns no cycle exactly when
  the edges are acyclic, and the cycle it returns is a path of edges.
\<close>

datatype mark = Unvisited | Active | Done

fun position :: "'a \<Rightarrow> 'a list \<Rightarrow> nat option" where
  "position x [] = None"
| "position x (y # ys) = (if x = y then Some 0 else map_option Suc (position x ys))"

type_synonym visit_result = "(string list option \<times> mark list \<times> nat list) option"

text \<open>
  The loop over the upstreams of the node at the end of the path. The body of the recursive
  visit of an unvisited upstream is in place.
\<close>

function visit_ups ::
  "node_spec list \<Rightarrow> string list list \<Rightarrow> (string, nat) btree \<Rightarrow> string list \<Rightarrow> mark list \<Rightarrow> nat list \<Rightarrow> visit_result"
where
  "visit_ups nodes upstreams index [] marks path = Some (None, marks, path)"
| "visit_ups nodes upstreams index (up # ups) marks path =
     (case bt_get index up of
       None \<Rightarrow> None
     | Some j \<Rightarrow>
         if length marks \<le> j \<or> length upstreams \<le> j then None
         else (case marks ! j of
           Active \<Rightarrow>
             (case position j path of
               None \<Rightarrow> None
             | Some start \<Rightarrow>
                 Some (Some (map (\<lambda>p. ns_name (nodes ! p)) (drop start path) @ [ns_name (nodes ! j)]), marks, path))
         | Unvisited \<Rightarrow>
             (case visit_ups nodes upstreams index (upstreams ! j) (marks[j := Active]) (path @ [j]) of
               None \<Rightarrow> None
             | Some (Some cycle, marks', path') \<Rightarrow> Some (Some cycle, marks', path')
             | Some (None, marks', path') \<Rightarrow>
                 visit_ups nodes upstreams index ups (marks'[j := Done]) (butlast path'))
         | Done \<Rightarrow> visit_ups nodes upstreams index ups marks path))"
  by pat_completeness auto

definition unvisited :: "mark list \<Rightarrow> nat set" where
  "unvisited marks = {i. i < length marks \<and> marks ! i = Unvisited}"

lemma finite_unvisited [simp]: "finite (unvisited marks)"
  by (simp add: unvisited_def)

lemma unvisited_update:
  "m \<noteq> Unvisited \<Longrightarrow> unvisited (marks[j := m]) = unvisited marks - {j}"
  by (cases "j < length marks") (auto simp: unvisited_def nth_list_update split: if_splits)

lemma card_unvisited_mono: "unvisited m1 \<subseteq> unvisited m2 \<Longrightarrow> card (unvisited m1) \<le> card (unvisited m2)"
  by (simp add: card_mono)

lemma card_unvisited_visit:
  "j < length marks \<Longrightarrow> marks ! j = Unvisited \<Longrightarrow> card (unvisited (marks[j := Active])) < card (unvisited marks)"
proof -
  assume "j < length marks" "marks ! j = Unvisited"
  then have "j \<in> unvisited marks" by (simp add: unvisited_def)
  then have "card (unvisited marks - {j}) < card (unvisited marks)" by (intro card_Diff1_less finite_unvisited)
  then show ?thesis by (simp only: unvisited_update [of Active] mark.distinct not_False_eq_True)
qed

lemma visit_ups_shrinks:
  "visit_ups_dom (nodes, upstreams, index, ups, marks, path) \<Longrightarrow>
     visit_ups nodes upstreams index ups marks path = Some (r, marks', path') \<Longrightarrow>
     unvisited marks' \<subseteq> unvisited marks"
proof (induction nodes upstreams index ups marks path arbitrary: r marks' path' rule: visit_ups.pinduct)
  case (1 nodes upstreams index marks path)
  then show ?case by (simp add: visit_ups.psimps)
next
  case (2 nodes upstreams index up ups marks path)
  note eq = "2.prems" [unfolded visit_ups.psimps(2) [OF "2.hyps"]]
  obtain j where j: "bt_get index up = Some j"
    using eq by (cases "bt_get index up") auto
  have bound: "\<not> (length marks \<le> j \<or> length upstreams \<le> j)"
    using eq j by (auto split: if_splits)
  show ?case
  proof (cases "marks ! j")
    case Unvisited
    obtain r1 m1 p1 where rec: "visit_ups nodes upstreams index (upstreams ! j) (marks[j := Active]) (path @ [j]) = Some (r1, m1, p1)"
      using eq j bound Unvisited
      by (cases "visit_ups nodes upstreams index (upstreams ! j) (marks[j := Active]) (path @ [j])") auto
    have sub: "unvisited m1 \<subseteq> unvisited marks"
      using "2.IH"(1) [OF j bound Unvisited rec] by (auto simp: unvisited_update)
    show ?thesis
    proof (cases r1)
      case None
      with eq j bound Unvisited rec
      have rest: "visit_ups nodes upstreams index ups (m1[j := Done]) (butlast p1) = Some (r, marks', path')"
        by simp
      have "unvisited marks' \<subseteq> unvisited (m1[j := Done])"
        by (rule "2.IH"(2) [OF j bound Unvisited rec [unfolded None] refl refl refl rest])
      then show ?thesis using sub by (auto simp: unvisited_update)
    next
      case (Some cycle)
      with eq j bound Unvisited rec sub show ?thesis by simp
    qed
  next
    case Active
    with eq j bound show ?thesis by (auto split: option.splits)
  next
    case Done
    with eq j bound have "visit_ups nodes upstreams index ups marks path = Some (r, marks', path')" by simp
    then show ?thesis by (rule "2.IH"(3) [OF j bound Done])
  qed
qed

termination visit_ups
proof (relation "measures [\<lambda>(nodes, upstreams, index, ups, marks, path). card (unvisited marks),
    \<lambda>(nodes, upstreams, index, ups, marks, path). length ups]", goal_cases)
  case 1
  show ?case by simp
next
  case (2 nodes upstreams index up ups marks path j)
  then show ?case using card_unvisited_visit [of j marks] by simp
next
  case (3 nodes upstreams index up ups marks path j r a q marks' path')
  have "unvisited marks' \<subseteq> unvisited (marks[j := Active])" by (rule visit_ups_shrinks) (use 3 in auto)
  then have "unvisited (marks'[j := Done]) \<subseteq> unvisited marks" by (auto simp: unvisited_update)
  then have "card (unvisited (marks'[j := Done])) \<le> card (unvisited marks)" by (rule card_unvisited_mono)
  then show ?case by auto
next
  case (4 nodes upstreams index up ups marks path j)
  then show ?case by simp
qed

text \<open>The visit of a node, and the loop that starts a visit at every node still unvisited.\<close>

definition visit ::
  "node_spec list \<Rightarrow> string list list \<Rightarrow> (string, nat) btree \<Rightarrow> nat \<Rightarrow> mark list \<Rightarrow> nat list \<Rightarrow> visit_result"
where
  "visit nodes upstreams index i marks path =
     (case visit_ups nodes upstreams index (upstreams ! i) (marks[i := Active]) (path @ [i]) of
       None \<Rightarrow> None
     | Some (Some cycle, marks', path') \<Rightarrow> Some (Some cycle, marks', path')
     | Some (None, marks', path') \<Rightarrow> Some (None, marks'[i := Done], butlast path'))"

fun find_loop ::
  "node_spec list \<Rightarrow> string list list \<Rightarrow> (string, nat) btree \<Rightarrow> nat list \<Rightarrow> mark list \<Rightarrow> nat list
     \<Rightarrow> string list option option"
where
  "find_loop nodes upstreams index [] marks path = Some None"
| "find_loop nodes upstreams index (i # is) marks path =
     (if marks ! i = Unvisited
      then (case visit nodes upstreams index i marks path of
          None \<Rightarrow> None
        | Some (Some cycle, marks', path') \<Rightarrow> Some (Some cycle)
        | Some (None, marks', path') \<Rightarrow> find_loop nodes upstreams index is marks' path')
      else find_loop nodes upstreams index is marks path)"

definition find_cycle ::
  "node_spec list \<Rightarrow> string list list \<Rightarrow> (string, nat) btree \<Rightarrow> string list option option"
where
  "find_cycle nodes upstreams index =
     find_loop nodes upstreams index [0..<length nodes] (replicate (length nodes) Unvisited) []"

subsection \<open>The invariant of the search\<close>

definition edge :: "string list list \<Rightarrow> (string, nat) btree \<Rightarrow> (nat \<times> nat) set" where
  "edge upstreams index =
     {(i, j). i < length upstreams \<and> (\<exists>u \<in> set (upstreams ! i). bt_get index u = Some j)}"

text \<open>What \<open>Graph::build\<close> has established when it searches: every upstream is in the index.\<close>

definition search_input :: "node_spec list \<Rightarrow> string list list \<Rightarrow> (string, nat) btree \<Rightarrow> bool" where
  "search_input nodes upstreams index \<longleftrightarrow>
     length upstreams = length nodes \<and>
     (\<forall>us \<in> set upstreams. \<forall>u \<in> set us. \<exists>j < length nodes. bt_get index u = Some j)"

definition search_inv :: "(nat \<times> nat) set \<Rightarrow> nat \<Rightarrow> mark list \<Rightarrow> nat list \<Rightarrow> bool" where
  "search_inv E n marks path \<longleftrightarrow>
     length marks = n \<and> distinct path \<and>
     set path = {i. i < n \<and> marks ! i = Active} \<and>
     successively (\<lambda>i j. (i, j) \<in> E) path \<and>
     (\<forall>i j. i < n \<longrightarrow> (i, j) \<in> E \<longrightarrow> marks ! i = Done \<longrightarrow> marks ! j = Done) \<and>
     (\<forall>i < n. marks ! i = Done \<longrightarrow> (i, i) \<notin> E\<^sup>+)"

definition cycle_path :: "(nat \<times> nat) set \<Rightarrow> nat list \<Rightarrow> bool" where
  "cycle_path E ps \<longleftrightarrow> 2 \<le> length ps \<and> hd ps = last ps \<and> successively (\<lambda>i j. (i, j) \<in> E) ps"

lemma position_mem: "x \<in> set ys \<Longrightarrow> \<exists>k. position x ys = Some k"
  by (induction ys) auto

lemma position_nth: "position x ys = Some k \<Longrightarrow> k < length ys \<and> ys ! k = x"
  by (induction ys arbitrary: k) (auto split: if_splits)

lemma edge_bound:
  "search_input nodes upstreams index \<Longrightarrow> (i, j) \<in> edge upstreams index \<Longrightarrow> i < length nodes \<and> j < length nodes"
  unfolding search_input_def edge_def by (fastforce dest: nth_mem)

lemma successively_drop: "successively P xs \<Longrightarrow> successively P (drop k xs)"
  by (metis append_take_drop_id successively_append_iff)

lemma cycle_path_trancl:
  assumes "cycle_path E ps"
  shows "\<exists>i. (i, i) \<in> E\<^sup>+"
proof -
  have path: "successively (\<lambda>i j. (i, j) \<in> E) (x # ys) \<Longrightarrow> ys \<noteq> [] \<Longrightarrow> (x, last ys) \<in> E\<^sup>+" for x ys
  proof (induction ys arbitrary: x)
    case (Cons y ys)
    then show ?case by (cases "ys = []") (auto intro: trancl_into_trancl2)
  qed simp
  obtain x ys where ps: "ps = x # ys"
    using assms by (cases ps) (auto simp: cycle_path_def)
  with assms have "ys \<noteq> []" by (auto simp: cycle_path_def)
  with ps assms path [of x ys] show ?thesis by (auto simp: cycle_path_def)
qed

lemma search_inv_enter:
  assumes inv: "search_inv E n marks path" and j: "j < n" "marks ! j = Unvisited"
    and last: "path \<noteq> [] \<Longrightarrow> (last path, j) \<in> E"
  shows "search_inv E n (marks[j := Active]) (path @ [j])"
  using assms
  by (auto simp: search_inv_def nth_list_update successively_append_iff)

lemma search_inv_leave:
  assumes inv: "search_inv E n marks (path @ [j])" and j: "j < n"
    and succ: "\<And>k. (j, k) \<in> E \<Longrightarrow> marks ! k = Done"
    and bound: "\<And>i k. (i, k) \<in> E \<Longrightarrow> i < n \<and> k < n"
  shows "search_inv E n (marks[j := Done]) path"
proof -
  have act: "marks ! j = Active" and len: "length marks = n"
    using inv by (auto simp: search_inv_def)
  have reach: "marks ! i = Done \<Longrightarrow> (i, k) \<in> E\<^sup>* \<Longrightarrow> marks ! k = Done" for i k
  proof (rotate_tac, induction rule: rtrancl_induct)
    case (step y z)
    then show ?case using inv bound [of y z] unfolding search_inv_def by blast
  qed
  have "(j, j) \<notin> E\<^sup>+"
  proof
    assume "(j, j) \<in> E\<^sup>+"
    then obtain k where "(j, k) \<in> E" "(k, j) \<in> E\<^sup>*" by (meson tranclD)
    with succ reach have "marks ! j = Done" by blast
    with act show False by simp
  qed
  moreover have "set path = {i. i < n \<and> (marks[j := Done]) ! i = Active}"
    using inv j by (auto simp: search_inv_def nth_list_update split: if_splits)
  ultimately show ?thesis
    using inv succ bound j
    by (auto simp: search_inv_def nth_list_update successively_append_iff split: if_splits)
qed

subsection \<open>The search is correct\<close>

definition visit_ok ::
  "node_spec list \<Rightarrow> (nat \<times> nat) set \<Rightarrow> (nat \<Rightarrow> bool) \<Rightarrow> mark list \<Rightarrow> nat list \<Rightarrow> visit_result \<Rightarrow> bool"
where
  "visit_ok nodes E wanted marks path res \<longleftrightarrow>
     (\<exists>r marks' path'. res = Some (r, marks', path') \<and>
       (case r of
         Some cycle \<Rightarrow> \<exists>ps. cycle = map (\<lambda>p. ns_name (nodes ! p)) ps \<and> cycle_path E ps
       | None \<Rightarrow> path' = path \<and> search_inv E (length nodes) marks' path \<and>
           (\<forall>j < length nodes. wanted j \<or> marks ! j = Done \<longrightarrow> marks' ! j = Done)))"

lemma visit_okE:
  assumes "visit_ok nodes E wanted marks path res"
  obtains (found) ps marks' path' where
      "res = Some (Some (map (\<lambda>p. ns_name (nodes ! p)) ps), marks', path')" "cycle_path E ps"
    | (clear) marks' where "res = Some (None, marks', path)"
      "search_inv E (length nodes) marks' path"
      "\<And>j. j < length nodes \<Longrightarrow> wanted j \<or> marks ! j = Done \<Longrightarrow> marks' ! j = Done"
proof -
  obtain r marks' path' where res: "res = Some (r, marks', path')"
    using assms by (auto simp: visit_ok_def)
  show thesis
  proof (cases r)
    case None
    show thesis by (rule clear [of marks']) (use assms res None in \<open>auto simp: visit_ok_def\<close>)
  next
    case (Some cycle)
    with assms res found show thesis by (auto simp: visit_ok_def)
  qed
qed

lemma visit_ok_found:
  "cycle_path E ps \<Longrightarrow> visit_ok nodes E w marks path (Some (Some (map (\<lambda>p. ns_name (nodes ! p)) ps), m, p))"
  by (auto simp: visit_ok_def)

lemma visit_ok_clear:
  "search_inv E (length nodes) m path \<Longrightarrow>
     (\<And>j. j < length nodes \<Longrightarrow> w j \<or> marks ! j = Done \<Longrightarrow> m ! j = Done) \<Longrightarrow>
     visit_ok nodes E w marks path (Some (None, m, path))"
  by (simp add: visit_ok_def)

lemma visit_ok_weaken:
  assumes "visit_ok nodes E w1 m1 path res"
    and "\<And>j. j < length nodes \<Longrightarrow> w2 j \<or> m2 ! j = Done \<Longrightarrow> w1 j \<or> m1 ! j = Done"
  shows "visit_ok nodes E w2 m2 path res"
  using assms(1)
proof (cases rule: visit_okE)
  case (found ps m p)
  then show ?thesis by (simp add: visit_ok_found)
next
  case (clear m)
  show ?thesis unfolding clear(1) by (rule visit_ok_clear [OF clear(2)]) (use clear(3) assms(2) in blast)
qed

text \<open>An active upstream is on the path, and the path from it on closes a cycle.\<close>

lemma closing_cycle:
  assumes inv: "search_inv E n marks path" and j: "j < n" "marks ! j = Active"
    and last: "(last path, j) \<in> E" "path \<noteq> []"
  obtains k where "position j path = Some k" "cycle_path E (drop k path @ [j])"
proof -
  have "j \<in> set path" using inv j by (simp add: search_inv_def)
  then obtain k where k: "position j path = Some k" using position_mem by fast
  then have nth: "k < length path" "path ! k = j" using position_nth by force+
  have "successively (\<lambda>i j. (i, j) \<in> E) (drop k path)"
    using inv by (simp add: search_inv_def successively_drop)
  then have "cycle_path E (drop k path @ [j])"
    using nth last by (auto simp: cycle_path_def successively_append_iff hd_drop_conv_nth)
  with k that show ?thesis by blast
qed

lemma visit_ups_ok:
  assumes input: "search_input nodes upstreams index"
  shows "search_inv (edge upstreams index) (length nodes) marks path \<Longrightarrow> path \<noteq> [] \<Longrightarrow>
     last path < length nodes \<Longrightarrow> set ups \<subseteq> set (upstreams ! last path) \<Longrightarrow>
     visit_ok nodes (edge upstreams index) (\<lambda>j. \<exists>u \<in> set ups. bt_get index u = Some j) marks path
       (visit_ups nodes upstreams index ups marks path)"
  using input
proof (induction nodes upstreams index ups marks path rule: visit_ups.induct)
  case (1 nodes upstreams index marks path)
  then show ?case by (auto simp: visit_ok_def)
next
  case (2 nodes upstreams index up ups marks path)
  note inv = "2.prems"(1) and input = "2.prems"(5)
  let ?E = "edge upstreams index"
  have len: "length marks = length nodes" "length upstreams = length nodes"
    using inv input by (auto simp: search_inv_def search_input_def)
  have up: "up \<in> set (upstreams ! last path)" using "2.prems"(4) by simp
  then obtain j where j: "bt_get index up = Some j" "j < length nodes"
    using input "2.prems"(3) len unfolding search_input_def by (metis nth_mem)
  have last: "(last path, j) \<in> ?E" using up j "2.prems"(3) len by (auto simp: edge_def)
  have bound: "\<not> (length marks \<le> j \<or> length upstreams \<le> j)" using j len by simp
  have ups: "set ups \<subseteq> set (upstreams ! last path)" using "2.prems"(4) by simp
  have eq: "visit_ups nodes upstreams index (up # ups) marks path = 
      (case marks ! j of
           Active \<Rightarrow>
             (case position j path of
               None \<Rightarrow> None
             | Some start \<Rightarrow>
                 Some (Some (map (\<lambda>p. ns_name (nodes ! p)) (drop start path @ [j])), marks, path))
         | Unvisited \<Rightarrow>
             (case visit_ups nodes upstreams index (upstreams ! j) (marks[j := Active]) (path @ [j]) of
               None \<Rightarrow> None
             | Some (Some cycle, marks', path') \<Rightarrow> Some (Some cycle, marks', path')
             | Some (None, marks', path') \<Rightarrow>
                 visit_ups nodes upstreams index ups (marks'[j := Done]) (butlast path'))
         | Done \<Rightarrow> visit_ups nodes upstreams index ups marks path)"
    using j bound by (cases "marks ! j") (simp_all, auto split: option.splits)
  show ?case
  proof (cases "marks ! j")
    case Active
    then obtain k where k: "position j path = Some k" "cycle_path ?E (drop k path @ [j])"
      using closing_cycle [OF inv j(2) Active last "2.prems"(2)] by metis
    show ?thesis
      unfolding eq Active using visit_ok_found [OF k(2)] by (simp add: k(1))
  next
    case Done
    have "visit_ok nodes ?E (\<lambda>j. \<exists>u \<in> set ups. bt_get index u = Some j) marks path
       (visit_ups nodes upstreams index ups marks path)"
      by (rule "2.IH"(3) [OF j(1) bound Done inv "2.prems"(2,3) ups input])
    then have "visit_ok nodes ?E (\<lambda>j. \<exists>u \<in> set (up # ups). bt_get index u = Some j) marks path
       (visit_ups nodes upstreams index ups marks path)"
      by (rule visit_ok_weaken) (use j Done in auto)
    then show ?thesis unfolding eq by (simp add: Done)
  next
    case Unvisited
    have inv1: "search_inv ?E (length nodes) (marks[j := Active]) (path @ [j])"
      using inv j(2) Unvisited last by (rule search_inv_enter)
    have "visit_ok nodes ?E (\<lambda>i. \<exists>u \<in> set (upstreams ! j). bt_get index u = Some i) (marks[j := Active]) (path @ [j])
       (visit_ups nodes upstreams index (upstreams ! j) (marks[j := Active]) (path @ [j]))"
      by (rule "2.IH"(1) [OF j(1) bound Unvisited inv1 _ _ _ input]) (use j in auto)
    then show ?thesis
    proof (cases rule: visit_okE)
      case (found ps m p)
      then show ?thesis unfolding eq by (simp add: Unvisited visit_ok_found)
    next
      case (clear m)
      have succ: "m ! k = Done" if "(j, k) \<in> ?E" for k
        using that clear(3) [of k] edge_bound [OF input that] by (auto simp: edge_def)
      have inv2: "search_inv ?E (length nodes) (m[j := Done]) path"
        by (rule search_inv_leave [OF clear(2) j(2) succ edge_bound [OF input]])
      have rest: "visit_ok nodes ?E (\<lambda>j. \<exists>u \<in> set ups. bt_get index u = Some j) (m[j := Done]) path
         (visit_ups nodes upstreams index ups (m[j := Done]) path)"
        using "2.IH"(2) [OF j(1) bound Unvisited clear(1) refl refl refl _ _ _ _ input] inv2 "2.prems"(2,3) ups
        by simp
      have lm: "length m = length nodes" using clear(2) by (simp add: search_inv_def)
      have mono: "(m[j := Done]) ! i = Done" if "i < length nodes" "i = j \<or> marks ! i = Done" for i
        using that clear(3) [of i] lm len by (cases "i = j") auto
      have "visit_ok nodes ?E (\<lambda>j. \<exists>u \<in> set (up # ups). bt_get index u = Some j) marks path
         (visit_ups nodes upstreams index ups (m[j := Done]) path)"
        by (rule visit_ok_weaken [OF rest]) (use mono j in auto)
      then show ?thesis unfolding eq by (simp add: Unvisited clear(1))
    qed
  qed
qed

lemma visit_ok_visit:
  assumes input: "search_input nodes upstreams index"
    and inv: "search_inv (edge upstreams index) (length nodes) marks []"
    and i: "i < length nodes" "marks ! i = Unvisited"
  shows "visit_ok nodes (edge upstreams index) (\<lambda>j. j = i) marks []
     (visit nodes upstreams index i marks [])"
proof -
  let ?E = "edge upstreams index"
  have len: "length marks = length nodes" using inv by (simp add: search_inv_def)
  have inv1: "search_inv ?E (length nodes) (marks[i := Active]) ([] @ [i])"
    using inv i by (rule search_inv_enter) simp
  have "visit_ok nodes ?E (\<lambda>k. \<exists>u \<in> set (upstreams ! i). bt_get index u = Some k) (marks[i := Active]) [i]
     (visit_ups nodes upstreams index (upstreams ! i) (marks[i := Active]) [i])"
    by (rule visit_ups_ok [OF input]) (use inv1 i in auto)
  then show ?thesis
  proof (cases rule: visit_okE)
    case (found ps m p)
    then show ?thesis by (simp add: visit_def visit_ok_found)
  next
    case (clear m)
    have succ: "m ! k = Done" if "(i, k) \<in> ?E" for k
      using that clear(3) [of k] edge_bound [OF input that] by (auto simp: edge_def)
    have inv2: "search_inv ?E (length nodes) (m[i := Done]) []"
      by (rule search_inv_leave [OF _ i(1) succ edge_bound [OF input]]) (use clear(2) in simp_all)
    have "length m = length nodes" using clear(2) by (simp add: search_inv_def)
    then have mono: "(m[i := Done]) ! k = Done" if "k < length nodes" "k = i \<or> marks ! k = Done" for k
      using that clear(3) [of k] len by (cases "k = i") auto
    have "visit_ok nodes ?E (\<lambda>j. j = i) marks [] (Some (None, m[i := Done], []))"
      using mono by (intro visit_ok_clear inv2) auto
    then show ?thesis by (simp add: visit_def clear(1))
  qed
qed

lemma find_loop_ok:
  assumes input: "search_input nodes upstreams index"
  shows "search_inv (edge upstreams index) (length nodes) marks [] \<Longrightarrow> set is \<subseteq> {..<length nodes} \<Longrightarrow>
     (\<exists>ps. find_loop nodes upstreams index is marks [] = Some (Some (map (\<lambda>p. ns_name (nodes ! p)) ps)) \<and>
        cycle_path (edge upstreams index) ps) \<or>
     find_loop nodes upstreams index is marks [] = Some None \<and>
       (\<exists>m. search_inv (edge upstreams index) (length nodes) m [] \<and>
          (\<forall>i < length nodes. i \<in> set is \<or> marks ! i = Done \<longrightarrow> m ! i = Done))"
proof (induction "is" arbitrary: marks)
  case Nil
  then show ?case by auto
next
  case (Cons i "is")
  have i: "i < length nodes" using Cons.prems(2) by simp
  show ?case
  proof (cases "marks ! i = Unvisited")
    case False
    then have "marks ! i = Done"
      using Cons.prems(1) i by (cases "marks ! i") (auto simp: search_inv_def)
    with False Cons.IH [OF Cons.prems(1)] Cons.prems(2) show ?thesis by auto
  next
    case True
    from visit_ok_visit [OF input Cons.prems(1) i True] show ?thesis
    proof (cases rule: visit_okE)
      case (found ps m p)
      with True show ?thesis by auto
    next
      case (clear m)
      have "find_loop nodes upstreams index (i # is) marks [] = find_loop nodes upstreams index is m []"
        using True clear(1) by simp
      with Cons.IH [OF clear(2)] Cons.prems(2) clear(3) show ?thesis by auto
    qed
  qed
qed

theorem find_cycle_cases:
  assumes input: "search_input nodes upstreams index"
  shows "(\<exists>ps. find_cycle nodes upstreams index = Some (Some (map (\<lambda>p. ns_name (nodes ! p)) ps)) \<and>
            cycle_path (edge upstreams index) ps) \<or>
         (find_cycle nodes upstreams index = Some None \<and> acyclic (edge upstreams index))"
proof -
  have indices: "set [0..<length nodes] \<subseteq> {..<length nodes}" by auto
  have "search_inv (edge upstreams index) (length nodes) (replicate (length nodes) Unvisited) []"
    by (auto simp: search_inv_def)
  from find_loop_ok [OF input this indices]
  have "(\<exists>ps. find_cycle nodes upstreams index = Some (Some (map (\<lambda>p. ns_name (nodes ! p)) ps)) \<and>
            cycle_path (edge upstreams index) ps) \<or>
        find_cycle nodes upstreams index = Some None \<and>
          (\<exists>m. search_inv (edge upstreams index) (length nodes) m [] \<and> (\<forall>i < length nodes. m ! i = Done))"
    by (auto simp: find_cycle_def)
  then consider (cycle) ps where "find_cycle nodes upstreams index = Some (Some (map (\<lambda>p. ns_name (nodes ! p)) ps))"
      "cycle_path (edge upstreams index) ps"
    | (none) m where "find_cycle nodes upstreams index = Some None"
      "search_inv (edge upstreams index) (length nodes) m []" "\<forall>i < length nodes. m ! i = Done"
    by blast
  then show ?thesis
  proof cases
    case none
    have "(i, i) \<notin> (edge upstreams index)\<^sup>+" for i
    proof
      assume loop: "(i, i) \<in> (edge upstreams index)\<^sup>+"
      then obtain k where "(i, k) \<in> edge upstreams index" by (meson tranclD)
      then have "i < length nodes" using edge_bound [OF input] by blast
      with none(2,3) loop show False by (auto simp: search_inv_def)
    qed
    then show ?thesis using none(1) by (simp add: acyclic_def)
  qed blast
qed

end
