(* ===== verification/Operators.thy ===== *)
theory Operators
  imports Json
begin

section \<open>The operator set (\<open>operator/mod.rs\<close>)\<close>

text \<open>
  An operator set maps a name to a parameter check and, for an operator the process runs, to a
  runner. The check of a parameter type is its \<open>serde\<close> deserializer and a component of the
  entry: \<open>Inl\<close> the message of a rejection. The runners are of a type parameter \<open>'r\<close> here; the
  dispatch chooses it.
\<close>

record 'r op_entry =
  oe_check :: "toml_table \<Rightarrow> string + unit"
  oe_run :: "'r option"

type_synonym 'r operator_set = "(string, 'r op_entry) btree"

datatype operator_error = Unknown | InvalidOperatorParams string

definition operators_new :: "'r operator_set" where
  "operators_new = []"

definition operators_register ::
  "string \<Rightarrow> (toml_table \<Rightarrow> string + unit) \<Rightarrow> 'r operator_set \<Rightarrow> 'r operator_set" where
  "operators_register name check ops = bt_insert name \<lparr>oe_check = check, oe_run = None\<rparr> ops"

definition operators_add ::
  "string \<Rightarrow> (toml_table \<Rightarrow> string + unit) \<Rightarrow> 'r \<Rightarrow> 'r operator_set \<Rightarrow> 'r operator_set" where
  "operators_add name check run ops = bt_insert name \<lparr>oe_check = check, oe_run = Some run\<rparr> ops"

definition operators_contains :: "'r operator_set \<Rightarrow> string \<Rightarrow> bool" where
  "operators_contains ops name \<longleftrightarrow> bt_get ops name \<noteq> None"

definition operators_runs :: "'r operator_set \<Rightarrow> string \<Rightarrow> bool" where
  "operators_runs ops name \<longleftrightarrow> (case bt_get ops name of None \<Rightarrow> False | Some e \<Rightarrow> oe_run e \<noteq> None)"

definition operators_names :: "'r operator_set \<Rightarrow> string list" where
  "operators_names ops = bt_keys ops"

definition operators_check :: "'r operator_set \<Rightarrow> string \<Rightarrow> toml_table \<Rightarrow> operator_error + unit" where
  "operators_check ops name params =
     (case bt_get ops name of
       None \<Rightarrow> Inl Unknown
     | Some entry \<Rightarrow>
         (case oe_check entry params of
           Inl message \<Rightarrow> Inl (InvalidOperatorParams message)
         | Inr u \<Rightarrow> Inr u))"

text \<open>The built-in operators: a check and a runner for each of the four parameter types.\<close>

definition operators_builtin ::
  "(toml_table \<Rightarrow> string + unit) \<times> 'r \<Rightarrow> (toml_table \<Rightarrow> string + unit) \<times> 'r \<Rightarrow>
   (toml_table \<Rightarrow> string + unit) \<times> 'r \<Rightarrow> (toml_table \<Rightarrow> string + unit) \<times> 'r \<Rightarrow> 'r operator_set" where
  "operators_builtin subprocess shell http object_exists =
     operators_add ''object_exists'' (fst object_exists) (snd object_exists)
     (operators_add ''http'' (fst http) (snd http)
     (operators_add ''shell'' (fst shell) (snd shell)
     (operators_add ''subprocess'' (fst subprocess) (snd subprocess) operators_new)))"

subsection \<open>Lookups\<close>

lemma operators_runs_register [simp]:
  "operators_runs (operators_register name check ops) n \<longleftrightarrow> n \<noteq> name \<and> operators_runs ops n"
  by (simp add: operators_runs_def operators_register_def)

lemma operators_runs_add [simp]:
  "operators_runs (operators_add name check run ops) n \<longleftrightarrow> n = name \<or> operators_runs ops n"
  by (simp add: operators_runs_def operators_add_def)

lemma operators_contains_register [simp]:
  "operators_contains (operators_register name check ops) n \<longleftrightarrow> n = name \<or> operators_contains ops n"
  by (simp add: operators_contains_def operators_register_def)

lemma operators_contains_add [simp]:
  "operators_contains (operators_add name check run ops) n \<longleftrightarrow> n = name \<or> operators_contains ops n"
  by (simp add: operators_contains_def operators_add_def)

lemma operators_runs_contains: "operators_runs ops n \<Longrightarrow> operators_contains ops n"
  by (auto simp: operators_runs_def operators_contains_def split: option.splits)

lemma operators_check_Unknown: "operators_check ops n p = Inl Unknown \<longleftrightarrow> \<not> operators_contains ops n"
  by (auto simp: operators_check_def operators_contains_def split: option.splits sum.splits)

end
