(* ===== verification/Graph_Build.thy ===== *)
theory Graph_Build
  imports Graph_Cycle Operators
begin

section \<open>Building a graph (\<open>graph.rs\<close>, \<open>Graph::build\<close>)\<close>

text \<open>
  The checks of a specification in the order of the source, each as the list of the faults it
  pushes, and the graph of a specification without a fault. \<open>build\<close> returns \<open>None\<close> for a panic
  of the cycle search, which \<open>build_total\<close> excludes.
\<close>

subsection \<open>The schedule\<close>

definition fires_twice_within_a_partition ::
  "(nat \<Rightarrow> civil option) \<Rightarrow> 'x cron \<Rightarrow> 'x \<Rightarrow> partitioning \<Rightarrow> bool" where
  "fires_twice_within_a_partition utc cr schedule p =
     (if p = Unpartitioned then False
      else case cron_next_after cr schedule 0 of
        None \<Rightarrow> False
      | Some first \<Rightarrow>
          list_ex (\<lambda>t. case t of None \<Rightarrow> False | Some ms \<Rightarrow> of_time utc p ms = of_time utc p first)
            [cron_previous_before cr schedule first, cron_next_after cr schedule first])"

definition build_schedule ::
  "(nat \<Rightarrow> civil option) \<Rightarrow> 'x cron \<Rightarrow> graph_spec \<Rightarrow> 'x option \<times> problem list" where
  "build_schedule utc cr spec =
     (case gs_schedule spec of
       None \<Rightarrow> (None, [])
     | Some expression \<Rightarrow>
         (let (schedule, faults) =
            (case cron_parse cr expression of
              Inr parsed \<Rightarrow>
                (Some parsed,
                 if fires_twice_within_a_partition utc cr parsed (gs_partitioning spec)
                 then [ScheduleWithinPartition expression (gs_partitioning spec)] else [])
            | Inl e \<Rightarrow>
                (None, [InvalidSchedule expression
                   (case e of InvalidExpression message \<Rightarrow> message | OtherCronError message \<Rightarrow> message)]))
          in (schedule, faults @ (if gs_partitioning spec = Unpartitioned then [ScheduleWithoutPartition] else []))))"

subsection \<open>The names\<close>

definition name_faults :: "string \<Rightarrow> string \<Rightarrow> problem list" where
  "name_faults graph_name name =
     (if \<not> is_name name then [InvalidNodeName name]
      else if length graph_name + length name > max_graph_and_node_name_len then [NamesTooLong name]
      else [])"

fun build_index ::
  "string \<Rightarrow> nat \<Rightarrow> node_spec list \<Rightarrow> (string, nat) btree \<Rightarrow> (string, nat) btree \<times> problem list" where
  "build_index graph_name i [] index = (index, [])"
| "build_index graph_name i (n # ns) index =
     (let duplicate = (if bt_get index (ns_name n) \<noteq> None then [DuplicateNode (ns_name n)] else []);
          (index', faults) = build_index graph_name (Suc i) ns (bt_insert (ns_name n) i index)
      in (index', name_faults graph_name (ns_name n) @ duplicate @ faults))"

subsection \<open>The assets\<close>

definition asset_name_faults :: "node_spec \<Rightarrow> problem list" where
  "asset_name_faults n =
     (case ns_kind n of
       AssetNode produces consumes \<Rightarrow>
         map (InvalidAssetName (ns_name n)) (filter (\<lambda>asset. \<not> is_name asset) (produces # consumes))
     | TaskNode after rule \<Rightarrow> [])"

definition push_name :: "string \<Rightarrow> string list option \<Rightarrow> string list" where
  "push_name name names = (case names of None \<Rightarrow> [] | Some ns \<Rightarrow> ns) @ [name]"

definition add_producer :: "node_spec \<Rightarrow> (string, string list) btree \<Rightarrow> (string, string list) btree" where
  "add_producer n producers =
     (case ns_kind n of
       AssetNode produces consumes \<Rightarrow> bt_entry produces (push_name (ns_name n)) producers
     | TaskNode after rule \<Rightarrow> producers)"

definition build_producers :: "node_spec list \<Rightarrow> (string, string list) btree" where
  "build_producers nodes = fold add_producer nodes []"

definition duplicate_assets :: "(string, string list) btree \<Rightarrow> problem list" where
  "duplicate_assets producers =
     map (\<lambda>(asset, names). DuplicateAsset asset names) (filter (\<lambda>(asset, names). 1 < length names) producers)"

subsection \<open>The upstreams\<close>

definition upstreams_of ::
  "(string, string list) btree \<Rightarrow> (string, nat) btree \<Rightarrow> node_spec \<Rightarrow> string list \<times> problem list" where
  "upstreams_of producers index n =
     (case ns_kind n of
       AssetNode produces consumes \<Rightarrow>
         (fold (\<lambda>asset s. case bt_get producers asset of Some names \<Rightarrow> bs_extend names s | None \<Rightarrow> s) consumes [],
          map (UnknownAsset (ns_name n)) (filter (\<lambda>asset. bt_get producers asset = None) consumes))
     | TaskNode after rule \<Rightarrow>
         (fold (\<lambda>name s. if bt_get index name \<noteq> None then bs_insert name s else s) after [],
          map (UnknownNode (ns_name n)) (filter (\<lambda>name. bt_get index name = None) after)))"

subsection \<open>The parameters\<close>

text \<open>The upstreams a template names for the first time that are not upstreams of the node.\<close>

fun new_unknown :: "string list \<Rightarrow> string list \<Rightarrow> string list \<Rightarrow> string list" where
  "new_unknown upstreams seen [] = []"
| "new_unknown upstreams seen (u # us) =
     (if u \<notin> set upstreams \<and> u \<notin> set seen then u # new_unknown upstreams (bs_insert u seen) us
      else new_unknown upstreams seen us)"

definition child :: "string \<Rightarrow> string \<Rightarrow> string" where
  "child path key = (if path = [] then key else path @ ''.'' @ key)"

lemma size_enumerate [termination_simp]:
  "(i, v) \<in> set (enumerate k vs) \<Longrightarrow> size v < Suc (size_list size vs)"
  by (auto simp: in_set_enumerate_eq size_toml_array)

lemma size_table [termination_simp]:
  "(k, v) \<in> set es \<Longrightarrow> size v < Suc (size_list (size_prod (\<lambda>x. 0) size) es)"
  by (induction es) auto

fun check_templates :: "node_spec \<Rightarrow> string list \<Rightarrow> string \<Rightarrow> toml \<Rightarrow> problem list" where
  "check_templates n upstreams path (TString t) =
     (case parse t of
       Inr template \<Rightarrow>
         map (UnknownTemplateUpstream (ns_name n) path) (new_unknown upstreams [] (upstream_nodes template)) @
         (if ns_each n = None \<and> refers_to_item template then [ItemWithoutEach (ns_name n) path] else [])
     | Inl e \<Rightarrow> [InvalidTemplate (ns_name n) path e])"
| "check_templates n upstreams path (TArray items) =
     concat (map (\<lambda>(i, item). check_templates n upstreams (child path (show_nat i)) item) (enumerate 0 items))"
| "check_templates n upstreams path (TTable entries) =
     concat (map (\<lambda>(key, item). check_templates n upstreams (child path key) item) entries)"
| "check_templates n upstreams path (TInteger i) = []"
| "check_templates n upstreams path (TFloat f) = []"
| "check_templates n upstreams path (TBoolean b) = []"
| "check_templates n upstreams path (TDatetime d) = []"

definition check_each :: "string \<Rightarrow> string \<Rightarrow> string list \<Rightarrow> problem list" where
  "check_each name each upstreams =
     (case parse each of
       Inl e \<Rightarrow> [InvalidEach name e]
     | Inr template \<Rightarrow>
         (if refers_to_item template then [EachRefersToItem name] else []) @
         map (UnknownEachUpstream name) (new_unknown upstreams [] (upstream_nodes template)))"

definition operator_faults :: "'r operator_set \<Rightarrow> node_spec \<Rightarrow> problem list" where
  "operator_faults operators n =
     (case operators_check operators (ns_operator n) (ns_params n) of
       Inr u \<Rightarrow> []
     | Inl Unknown \<Rightarrow> [UnknownOperator (ns_name n) (ns_operator n)]
     | Inl (InvalidOperatorParams message) \<Rightarrow> [InvalidParams (ns_name n) (ns_operator n) message])"

definition param_faults :: "'r operator_set \<Rightarrow> node_spec \<Rightarrow> string list \<Rightarrow> problem list" where
  "param_faults operators n upstreams =
     operator_faults operators n @
     concat (map (\<lambda>(key, item). check_templates n upstreams key item) (ns_params n)) @
     (case ns_each n of None \<Rightarrow> [] | Some each \<Rightarrow> check_each (ns_name n) each upstreams)"

subsection \<open>The graph\<close>

definition downstream_pairs :: "node_spec list \<Rightarrow> string list list \<Rightarrow> (string \<times> string) list" where
  "downstream_pairs nodes upstreams =
     concat (map (\<lambda>(n, us). map (\<lambda>u. (u, ns_name n)) us) (zip nodes upstreams))"

definition build_downstreams :: "node_spec list \<Rightarrow> string list list \<Rightarrow> (string, string list) btree" where
  "build_downstreams nodes upstreams =
     fold (\<lambda>p m. bt_insert (fst p) (bs_insert (snd p) (case bt_get m (fst p) of None \<Rightarrow> [] | Some s \<Rightarrow> s)) m)
       (downstream_pairs nodes upstreams) []"

fun assemble :: "node_spec list \<Rightarrow> string list list \<Rightarrow> (string, string list) btree \<Rightarrow> node list" where
  "assemble (n # ns) (us # uss) downstreams =
     \<lparr>nd_spec = n, nd_upstreams = us,
      nd_downstreams = (case bt_get downstreams (ns_name n) of None \<Rightarrow> [] | Some d \<Rightarrow> d)\<rparr>
     # assemble ns uss (bt_remove (ns_name n) downstreams)"
| "assemble ns uss downstreams = []"

definition build ::
  "(nat \<Rightarrow> civil option) \<Rightarrow> 'x cron \<Rightarrow> 'r operator_set \<Rightarrow> graph_spec \<Rightarrow> (problem list + 'x graph) option" where
  "build utc cr operators spec =
     (let nodes = gs_nodes spec;
          name_problems = (if \<not> is_name (gs_name spec) then [InvalidGraphName (gs_name spec)] else []);
          (schedule, schedule_problems) = build_schedule utc cr spec;
          empty_problems = (if nodes = [] then [NoNodes] else []);
          (index, index_problems) = build_index (gs_name spec) 0 nodes [];
          asset_problems = concat (map asset_name_faults nodes);
          producers = build_producers nodes;
          ups = map (upstreams_of producers index) nodes;
          upstreams = map fst ups;
          param_problems = concat (map (\<lambda>(n, us). param_faults operators n us) (zip nodes upstreams));
          problems = name_problems @ schedule_problems @ empty_problems @ index_problems @ asset_problems @
            duplicate_assets producers @ concat (map snd ups) @ param_problems
      in if problems \<noteq> [] then Some (Inl problems)
         else case find_cycle nodes upstreams index of
           None \<Rightarrow> None
         | Some (Some cycle) \<Rightarrow> Some (Inl [Cycle cycle])
         | Some None \<Rightarrow>
             Some (Inr \<lparr>gr_name = gs_name spec, gr_schedule = schedule, gr_catchup = gs_catchup spec,
               gr_partitioning = gs_partitioning spec,
               gr_nodes = assemble nodes upstreams (build_downstreams nodes upstreams),
               gr_index = index\<rparr>))"

end
