(* ===== verification/Graph_Build_Correct.thy ===== *)
theory Graph_Build_Correct
  imports Graph_Build
begin

section \<open>What \<open>Graph::build\<close> accepts\<close>

text \<open>
  A declarative reading of each check, the equivalence of every fault list being empty with it,
  and the two results: \<open>build\<close> accepts exactly the valid specifications, and the graph it
  returns is well formed.
\<close>

subsection \<open>The index\<close>

lemma name_faults_Nil:
  "name_faults g x = [] \<longleftrightarrow> is_name x \<and> length g + length x \<le> max_graph_and_node_name_len"
  by (auto simp: name_faults_def)

lemma build_index_Cons:
  "fst (build_index g i (n # ns) index) = fst (build_index g (Suc i) ns (bt_insert (ns_name n) i index))"
  "snd (build_index g i (n # ns) index) =
     name_faults g (ns_name n) @ (if bt_get index (ns_name n) \<noteq> None then [DuplicateNode (ns_name n)] else []) @
     snd (build_index g (Suc i) ns (bt_insert (ns_name n) i index))"
  by (simp_all add: Let_def split: prod.splits)

lemma build_index_None:
  "bt_get (fst (build_index g i ns index)) x = None \<longleftrightarrow> bt_get index x = None \<and> x \<notin> ns_name ` set ns"
  by (induction ns arbitrary: i index) (auto simp: build_index_Cons simp del: build_index.simps(2))

lemma build_index_faults:
  "snd (build_index g i ns index) = [] \<longleftrightarrow>
     (\<forall>n \<in> set ns. name_faults g (ns_name n) = []) \<and> distinct (map ns_name ns) \<and>
     (\<forall>n \<in> set ns. bt_get index (ns_name n) = None)"
proof (induction ns arbitrary: i index)
  case (Cons n ns)
  have "(\<forall>m \<in> set ns. bt_get (bt_insert (ns_name n) i index) (ns_name m) = None) \<longleftrightarrow>
      ns_name n \<notin> ns_name ` set ns \<and> (\<forall>m \<in> set ns. bt_get index (ns_name m) = None)"
    by (auto split: if_splits) (metis image_eqI)
  then show ?case
    unfolding build_index_Cons append_is_Nil_conv Cons.IH by auto
qed simp

lemma build_index_get:
  "distinct (map ns_name ns) \<Longrightarrow>
     bt_get (fst (build_index g i ns index)) x =
       (case map_of (zip (map ns_name ns) [i..<i + length ns]) x of None \<Rightarrow> bt_get index x | Some j \<Rightarrow> Some j)"
proof (induction ns arbitrary: i index)
  case (Cons n ns)
  have "[i..<i + length (n # ns)] = i # [Suc i..<Suc i + length ns]"
    by (simp add: upt_rec)
  moreover have "map_of (zip (map ns_name ns) ks) (ns_name n) = None" for ks :: "nat list"
    using Cons.prems by (auto simp: map_of_eq_None_iff dest: set_zip_leftD)
  ultimately show ?case
    unfolding build_index_Cons using Cons by (auto split: option.splits)
qed simp

lemma build_index_positions:
  assumes "distinct (map ns_name nodes)"
  shows "bt_get (fst (build_index g 0 nodes [])) x = Some i \<longleftrightarrow> i < length nodes \<and> ns_name (nodes ! i) = x"
proof -
  have "zip (map ns_name nodes) [0..<length nodes] = map (\<lambda>i. (map ns_name nodes ! i, i)) [0..<length nodes]"
    by (rule nth_equalityI) auto
  then have "bt_get (fst (build_index g 0 nodes [])) x =
      map_of (map (\<lambda>i. (map ns_name nodes ! i, i)) [0..<length (map ns_name nodes)]) x"
    using build_index_get [OF assms, of g 0 "[]" x] by (simp split: option.splits)
  then have "bt_get (fst (build_index g 0 nodes [])) x = Some i \<longleftrightarrow>
      i < length (map ns_name nodes) \<and> map ns_name nodes ! i = x"
    unfolding map_of_positions [OF assms, symmetric] by simp
  then show ?thesis by auto
qed

subsection \<open>The producers\<close>

definition produces :: "node_spec \<Rightarrow> string \<Rightarrow> bool" where
  "produces n a \<longleftrightarrow> (case ns_kind n of AssetNode p c \<Rightarrow> p = a | TaskNode after r \<Rightarrow> False)"

definition producer_names :: "node_spec list \<Rightarrow> string \<Rightarrow> string list" where
  "producer_names nodes a = map ns_name (filter (\<lambda>n. produces n a) nodes)"

lemma add_producer_get:
  "bt_get (add_producer n m) a =
     (if produces n a then Some (push_name (ns_name n) (bt_get m a)) else bt_get m a)"
  by (cases "ns_kind n") (auto simp: add_producer_def produces_def bt_entry_def)

lemma fold_add_producer_get:
  "bt_get (fold add_producer ns m) a =
     (if producer_names ns a = [] then bt_get m a
      else Some ((case bt_get m a of None \<Rightarrow> [] | Some l \<Rightarrow> l) @ producer_names ns a))"
proof (induction ns arbitrary: m)
  case (Cons n ns)
  have "producer_names (n # ns) a = (if produces n a then [ns_name n] else []) @ producer_names ns a"
    by (simp add: producer_names_def)
  then show ?case by (auto simp: Cons.IH add_producer_get push_name_def)
qed (simp add: producer_names_def)

lemma build_producers_get:
  "bt_get (build_producers nodes) a = (if producer_names nodes a = [] then None else Some (producer_names nodes a))"
  by (simp add: build_producers_def fold_add_producer_get)

lemma build_producers_wf: "bt_wf (build_producers nodes)"
proof -
  have "bt_wf m \<Longrightarrow> bt_wf (fold add_producer ns m)" for ns m
  proof (induction ns arbitrary: m)
    case (Cons n ns)
    then show ?case
      by (cases "ns_kind n") (simp_all add: add_producer_def bt_entry_def bt_insert_wf)
  qed simp
  then show ?thesis by (simp add: build_producers_def)
qed

lemma duplicate_assets_Nil:
  "duplicate_assets (build_producers nodes) = [] \<longleftrightarrow> (\<forall>a. length (producer_names nodes a) \<le> 1)"
proof -
  have "duplicate_assets (build_producers nodes) = [] \<longleftrightarrow>
      (\<forall>a l. bt_get (build_producers nodes) a = Some l \<longrightarrow> length l \<le> 1)"
    by (fastforce simp: duplicate_assets_def filter_empty_conv bt_wf_get [OF build_producers_wf] not_less)
  also have "\<dots> \<longleftrightarrow> (\<forall>a. length (producer_names nodes a) \<le> 1)"
    by (auto simp: build_producers_get split: if_splits) (metis list.size(3) zero_le)
  finally show ?thesis .
qed

subsection \<open>The upstreams of a node\<close>

text \<open>The names a node depends on, and the condition that they all resolve.\<close>

definition depends :: "node_spec list \<Rightarrow> node_spec \<Rightarrow> string \<Rightarrow> bool" where
  "depends nodes n u \<longleftrightarrow>
     (case ns_kind n of
       AssetNode p consumes \<Rightarrow> \<exists>a \<in> set consumes. u \<in> set (producer_names nodes a)
     | TaskNode after r \<Rightarrow> u \<in> set after)"

definition resolved :: "node_spec list \<Rightarrow> node_spec \<Rightarrow> bool" where
  "resolved nodes n \<longleftrightarrow>
     (case ns_kind n of
       AssetNode p consumes \<Rightarrow> \<forall>a \<in> set consumes. \<exists>m \<in> set nodes. produces m a
     | TaskNode after r \<Rightarrow> set after \<subseteq> ns_name ` set nodes)"

lemma set_fold_insert:
  "set (fold (\<lambda>x s. if P x then bs_insert x s else s) xs s) = {x \<in> set xs. P x} \<union> set s"
  by (induction xs arbitrary: s) auto

lemma set_fold_extend:
  "set (fold (\<lambda>x s. case f x of Some ys \<Rightarrow> bs_extend ys s | None \<Rightarrow> s) xs s) =
     (\<Union>x \<in> set xs. case f x of Some ys \<Rightarrow> set ys | None \<Rightarrow> {}) \<union> set s"
  by (induction xs arbitrary: s) (auto split: option.splits)

lemma sorted_fold:
  assumes "\<And>x s. sorted_wrt (<) s \<Longrightarrow> sorted_wrt (<) (f x s)"
  shows "sorted_wrt (<) s \<Longrightarrow> sorted_wrt (<) (fold f xs s)"
  by (induction xs arbitrary: s) (auto intro: assms)

lemma upstreams_of_sorted: "sorted_wrt (<) (fst (upstreams_of producers index n))"
  by (cases "ns_kind n")
    (auto simp: upstreams_of_def split: option.splits intro!: sorted_fold sorted_bs_extend sorted_bs_insert)

lemma upstreams_of_faults:
  "snd (upstreams_of (build_producers nodes) (fst (build_index g 0 nodes [])) n) = [] \<longleftrightarrow> resolved nodes n"
  by (cases "ns_kind n")
    (auto simp: upstreams_of_def resolved_def filter_empty_conv build_producers_get producer_names_def build_index_None)

lemma set_producers:
  "(case bt_get (build_producers nodes) a of Some ys \<Rightarrow> set ys | None \<Rightarrow> {}) = set (producer_names nodes a)"
  by (simp add: build_producers_get)

lemma upstreams_of_set:
  "resolved nodes n \<Longrightarrow>
     u \<in> set (fst (upstreams_of (build_producers nodes) (fst (build_index g 0 nodes [])) n)) \<longleftrightarrow> depends nodes n u"
  by (cases "ns_kind n")
    (auto simp: upstreams_of_def depends_def resolved_def set_fold_insert set_fold_extend
      set_producers build_index_None)

lemma depends_name: "resolved nodes n \<Longrightarrow> depends nodes n u \<Longrightarrow> u \<in> ns_name ` set nodes"
  by (cases "ns_kind n") (auto simp: depends_def resolved_def producer_names_def)

subsection \<open>The templates\<close>

fun toml_strings :: "toml \<Rightarrow> string list" where
  "toml_strings (TString t) = [t]"
| "toml_strings (TArray items) = concat (map toml_strings items)"
| "toml_strings (TTable entries) = concat (map (\<lambda>(k, v). toml_strings v) entries)"
| "toml_strings (TInteger i) = []"
| "toml_strings (TFloat f) = []"
| "toml_strings (TBoolean b) = []"
| "toml_strings (TDatetime d) = []"

definition template_ok :: "bool \<Rightarrow> (string \<Rightarrow> bool) \<Rightarrow> string \<Rightarrow> bool" where
  "template_ok mapped is_upstream t \<longleftrightarrow>
     (case parse t of
       Inl e \<Rightarrow> False
     | Inr segs \<Rightarrow> list_all is_upstream (upstream_nodes segs) \<and> (refers_to_item segs \<longrightarrow> mapped))"

lemma new_unknown_Nil: "new_unknown ups seen us = [] \<longleftrightarrow> (\<forall>u \<in> set us. u \<in> set ups \<or> u \<in> set seen)"
  by (induction us arbitrary: seen) auto

lemma set_new_unknown: "set (new_unknown ups seen us) = {u \<in> set us. u \<notin> set ups \<and> u \<notin> set seen}"
  by (induction us arbitrary: seen) auto

lemma ball_enumerate: "(\<forall>(i, x) \<in> set (enumerate k xs). P x) \<longleftrightarrow> (\<forall>x \<in> set xs. P x)"
  by (induction xs arbitrary: k) auto

lemma check_templates_Nil:
  "check_templates n ups path v = [] \<longleftrightarrow>
     (\<forall>t \<in> set (toml_strings v). template_ok (ns_each n \<noteq> None) (\<lambda>u. u \<in> set ups) t)"
proof (induction n ups path v rule: check_templates.induct)
  case (1 n upstreams path t)
  then show ?case
    by (auto simp: template_ok_def new_unknown_Nil list_all_iff split: sum.splits)
next
  case (2 n upstreams path items)
  have "check_templates n upstreams path (TArray items) = [] \<longleftrightarrow>
      (\<forall>(i, item) \<in> set (enumerate 0 items). check_templates n upstreams (child path (show_nat i)) item = [])"
    by (auto simp: concat_eq_Nil_conv)
  also have "\<dots> \<longleftrightarrow> (\<forall>(i, item) \<in> set (enumerate 0 items).
      \<forall>t \<in> set (toml_strings item). template_ok (ns_each n \<noteq> None) (\<lambda>u. u \<in> set upstreams) t)"
    using 2 by fastforce
  also have "\<dots> \<longleftrightarrow> (\<forall>item \<in> set items.
      \<forall>t \<in> set (toml_strings item). template_ok (ns_each n \<noteq> None) (\<lambda>u. u \<in> set upstreams) t)"
    by (rule ball_enumerate)
  finally show ?case by auto
next
  case (3 n upstreams path entries)
  have "check_templates n upstreams path (TTable entries) = [] \<longleftrightarrow>
      (\<forall>(k, item) \<in> set entries. check_templates n upstreams (child path k) item = [])"
    by (auto simp: concat_eq_Nil_conv)
  also have "\<dots> \<longleftrightarrow> (\<forall>(k, item) \<in> set entries.
      \<forall>t \<in> set (toml_strings item). template_ok (ns_each n \<noteq> None) (\<lambda>u. u \<in> set upstreams) t)"
    using 3 by fastforce
  finally show ?case by auto
qed simp_all

lemma check_each_Nil: "check_each name each ups = [] \<longleftrightarrow> template_ok False (\<lambda>u. u \<in> set ups) each"
  by (auto simp: check_each_def template_ok_def new_unknown_Nil list_all_iff split: sum.splits)

definition params_ok :: "'r operator_set \<Rightarrow> node_spec \<Rightarrow> (string \<Rightarrow> bool) \<Rightarrow> bool" where
  "params_ok operators n is_upstream \<longleftrightarrow>
     operators_check operators (ns_operator n) (ns_params n) = Inr () \<and>
     (\<forall>(k, v) \<in> set (ns_params n). \<forall>t \<in> set (toml_strings v). template_ok (ns_each n \<noteq> None) is_upstream t) \<and>
     (case ns_each n of None \<Rightarrow> True | Some each \<Rightarrow> template_ok False is_upstream each)"

lemma operator_faults_Nil:
  "operator_faults operators n = [] \<longleftrightarrow> operators_check operators (ns_operator n) (ns_params n) = Inr ()"
  by (auto simp: operator_faults_def split: sum.splits operator_error.splits)

lemma param_faults_Nil: "param_faults operators n ups = [] \<longleftrightarrow> params_ok operators n (\<lambda>u. u \<in> set ups)"
  by (auto simp: param_faults_def params_ok_def operator_faults_Nil concat_eq_Nil_conv check_templates_Nil
      check_each_Nil split: option.splits)

subsection \<open>The downstreams\<close>

lemma build_downstreams_get:
  fixes ps :: "(string \<times> string) list"
  shows "bt_get (fold (\<lambda>p m. bt_insert (fst p) (bs_insert (snd p) (case bt_get m (fst p) of None \<Rightarrow> [] | Some s \<Rightarrow> s)) m) ps []) u =
     (if u \<in> fst ` set ps then Some (bs_extend (map snd (filter (\<lambda>p. fst p = u) ps)) []) else None)"
proof -
  have step: "fold (\<lambda>p r. Some (bs_insert (snd p) (case r of None \<Rightarrow> [] | Some s \<Rightarrow> s))) qs r =
      (if qs = [] then r else Some (bs_extend (map snd qs) (case r of None \<Rightarrow> [] | Some s \<Rightarrow> s)))"
    for qs :: "(string \<times> string) list" and r
    by (induction qs arbitrary: r) (auto simp: bs_extend_def)
  show ?thesis
    unfolding bt.get_fold_entry [where f = fst and g = "\<lambda>p r. bs_insert (snd p) (case r of None \<Rightarrow> [] | Some s \<Rightarrow> s)"] step
    by (auto simp: filter_empty_conv)
qed

lemma set_downstream_pairs:
  assumes "length upstreams = length nodes"
  shows "(u, d) \<in> set (downstream_pairs nodes upstreams) \<longleftrightarrow>
     (\<exists>i < length nodes. ns_name (nodes ! i) = d \<and> u \<in> set (upstreams ! i))"
  using assms by (fastforce simp: downstream_pairs_def set_zip)

lemma downstreams_set:
  assumes "length upstreams = length nodes"
  shows "set (case bt_get (build_downstreams nodes upstreams) u of None \<Rightarrow> [] | Some d \<Rightarrow> d) =
     {ns_name (nodes ! i) | i. i < length nodes \<and> u \<in> set (upstreams ! i)}"
proof -
  have "set (case bt_get (build_downstreams nodes upstreams) u of None \<Rightarrow> [] | Some d \<Rightarrow> d) =
      {d. (u, d) \<in> set (downstream_pairs nodes upstreams)}"
    by (auto simp: build_downstreams_def build_downstreams_get) force+
  then show ?thesis by (auto simp: set_downstream_pairs [OF assms])
qed

lemma downstreams_sorted:
  "sorted_wrt (<) (case bt_get (build_downstreams nodes upstreams) u of None \<Rightarrow> [] | Some d \<Rightarrow> d)"
  by (simp add: build_downstreams_def build_downstreams_get sorted_bs_extend)

lemma assemble_cong:
  "(\<And>n. n \<in> set ns \<Longrightarrow> bt_get d1 (ns_name n) = bt_get d2 (ns_name n)) \<Longrightarrow> assemble ns uss d1 = assemble ns uss d2"
proof (induction ns arbitrary: uss d1 d2)
  case (Cons n ns)
  show ?case
  proof (cases uss)
    case (Cons us uss')
    have "assemble ns uss' (bt_remove (ns_name n) d1) = assemble ns uss' (bt_remove (ns_name n) d2)"
      by (rule Cons.IH) (use Cons.prems in auto)
    with Cons Cons.prems show ?thesis by simp
  qed simp
qed simp

lemma assemble_map:
  "distinct (map ns_name ns) \<Longrightarrow> length uss = length ns \<Longrightarrow>
     assemble ns uss d = map (\<lambda>(n, us). \<lparr>nd_spec = n, nd_upstreams = us,
        nd_downstreams = (case bt_get d (ns_name n) of None \<Rightarrow> [] | Some x \<Rightarrow> x)\<rparr>) (zip ns uss)"
proof (induction ns arbitrary: uss)
  case (Cons n ns)
  then obtain us uss' where uss: "uss = us # uss'" by (cases uss) auto
  have "assemble ns uss' (bt_remove (ns_name n) d) = assemble ns uss' d"
    by (rule assemble_cong) (use Cons.prems in \<open>auto simp: image_iff\<close>)
  with Cons uss show ?case by simp
qed simp

subsection \<open>The edges by index and by name\<close>

definition dependency_rel :: "node_spec list \<Rightarrow> (string \<times> string) set" where
  "dependency_rel nodes = {(ns_name n, u) | n u. n \<in> set nodes \<and> depends nodes n u}"

lemma acyclic_hom:
  assumes "acyclic r'" and "\<And>a b. (a, b) \<in> r \<Longrightarrow> (f a, f b) \<in> r'"
  shows "acyclic r"
proof -
  have "(a, b) \<in> r\<^sup>+ \<Longrightarrow> (f a, f b) \<in> r'\<^sup>+" for a b
    by (induction rule: trancl_induct) (auto intro: assms(2) trancl.trancl_into_trancl)
  with assms(1) show ?thesis unfolding acyclic_def by blast
qed

definition build_upstreams :: "string \<Rightarrow> node_spec list \<Rightarrow> string list list" where
  "build_upstreams g nodes =
     map (\<lambda>n. fst (upstreams_of (build_producers nodes) (fst (build_index g 0 nodes [])) n)) nodes"

lemma length_build_upstreams [simp]: "length (build_upstreams g nodes) = length nodes"
  by (simp add: build_upstreams_def)

text \<open>The state after the checks of the names and of the upstreams.\<close>

definition names_resolved :: "node_spec list \<Rightarrow> bool" where
  "names_resolved nodes \<longleftrightarrow> distinct (map ns_name nodes) \<and> (\<forall>n \<in> set nodes. resolved nodes n)"

lemma names_resolvedD:
  assumes "names_resolved nodes"
  shows "distinct (map ns_name nodes)" and "n \<in> set nodes \<Longrightarrow> resolved nodes n"
  using assms by (auto simp: names_resolved_def)

lemma build_upstreams_set:
  "names_resolved nodes \<Longrightarrow> i < length nodes \<Longrightarrow> u \<in> set (build_upstreams g nodes ! i) \<longleftrightarrow> depends nodes (nodes ! i) u"
  by (simp add: build_upstreams_def upstreams_of_set names_resolvedD)

lemma search_input_build:
  assumes ok: "names_resolved nodes"
  shows "search_input nodes (build_upstreams g nodes) (fst (build_index g 0 nodes []))"
proof -
  have "\<exists>j < length nodes. bt_get (fst (build_index g 0 nodes [])) u = Some j"
    if "i < length nodes" "u \<in> set (build_upstreams g nodes ! i)" for i u
  proof -
    have "u \<in> ns_name ` set nodes"
      using that by (intro depends_name [OF names_resolvedD(2) [OF ok]]) (auto simp: build_upstreams_set ok)
    then obtain j where "j < length nodes" "ns_name (nodes ! j) = u" by (auto simp: in_set_conv_nth)
    then show ?thesis using build_index_positions [OF names_resolvedD(1) [OF ok], of g u j] by auto
  qed
  then show ?thesis by (auto simp: search_input_def in_set_conv_nth [of _ "build_upstreams g nodes"])
qed

lemma edge_build:
  assumes ok: "names_resolved nodes"
  shows "(i, j) \<in> edge (build_upstreams g nodes) (fst (build_index g 0 nodes [])) \<longleftrightarrow>
     i < length nodes \<and> j < length nodes \<and> depends nodes (nodes ! i) (ns_name (nodes ! j))"
  by (auto simp: edge_def build_upstreams_set ok build_index_positions [OF names_resolvedD(1) [OF ok]])

lemma acyclic_build:
  assumes ok: "names_resolved nodes"
  shows "acyclic (edge (build_upstreams g nodes) (fst (build_index g 0 nodes []))) \<longleftrightarrow> acyclic (dependency_rel nodes)"
proof
  assume "acyclic (dependency_rel nodes)"
  then show "acyclic (edge (build_upstreams g nodes) (fst (build_index g 0 nodes [])))"
    by (rule acyclic_hom [where f = "\<lambda>i. ns_name (nodes ! i)"]) (auto simp: edge_build [OF ok] dependency_rel_def)
next
  assume acyc: "acyclic (edge (build_upstreams g nodes) (fst (build_index g 0 nodes [])))"
  let ?idx = "\<lambda>x. the (bt_get (fst (build_index g 0 nodes [])) x)"
  have idx: "?idx (ns_name (nodes ! i)) = i" if "i < length nodes" for i
    using that build_index_positions [OF names_resolvedD(1) [OF ok], of g "ns_name (nodes ! i)" i] by simp
  show "acyclic (dependency_rel nodes)"
  proof (rule acyclic_hom [where f = ?idx, OF acyc])
    fix a b
    assume "(a, b) \<in> dependency_rel nodes"
    then obtain n where n: "n \<in> set nodes" "a = ns_name n" "depends nodes n b"
      by (auto simp: dependency_rel_def)
    then have "b \<in> ns_name ` set nodes" by (intro depends_name [OF names_resolvedD(2) [OF ok]])
    then obtain i j where "i < length nodes" "nodes ! i = n" "j < length nodes" "ns_name (nodes ! j) = b"
      using n(1) by (auto simp: in_set_conv_nth)
    then show "(?idx a, ?idx b) \<in> edge (build_upstreams g nodes) (fst (build_index g 0 nodes []))"
      using n idx [of i] idx [of j] by (auto simp: edge_build [OF ok])
  qed
qed

subsection \<open>The valid specifications\<close>

definition schedule_ok :: "(nat \<Rightarrow> civil option) \<Rightarrow> 'x cron \<Rightarrow> graph_spec \<Rightarrow> bool" where
  "schedule_ok utc cr spec \<longleftrightarrow>
     (case gs_schedule spec of
       None \<Rightarrow> True
     | Some e \<Rightarrow> gs_partitioning spec \<noteq> Unpartitioned \<and>
         (case cron_parse cr e of
           Inl err \<Rightarrow> False
         | Inr x \<Rightarrow> \<not> fires_twice_within_a_partition utc cr x (gs_partitioning spec)))"

definition valid_spec :: "(nat \<Rightarrow> civil option) \<Rightarrow> 'x cron \<Rightarrow> 'r operator_set \<Rightarrow> graph_spec \<Rightarrow> bool" where
  "valid_spec utc cr operators spec \<longleftrightarrow>
     is_name (gs_name spec) \<and> schedule_ok utc cr spec \<and> gs_nodes spec \<noteq> [] \<and>
     (\<forall>n \<in> set (gs_nodes spec). name_faults (gs_name spec) (ns_name n) = []) \<and>
     (\<forall>n \<in> set (gs_nodes spec). asset_name_faults n = []) \<and>
     (\<forall>a. length (producer_names (gs_nodes spec) a) \<le> 1) \<and>
     names_resolved (gs_nodes spec) \<and>
     (\<forall>n \<in> set (gs_nodes spec). params_ok operators n (depends (gs_nodes spec) n)) \<and>
     acyclic (dependency_rel (gs_nodes spec))"

lemma build_schedule_Nil: "snd (build_schedule utc cr spec) = [] \<longleftrightarrow> schedule_ok utc cr spec"
  by (auto simp: build_schedule_def schedule_ok_def split: option.splits sum.splits)

lemma params_ok_cong: "(\<And>u. p u = q u) \<Longrightarrow> params_ok operators n p \<longleftrightarrow> params_ok operators n q"
  by (subgoal_tac "p = q") auto

definition index_of :: "graph_spec \<Rightarrow> (string, nat) btree" where
  "index_of spec = fst (build_index (gs_name spec) 0 (gs_nodes spec) [])"

definition problems_of :: "(nat \<Rightarrow> civil option) \<Rightarrow> 'x cron \<Rightarrow> 'r operator_set \<Rightarrow> graph_spec \<Rightarrow> problem list" where
  "problems_of utc cr operators spec =
     (if \<not> is_name (gs_name spec) then [InvalidGraphName (gs_name spec)] else []) @
     snd (build_schedule utc cr spec) @
     (if gs_nodes spec = [] then [NoNodes] else []) @
     snd (build_index (gs_name spec) 0 (gs_nodes spec) []) @
     concat (map asset_name_faults (gs_nodes spec)) @
     duplicate_assets (build_producers (gs_nodes spec)) @
     concat (map (\<lambda>n. snd (upstreams_of (build_producers (gs_nodes spec)) (index_of spec) n)) (gs_nodes spec)) @
     concat (map (\<lambda>(n, us). param_faults operators n us)
       (zip (gs_nodes spec) (build_upstreams (gs_name spec) (gs_nodes spec))))"

definition built_graph :: "(nat \<Rightarrow> civil option) \<Rightarrow> 'x cron \<Rightarrow> graph_spec \<Rightarrow> 'x graph" where
  "built_graph utc cr spec =
     (let upstreams = build_upstreams (gs_name spec) (gs_nodes spec)
      in \<lparr>gr_name = gs_name spec, gr_schedule = fst (build_schedule utc cr spec), gr_catchup = gs_catchup spec,
          gr_partitioning = gs_partitioning spec,
          gr_nodes = assemble (gs_nodes spec) upstreams (build_downstreams (gs_nodes spec) upstreams),
          gr_index = index_of spec\<rparr>)"

lemma build_eq:
  "build utc cr operators spec =
     (if problems_of utc cr operators spec \<noteq> [] then Some (Inl (problems_of utc cr operators spec))
      else case find_cycle (gs_nodes spec) (build_upstreams (gs_name spec) (gs_nodes spec)) (index_of spec) of
          None \<Rightarrow> None
        | Some (Some cycle) \<Rightarrow> Some (Inl [Cycle cycle])
        | Some None \<Rightarrow> Some (Inr (built_graph utc cr spec)))"
proof -
  obtain schedule faults where schedule: "build_schedule utc cr spec = (schedule, faults)" by fastforce
  obtain index dups where index: "build_index (gs_name spec) 0 (gs_nodes spec) [] = (index, dups)" by fastforce
  show ?thesis
    unfolding build_def Let_def problems_of_def built_graph_def index_of_def build_upstreams_def
    by (simp only: schedule index prod.case fst_conv snd_conv map_map comp_def)
qed

lemma problems_of_Nil:
  "problems_of utc cr operators spec = [] \<and> acyclic (dependency_rel (gs_nodes spec)) \<longleftrightarrow>
     valid_spec utc cr operators spec"
proof -
  let ?nodes = "gs_nodes spec"
  have params: "concat (map (\<lambda>(n, us). param_faults operators n us)
       (zip ?nodes (build_upstreams (gs_name spec) ?nodes))) = [] \<longleftrightarrow>
     (\<forall>n \<in> set ?nodes. params_ok operators n (depends ?nodes n))" if ok: "names_resolved ?nodes"
  proof -
    have "concat (map (\<lambda>(n, us). param_faults operators n us) (zip ?nodes (build_upstreams (gs_name spec) ?nodes))) = [] \<longleftrightarrow>
       (\<forall>i < length ?nodes. params_ok operators (?nodes ! i) (\<lambda>u. u \<in> set (build_upstreams (gs_name spec) ?nodes ! i)))"
      unfolding param_faults_Nil [symmetric]
      by (simp add: concat_eq_Nil_conv set_zip) fastforce
    also have "\<dots> \<longleftrightarrow> (\<forall>i < length ?nodes. params_ok operators (?nodes ! i) (depends ?nodes (?nodes ! i)))"
      using build_upstreams_set [OF ok] by (auto cong: params_ok_cong)
    finally show ?thesis unfolding all_set_conv_all_nth .
  qed
  have names: "snd (build_index (gs_name spec) 0 ?nodes []) = [] \<and>
      concat (map (\<lambda>n. snd (upstreams_of (build_producers ?nodes) (index_of spec) n)) ?nodes) = [] \<longleftrightarrow>
      (\<forall>n \<in> set ?nodes. name_faults (gs_name spec) (ns_name n) = []) \<and> names_resolved ?nodes"
    by (auto simp: build_index_faults index_of_def upstreams_of_faults names_resolved_def)
  show ?thesis
    unfolding problems_of_def valid_spec_def append_is_Nil_conv build_schedule_Nil duplicate_assets_Nil
    using names params by (cases "names_resolved ?nodes") (auto split: if_splits)
qed

lemma valid_spec_names: "valid_spec utc cr operators spec \<Longrightarrow> names_resolved (gs_nodes spec)"
  by (simp add: valid_spec_def)

lemma problems_names: "problems_of utc cr operators spec = [] \<Longrightarrow> names_resolved (gs_nodes spec)"
  by (auto simp: problems_of_def build_index_faults index_of_def upstreams_of_faults names_resolved_def)

subsection \<open>The results\<close>

lemma find_cycle_build:
  assumes "problems_of utc cr operators spec = []"
  shows "(\<exists>ps. find_cycle (gs_nodes spec) (build_upstreams (gs_name spec) (gs_nodes spec)) (index_of spec) =
              Some (Some (map (\<lambda>p. ns_name (gs_nodes spec ! p)) ps)) \<and>
            cycle_path (edge (build_upstreams (gs_name spec) (gs_nodes spec)) (index_of spec)) ps \<and>
            \<not> acyclic (dependency_rel (gs_nodes spec))) \<or>
         (find_cycle (gs_nodes spec) (build_upstreams (gs_name spec) (gs_nodes spec)) (index_of spec) = Some None \<and>
            acyclic (dependency_rel (gs_nodes spec)))"
proof -
  note ok = problems_names [OF assms]
  show ?thesis
    using find_cycle_cases [OF search_input_build [OF ok, of "gs_name spec"]] acyclic_build [OF ok, of "gs_name spec"]
      cycle_path_trancl
    unfolding index_of_def acyclic_def by blast
qed

lemma build_cases:
  obtains (faults) "problems_of utc cr operators spec \<noteq> []"
      "build utc cr operators spec = Some (Inl (problems_of utc cr operators spec))"
    | (cycle) ps where "problems_of utc cr operators spec = []"
      "build utc cr operators spec = Some (Inl [Cycle (map (\<lambda>p. ns_name (gs_nodes spec ! p)) ps)])"
      "cycle_path (edge (build_upstreams (gs_name spec) (gs_nodes spec)) (index_of spec)) ps"
      "\<not> acyclic (dependency_rel (gs_nodes spec))"
    | (built) "valid_spec utc cr operators spec"
      "build utc cr operators spec = Some (Inr (built_graph utc cr spec))"
proof (cases "problems_of utc cr operators spec = []")
  case False
  then show ?thesis by (intro faults) (simp_all add: build_eq)
next
  case True
  from find_cycle_build [OF True] show ?thesis
  proof (elim disjE exE conjE, goal_cases)
    case (1 ps)
    then show ?thesis using True by (intro cycle [of ps]) (simp_all add: build_eq)
  next
    case 2
    then show ?thesis using True problems_of_Nil [of utc cr operators spec]
      by (intro built) (simp_all add: build_eq)
  qed
qed

lemma build_accepts:
  "build utc cr operators spec = Some (Inr g) \<longleftrightarrow> valid_spec utc cr operators spec \<and> g = built_graph utc cr spec"
  by (cases utc cr operators spec rule: build_cases)
    (use problems_of_Nil [of utc cr operators spec] in auto)

lemma built_nodes:
  assumes "names_resolved (gs_nodes spec)"
  shows "length (gr_nodes (built_graph utc cr spec)) = length (gs_nodes spec)"
    and "i < length (gs_nodes spec) \<Longrightarrow> nd_spec (gr_nodes (built_graph utc cr spec) ! i) = gs_nodes spec ! i"
    and "i < length (gs_nodes spec) \<Longrightarrow>
       nd_upstreams (gr_nodes (built_graph utc cr spec) ! i) = build_upstreams (gs_name spec) (gs_nodes spec) ! i"
    and "i < length (gs_nodes spec) \<Longrightarrow>
       nd_downstreams (gr_nodes (built_graph utc cr spec) ! i) =
         (case bt_get (build_downstreams (gs_nodes spec) (build_upstreams (gs_name spec) (gs_nodes spec)))
            (ns_name (gs_nodes spec ! i)) of None \<Rightarrow> [] | Some d \<Rightarrow> d)"
  using assms by (simp_all add: built_graph_def Let_def assemble_map names_resolved_def)

lemma built_upstreams:
  assumes "names_resolved (gs_nodes spec)" and "n \<in> set (gr_nodes (built_graph utc cr spec))"
  shows "u \<in> set (nd_upstreams n) \<longleftrightarrow> depends (gs_nodes spec) (nd_spec n) u"
proof -
  obtain i where "i < length (gs_nodes spec)" "gr_nodes (built_graph utc cr spec) ! i = n"
    using assms(2) by (auto simp: in_set_conv_nth built_nodes [OF assms(1)])
  then show ?thesis
    using built_nodes(2,3) [OF assms(1), of i utc cr] build_upstreams_set [OF assms(1)] by simp
qed

lemma built_names:
  "names_resolved (gs_nodes spec) \<Longrightarrow> map nd_spec (gr_nodes (built_graph utc cr spec)) = gs_nodes spec"
  by (rule nth_equalityI) (simp_all add: built_nodes)

lemma built_upstream_rel:
  assumes "names_resolved (gs_nodes spec)"
  shows "upstream_rel (built_graph utc cr spec) = dependency_rel (gs_nodes spec)"
proof -
  have nodes: "set (gs_nodes spec) = nd_spec ` set (gr_nodes (built_graph utc cr spec))"
    using built_names [OF assms, of utc cr] by (metis set_map)
  show ?thesis
    using built_upstreams [OF assms, of _ utc cr]
    unfolding upstream_rel_def dependency_rel_def nodes node_name_def by blast
qed

lemma built_wf:
  assumes "valid_spec utc cr operators spec"
  shows "wf_graph (built_graph utc cr spec)"
proof -
  let ?g = "built_graph utc cr spec"
  note ok = valid_spec_names [OF assms]
  note nodes = built_nodes(2-) [OF ok, of _ utc cr] and len = built_nodes(1) [OF ok, of utc cr]
  have names: "graph_names ?g = map ns_name (gs_nodes spec)"
    by (rule nth_equalityI) (simp_all add: graph_names_def node_name_def len nodes(1))
  have distinct: "distinct (map ns_name (gs_nodes spec))" using ok by (simp add: names_resolved_def)
  have index: "bt_get (gr_index ?g) x =
      map_of (map (\<lambda>i. (graph_names ?g ! i, i)) [0..<length (gr_nodes ?g)]) x" for x
  proof -
    have "bt_get (index_of spec) x = Some i \<longleftrightarrow>
        map_of (map (\<lambda>i. (map ns_name (gs_nodes spec) ! i, i)) [0..<length (map ns_name (gs_nodes spec))]) x = Some i" for i
      unfolding map_of_positions [OF distinct] index_of_def build_index_positions [OF distinct] by auto
    then have "bt_get (index_of spec) x =
        map_of (map (\<lambda>i. (map ns_name (gs_nodes spec) ! i, i)) [0..<length (map ns_name (gs_nodes spec))]) x"
      by (metis not_Some_eq)
    then show ?thesis by (simp add: names len) (simp add: built_graph_def Let_def)
  qed
  have sorted: "sorted_wrt (<) (nd_upstreams (gr_nodes ?g ! i)) \<and> sorted_wrt (<) (nd_downstreams (gr_nodes ?g ! i))"
    if "i < length (gs_nodes spec)" for i
    using that by (simp add: nodes downstreams_sorted) (simp add: build_upstreams_def upstreams_of_sorted)
  have ups: "set (nd_upstreams n) \<subseteq> set (graph_names ?g)" if "n \<in> set (gr_nodes ?g)" for n
  proof
    fix u
    assume "u \<in> set (nd_upstreams n)"
    then have "depends (gs_nodes spec) (nd_spec n) u" using built_upstreams [OF ok that] by simp
    moreover have "nd_spec n \<in> set (gs_nodes spec)"
      using that built_names [OF ok, of utc cr] by (metis image_eqI set_map)
    ultimately show "u \<in> set (graph_names ?g)"
      using depends_name [OF names_resolvedD(2) [OF ok]] by (auto simp: names)
  qed
  have downs: "set (nd_downstreams (gr_nodes ?g ! i)) =
      {node_name m | m. m \<in> set (gr_nodes ?g) \<and> node_name (gr_nodes ?g ! i) \<in> set (nd_upstreams m)}"
    if i: "i < length (gs_nodes spec)" for i
  proof -
    have "set (nd_downstreams (gr_nodes ?g ! i)) =
        {ns_name (gs_nodes spec ! j) | j. j < length (gs_nodes spec) \<and>
          ns_name (gs_nodes spec ! i) \<in> set (build_upstreams (gs_name spec) (gs_nodes spec) ! j)}"
      by (simp add: nodes i downstreams_set)
    also have "\<dots> = {node_name (gr_nodes ?g ! j) | j. j < length (gs_nodes spec) \<and>
          node_name (gr_nodes ?g ! i) \<in> set (nd_upstreams (gr_nodes ?g ! j))}"
    proof (intro Collect_cong ex_cong1)
      fix x j
      show "(x = ns_name (gs_nodes spec ! j) \<and> j < length (gs_nodes spec) \<and>
            ns_name (gs_nodes spec ! i) \<in> set (build_upstreams (gs_name spec) (gs_nodes spec) ! j)) \<longleftrightarrow>
          (x = node_name (gr_nodes ?g ! j) \<and> j < length (gs_nodes spec) \<and>
            node_name (gr_nodes ?g ! i) \<in> set (nd_upstreams (gr_nodes ?g ! j)))"
        using i by (cases "j < length (gs_nodes spec)") (simp_all add: node_name_def nodes)
    qed
    also have "\<dots> = {node_name m | m. m \<in> set (gr_nodes ?g) \<and> node_name (gr_nodes ?g ! i) \<in> set (nd_upstreams m)}"
      unfolding in_set_conv_nth len by blast
    finally show ?thesis .
  qed
  have "acyclic (upstream_rel ?g)" using assms by (simp add: built_upstream_rel [OF ok] valid_spec_def)
  moreover have "\<forall>n \<in> set (gr_nodes ?g). sorted_wrt (<) (nd_upstreams n) \<and> sorted_wrt (<) (nd_downstreams n)"
    unfolding all_set_conv_all_nth len using sorted by blast
  moreover have "\<forall>n \<in> set (gr_nodes ?g). set (nd_downstreams n) =
      {node_name m | m. m \<in> set (gr_nodes ?g) \<and> node_name n \<in> set (nd_upstreams m)}"
    unfolding all_set_conv_all_nth len using downs by blast
  moreover have "distinct (graph_names ?g)" using distinct by (simp only: names)
  ultimately show ?thesis
    unfolding wf_graph_def using index ups by blast
qed

end
