(* ===== verification/Definition.thy ===== *)
theory Definition
  imports Graph_Build_Correct Duration
begin

section \<open>The definition file (\<open>definition.rs\<close>)\<close>

text \<open>
  The sections of a definition file and the conversion of a parsed file to a graph
  specification. The TOML parser and the SHA-256 digest are crates and parameters. The panic of
  the cycle search, \<open>None\<close> of \<open>build\<close>, does not occur (\<open>build_total\<close>), and \<open>load_str\<close> takes
  its value.
\<close>

datatype partition_field = DailyField | HourlyField | NoneField

datatype trigger_rule_field = AllSucceededField | AllDoneField | OneFailedField

record graph_section =
  gsec_name :: string
  gsec_schedule :: "string option"
  gsec_catchup :: "string option"
  gsec_partition :: partition_field

record node_section =
  nsec_name :: string
  nsec_produces :: "string option"
  nsec_consumes :: "string list"
  nsec_after :: "string list"
  nsec_trigger_rule :: "trigger_rule_field option"
  nsec_operator :: string
  nsec_pool :: string
  nsec_retries :: u32
  nsec_params :: toml_table
  nsec_each :: "string option"

record def_file =
  file_graph :: graph_section
  file_nodes :: "node_section list"

datatype load_error = IoError string | TomlError string | InvalidDefinition "problem list"

definition partitioning_of :: "partition_field \<Rightarrow> partitioning" where
  "partitioning_of f = (case f of DailyField \<Rightarrow> Daily | HourlyField \<Rightarrow> Hourly | NoneField \<Rightarrow> Unpartitioned)"

definition trigger_rule_of :: "trigger_rule_field \<Rightarrow> trigger_rule" where
  "trigger_rule_of f =
     (case f of AllSucceededField \<Rightarrow> AllSucceeded | AllDoneField \<Rightarrow> AllDone | OneFailedField \<Rightarrow> OneFailed)"

definition default_pool :: string where
  "default_pool = ''default''"

subsection \<open>The hash\<close>

definition hex_digit :: "nat \<Rightarrow> char" where
  "hex_digit d = (if d < 10 then char_of (48 + d) else char_of (87 + d))"

definition definition_hash :: "(bytes \<Rightarrow> nat list) \<Rightarrow> string \<Rightarrow> string" where
  "definition_hash sha256 t = concat (map (\<lambda>b. [hex_digit (b div 16), hex_digit (b mod 16)]) (sha256 t))"

subsection \<open>Loading\<close>

definition section_kind :: "node_section \<Rightarrow> node_kind \<times> problem list" where
  "section_kind s =
     (case nsec_produces s of
       Some asset \<Rightarrow>
         (AssetNode asset (nsec_consumes s),
          (if nsec_after s \<noteq> [] then [AssetNodeAfter (nsec_name s)] else []) @
          (if nsec_trigger_rule s \<noteq> None then [AssetNodeTriggerRule (nsec_name s)] else []))
     | None \<Rightarrow>
         (TaskNode (nsec_after s)
            (trigger_rule_of (case nsec_trigger_rule s of None \<Rightarrow> AllSucceededField | Some r \<Rightarrow> r)),
          if nsec_consumes s \<noteq> [] then [TaskNodeConsumes (nsec_name s)] else []))"

definition section_spec :: "node_section \<Rightarrow> node_spec" where
  "section_spec s =
     \<lparr>ns_name = nsec_name s, ns_kind = fst (section_kind s), ns_operator = nsec_operator s,
      ns_pool = nsec_pool s, ns_retries = nsec_retries s, ns_params = nsec_params s, ns_each = nsec_each s\<rparr>"

definition show_invalid_duration :: "invalid_duration \<Rightarrow> string" where
  "show_invalid_duration e =
     (case e of InvalidDuration t \<Rightarrow> ''`'' @ t @ ''` is not a duration such as `30s`, `5m`, `6h` or `7d`'')"

definition catchup_of :: "string option \<Rightarrow> nat option \<times> problem list" where
  "catchup_of o_text =
     (case o_text of
       None \<Rightarrow> (None, [])
     | Some t \<Rightarrow>
         (case parse_duration t of
           Inr d \<Rightarrow> (Some d, [])
         | Inl e \<Rightarrow> (None, [InvalidCatchup (show_invalid_duration e)])))"

definition file_spec :: "def_file \<Rightarrow> graph_spec" where
  "file_spec f =
     \<lparr>gs_name = gsec_name (file_graph f), gs_schedule = gsec_schedule (file_graph f),
      gs_catchup = fst (catchup_of (gsec_catchup (file_graph f))),
      gs_partitioning = partitioning_of (gsec_partition (file_graph f)),
      gs_nodes = map section_spec (file_nodes f)\<rparr>"

definition file_problems :: "def_file \<Rightarrow> problem list" where
  "file_problems f =
     snd (catchup_of (gsec_catchup (file_graph f))) @ concat (map (\<lambda>s. snd (section_kind s)) (file_nodes f))"

definition load_str ::
  "(string \<Rightarrow> string + def_file) \<Rightarrow> (nat \<Rightarrow> civil option) \<Rightarrow> 'x cron \<Rightarrow> 'r operator_set \<Rightarrow> string
     \<Rightarrow> load_error + 'x graph" where
  "load_str toml_parse utc cr operators t =
     (case toml_parse t of
       Inl message \<Rightarrow> Inl (TomlError message)
     | Inr f \<Rightarrow>
         (case the (build utc cr operators (file_spec f)) of
           Inr g \<Rightarrow> if file_problems f = [] then Inr g else Inl (InvalidDefinition (file_problems f))
         | Inl faults \<Rightarrow> Inl (InvalidDefinition (file_problems f @ faults))))"

definition load_path ::
  "(string \<Rightarrow> string + string) \<Rightarrow> (string \<Rightarrow> string + def_file) \<Rightarrow> (nat \<Rightarrow> civil option) \<Rightarrow> 'x cron
     \<Rightarrow> 'r operator_set \<Rightarrow> string \<Rightarrow> load_error + 'x graph" where
  "load_path read_to_string toml_parse utc cr operators path =
     (case read_to_string path of
       Inl message \<Rightarrow> Inl (IoError message)
     | Inr t \<Rightarrow> load_str toml_parse utc cr operators t)"

subsection \<open>What loads\<close>

lemma load_str_Inr:
  "load_str toml_parse utc cr operators t = Inr g \<longleftrightarrow>
     (\<exists>f. toml_parse t = Inr f \<and> file_problems f = [] \<and> valid_spec utc cr operators (file_spec f) \<and>
        g = built_graph utc cr (file_spec f))"
proof (cases "toml_parse t")
  case (Inr f)
  show ?thesis
    by (cases utc cr operators "file_spec f" rule: build_cases)
      (use Inr problems_of_Nil [of utc cr operators "file_spec f"] in \<open>auto simp: load_str_def\<close>)
qed (simp add: load_str_def)

lemma load_str_wf: "load_str toml_parse utc cr operators t = Inr g \<Longrightarrow> wf_graph g"
  by (auto simp: load_str_Inr intro: built_wf)

text \<open>The names of a graph that \<open>load_str\<close> returns, which the keys and the run ids rely on.\<close>

definition named_graph :: "'x graph \<Rightarrow> bool" where
  "named_graph g \<longleftrightarrow>
     is_name (gr_name g) \<and> gr_nodes g \<noteq> [] \<and>
     (\<forall>n \<in> set (gr_nodes g). is_name (node_name n) \<and>
        length (gr_name g) + length (node_name n) \<le> max_graph_and_node_name_len) \<and>
     (\<forall>n \<in> set (gr_nodes g). \<forall>a. node_asset n = Some a \<longrightarrow> is_name a)"

lemma valid_spec_named:
  assumes "valid_spec utc cr operators spec"
  shows "named_graph (built_graph utc cr spec)"
proof -
  note ok = valid_spec_names [OF assms]
  have specs: "nd_spec n \<in> set (gs_nodes spec)" if "n \<in> set (gr_nodes (built_graph utc cr spec))" for n
    using that built_names [OF ok, of utc cr] by (metis image_eqI set_map)
  have "is_name a" if "n \<in> set (gr_nodes (built_graph utc cr spec))" "node_asset n = Some a" for n a
  proof -
    have "asset_name_faults (nd_spec n) = []" using assms specs [OF that(1)] by (simp add: valid_spec_def)
    then show ?thesis
      using that(2) by (auto simp: asset_name_faults_def node_asset_def split: node_kind.splits if_splits)
  qed
  moreover have "gr_nodes (built_graph utc cr spec) \<noteq> []"
    using built_nodes(1) [OF ok, of utc cr] assms by (auto simp: valid_spec_def)
  moreover have "gr_name (built_graph utc cr spec) = gs_name spec"
    by (simp add: built_graph_def Let_def)
  moreover have "name_faults (gs_name spec) (node_name n) = []"
    if "n \<in> set (gr_nodes (built_graph utc cr spec))" for n
    using assms specs [OF that] by (simp add: valid_spec_def node_name_def)
  ultimately show ?thesis
    using assms by (simp add: named_graph_def name_faults_Nil valid_spec_def)
qed

lemma load_str_named: "load_str toml_parse utc cr operators t = Inr g \<Longrightarrow> named_graph g"
  by (auto simp: load_str_Inr intro: valid_spec_named)

lemma definition_hash_length:
  "length (sha256 t) = 32 \<Longrightarrow> length (definition_hash sha256 t) = 64"
proof -
  have "length (concat (map (\<lambda>b. [hex_digit (b div 16), hex_digit (b mod 16)]) bs)) = 2 * length bs" for bs
    by (induction bs) auto
  then show "length (sha256 t) = 32 \<Longrightarrow> length (definition_hash sha256 t) = 64"
    by (simp add: definition_hash_def)
qed

end
