(* ===== verification/Records.thy ===== *)
theory Records
  imports Graph
begin

section \<open>The records and their keys (\<open>records.rs\<close>)\<close>

text \<open>
  The records of the key-value store and the keys they are stored at. The JSON codec of a record
  is \<open>serde\<close>'s; the component that reads and writes a record takes it as a parameter. The locale
  \<open>key_codec\<close> is the contract of a textual format with its parser; it is interpreted on the graph
  keys, the run keys, the expiry suffixes, the request ids and the partition keys, and gives
  that two records never share a key.
\<close>

locale key_codec =
  fixes render :: "'a \<Rightarrow> 'k"
    and parse :: "'k \<Rightarrow> 'a option"
    and ok :: "'a \<Rightarrow> bool"
  assumes parse_render: "ok x \<Longrightarrow> parse (render x) = Some x"
begin

lemma render_eq_iff: "ok x \<Longrightarrow> ok y \<Longrightarrow> render x = render y \<longleftrightarrow> x = y"
  using parse_render by (metis option.inject)

lemma inj_on_render: "inj_on render {x. ok x}"
  by (simp add: inj_on_def render_eq_iff)

lemma parse_render_iff: "ok x \<Longrightarrow> ok y \<Longrightarrow> parse (render x) = Some y \<longleftrightarrow> x = y"
  by (simp add: parse_render)

lemma distinct_render: "\<forall>x \<in> set xs. ok x \<Longrightarrow> distinct (map render xs) \<longleftrightarrow> distinct xs"
  by (induction xs) (auto simp: render_eq_iff)

end

subsection \<open>Request ids (\<open>request.rs\<close>)\<close>

datatype request_id = RequestId (request_id_text: string)

datatype invalid_request_id = InvalidRequestId string

definition max_request_id_len :: nat where
  "max_request_id_len = 64"

definition request_id_byte :: "char \<Rightarrow> bool" where
  "request_id_byte b \<longleftrightarrow> is_ascii_alphanumeric b \<or> b = CHR ''_'' \<or> b = CHR ''-''"

definition request_id_new :: "string \<Rightarrow> invalid_request_id + request_id" where
  "request_id_new t =
     (let valid = t \<noteq> [] \<and> length t \<le> max_request_id_len \<and> list_all request_id_byte t
      in if valid then Inr (RequestId t) else Inl (InvalidRequestId t))"

datatype request =
    StartRequest (req_graph: string) (req_partitions: "partition list")
  | RerunRequest (req_graph: string) (req_partition: partition) (req_node: string)
  | CancelRequest (req_graph: string) (req_partition: partition)

subsection \<open>The records\<close>

datatype record_status = Succeeded | Failed | Cancelled

definition show_record_status :: "record_status \<Rightarrow> string" where
  "show_record_status s = (case s of Succeeded \<Rightarrow> ''succeeded'' | Failed \<Rightarrow> ''failed'' | Cancelled \<Rightarrow> ''cancelled'')"

text \<open>\<open>TerminalStatus\<close> of the workflow runtime.\<close>

datatype terminal_status = TerminalSucceeded | TerminalFailed | TerminalCancelled

definition record_status_of :: "terminal_status \<Rightarrow> record_status" where
  "record_status_of s =
     (case s of TerminalSucceeded \<Rightarrow> Succeeded | TerminalFailed \<Rightarrow> Failed | TerminalCancelled \<Rightarrow> Cancelled)"

record node_record =
  rec_status :: record_status
  rec_run_id :: string
  rec_definition :: string
  rec_rerun :: u32
  rec_terminated_at_ms :: nat
  rec_output :: "json option"
  rec_output_omitted :: bool
  rec_error :: "string option"

datatype graph_run_state = RunActive | RunCancelled | RunComplete | RunFailed

definition show_graph_run_state :: "graph_run_state \<Rightarrow> string" where
  "show_graph_run_state s =
     (case s of RunActive \<Rightarrow> ''active'' | RunCancelled \<Rightarrow> ''cancelled'' | RunComplete \<Rightarrow> ''complete'' | RunFailed \<Rightarrow> ''failed'')"

record graph_run_record =
  run_definition :: string
  run_requested_at_ms :: nat
  run_state :: graph_run_state
  run_settled_at_ms :: "nat option"
  run_expected_reruns :: "(string, u32) btree"

definition is_current :: "graph_run_record \<Rightarrow> string \<Rightarrow> node_record \<Rightarrow> bool" where
  "is_current run name r \<longleftrightarrow>
     (case bt_get (run_expected_reruns run) name of None \<Rightarrow> 0 | Some expected \<Rightarrow> expected) \<le> rec_rerun r"

record graph_record =
  adopted_definition :: string
  adopted_at_ms :: nat

datatype request_outcome =
    StartedOutcome "partition list"
  | RerunOutcome string
  | CancelledOutcome
  | RefusedOutcome string

record request_record =
  rr_request :: request
  rr_handled_at_ms :: nat
  rr_outcome :: request_outcome

subsection \<open>The keys\<close>

definition kv_prefix :: string where "kv_prefix = ''swale/''"
definition graphs_prefix :: string where "graphs_prefix = ''swale/graphs/''"
definition graph_runs_prefix :: string where "graph_runs_prefix = ''swale/runs/''"
definition requests_prefix :: string where "requests_prefix = ''swale/requests/''"
definition expiry_prefix :: string where "expiry_prefix = ''swale/expiry/''"

definition graph_key :: "string \<Rightarrow> bytes" where
  "graph_key graph = graphs_prefix @ graph"

definition parse_graph_key :: "bytes \<Rightarrow> string option" where
  "parse_graph_key key =
     (case from_utf8 key of
       None \<Rightarrow> None
     | Some t \<Rightarrow>
         (case strip_prefix graphs_prefix t of
           None \<Rightarrow> None
         | Some graph \<Rightarrow> if is_name graph then Some graph else None))"

definition graph_run_key :: "string \<Rightarrow> partition \<Rightarrow> bytes" where
  "graph_run_key graph p = graph_runs_prefix @ graph @ ''/'' @ as_str p"

text \<open>The text \<open>{graph}/{partition}\<close>, which a run key and a run's expiry entry end with.\<close>

definition parse_graph_partition :: "string \<Rightarrow> (string \<times> partition) option" where
  "parse_graph_partition rest =
     (case split_once (CHR ''/'') rest of
       None \<Rightarrow> None
     | Some (graph, p) \<Rightarrow>
         (case partition_new p of Inl e \<Rightarrow> None | Inr q \<Rightarrow> Some (graph, q)))"

definition parse_graph_run_key :: "bytes \<Rightarrow> (string \<times> partition) option" where
  "parse_graph_run_key key =
     (case from_utf8 key of
       None \<Rightarrow> None
     | Some t \<Rightarrow>
         (case strip_prefix graph_runs_prefix t of
           None \<Rightarrow> None
         | Some rest \<Rightarrow> parse_graph_partition rest))"

definition asset_key :: "string \<Rightarrow> partition \<Rightarrow> bytes" where
  "asset_key asset p = kv_prefix @ ''assets/'' @ asset @ ''/'' @ as_str p"

definition task_key :: "string \<Rightarrow> partition \<Rightarrow> string \<Rightarrow> bytes" where
  "task_key graph p name = kv_prefix @ ''tasks/'' @ graph @ ''/'' @ as_str p @ ''/'' @ name"

definition request_key :: "request_id \<Rightarrow> bytes" where
  "request_key i = requests_prefix @ request_id_text i"

definition record_key :: "string \<Rightarrow> partition \<Rightarrow> string \<Rightarrow> string option \<Rightarrow> bytes" where
  "record_key graph p name asset = (case asset of Some a \<Rightarrow> asset_key a p | None \<Rightarrow> task_key graph p name)"

definition node_record_key :: "string \<Rightarrow> partition \<Rightarrow> node \<Rightarrow> bytes" where
  "node_record_key graph p n = record_key graph p (node_name n) (node_asset n)"

datatype expiring = ExpiringRun string partition | ExpiringRequest request_id

definition expiring_suffix :: "expiring \<Rightarrow> bytes" where
  "expiring_suffix e =
     (case e of
       ExpiringRun graph p \<Rightarrow> ''runs/'' @ graph @ ''/'' @ as_str p
     | ExpiringRequest i \<Rightarrow> ''requests/'' @ request_id_text i)"

definition expiring_parse :: "bytes \<Rightarrow> expiring option" where
  "expiring_parse suffix =
     (case from_utf8 suffix of
       None \<Rightarrow> None
     | Some t \<Rightarrow>
         (case split_once (CHR ''/'') t of
           None \<Rightarrow> None
         | Some (kind, rest) \<Rightarrow>
             if kind = ''runs'' then map_option (\<lambda>(graph, p). ExpiringRun graph p) (parse_graph_partition rest)
             else if kind = ''requests'' then
               (case request_id_new rest of Inl e \<Rightarrow> None | Inr i \<Rightarrow> Some (ExpiringRequest i))
             else None))"

text \<open>The key of an entry of the expiry index is split by the index of \<open>taquba\<close>, a parameter.\<close>

definition parse_expiry_key :: "(bytes \<Rightarrow> (nat \<times> bytes) option) \<Rightarrow> bytes \<Rightarrow> (nat \<times> expiring) option" where
  "parse_expiry_key index_parse key =
     (case index_parse key of
       None \<Rightarrow> None
     | Some (time_ms, suffix) \<Rightarrow> map_option (Pair time_ms) (expiring_parse suffix))"

subsection \<open>The formats are codecs\<close>

lemma is_name_bytes: "is_name t \<Longrightarrow> c \<in> set t \<Longrightarrow> byte_val c < 128 \<and> c \<noteq> CHR ''/'' \<and> c \<noteq> CHR ''-''"
  by (auto simp: is_name_def name_byte_def list_all_iff char_class)

lemma partition_bytes: "partition_ok p \<Longrightarrow> c \<in> set (as_str p) \<Longrightarrow> byte_val c < 128 \<and> c \<noteq> CHR ''/'' \<and> c \<noteq> CHR ''-''"
  by (auto simp: partition_ok_iff partition_byte_def list_all_iff char_class)

definition request_id_ok :: "request_id \<Rightarrow> bool" where
  "request_id_ok i \<longleftrightarrow> request_id_new (request_id_text i) = Inr i"

lemma request_id_new_ok [wf_intros]: "request_id_new t = Inr i \<Longrightarrow> request_id_ok i \<and> request_id_text i = t"
  by (auto simp: request_id_new_def request_id_ok_def Let_def split: if_splits)

lemma request_id_bytes: "request_id_ok i \<Longrightarrow> c \<in> set (request_id_text i) \<Longrightarrow> byte_val c < 128 \<and> c \<noteq> CHR ''/''"
  by (auto simp: request_id_ok_def request_id_new_def request_id_byte_def list_all_iff char_class Let_def split: if_splits)

definition graph_partition_ok :: "string \<times> partition \<Rightarrow> bool" where
  "graph_partition_ok gp \<longleftrightarrow> is_name (fst gp) \<and> partition_ok (snd gp)"

fun expiring_ok :: "expiring \<Rightarrow> bool" where
  "expiring_ok (ExpiringRun graph p) \<longleftrightarrow> is_name graph \<and> partition_ok p"
| "expiring_ok (ExpiringRequest i) \<longleftrightarrow> request_id_ok i"

lemma parse_graph_partition_render [codec]:
  "is_name graph \<Longrightarrow> partition_ok p \<Longrightarrow> parse_graph_partition (graph @ CHR ''/'' # as_str p) = Some (graph, p)"
proof -
  assume "is_name graph" "partition_ok p"
  then have "CHR ''/'' \<notin> set graph" using is_name_bytes by blast
  with \<open>partition_ok p\<close> show ?thesis by (simp add: parse_graph_partition_def)
qed

interpretation graph_keys: key_codec graph_key parse_graph_key is_name
proof
  fix graph
  assume "is_name graph"
  then have "\<forall>c \<in> set (graph_key graph). byte_val c < 128"
    using is_name_bytes by (auto simp: graph_key_def graphs_prefix_def)
  with \<open>is_name graph\<close> show "parse_graph_key (graph_key graph) = Some graph"
    by (simp add: parse_graph_key_def) (simp add: graph_key_def)
qed

interpretation run_keys: key_codec "\<lambda>(graph, p). graph_run_key graph p" parse_graph_run_key graph_partition_ok
proof
  fix gp
  assume ok: "graph_partition_ok gp"
  obtain graph p where gp: "gp = (graph, p)" by (cases gp)
  have "\<forall>c \<in> set (graph_run_key graph p). byte_val c < 128"
    using ok is_name_bytes [of graph] partition_bytes [of p]
    by (auto simp: gp graph_partition_ok_def graph_run_key_def graph_runs_prefix_def)
  then show "parse_graph_run_key (case gp of (graph, p) \<Rightarrow> graph_run_key graph p) = Some gp"
    using ok by (simp add: gp parse_graph_run_key_def)
      (simp add: graph_run_key_def graph_partition_ok_def parse_graph_partition_render)
qed

interpretation request_ids: key_codec request_id_text "\<lambda>t. case request_id_new t of Inl e \<Rightarrow> None | Inr i \<Rightarrow> Some i" request_id_ok
  by standard (simp add: request_id_ok_def)

interpretation partitions: key_codec as_str "\<lambda>t. case partition_new t of Inl e \<Rightarrow> None | Inr p \<Rightarrow> Some p" partition_ok
  by standard simp

interpretation expiry_suffixes: key_codec expiring_suffix expiring_parse expiring_ok
proof
  fix e
  assume ok: "expiring_ok e"
  show "expiring_parse (expiring_suffix e) = Some e"
  proof (cases e)
    case (ExpiringRun graph p)
    then have "\<forall>c \<in> set (expiring_suffix e). byte_val c < 128"
      using ok is_name_bytes [of graph] partition_bytes [of p] by (auto simp: expiring_suffix_def)
    then have "expiring_parse (expiring_suffix e) =
        map_option (\<lambda>(graph, p). ExpiringRun graph p) (parse_graph_partition (graph @ CHR ''/'' # as_str p))"
      by (simp add: expiring_parse_def) (simp add: expiring_suffix_def ExpiringRun)
    then show ?thesis using ok ExpiringRun by (simp add: parse_graph_partition_render)
  next
    case (ExpiringRequest i)
    then have "\<forall>c \<in> set (expiring_suffix e). byte_val c < 128"
      using ok request_id_bytes [of i] by (auto simp: expiring_suffix_def)
    then have "expiring_parse (expiring_suffix e) =
        (case request_id_new (request_id_text i) of Inl e \<Rightarrow> None | Inr i \<Rightarrow> Some (ExpiringRequest i))"
      by (simp add: expiring_parse_def) (simp add: expiring_suffix_def ExpiringRequest)
    then show ?thesis using ok ExpiringRequest by (simp add: request_id_ok_def)
  qed
qed

subsection \<open>The keys of the records do not collide\<close>

lemma asset_key_eq_iff:
  assumes "is_name a" "is_name b" "partition_ok p" "partition_ok q"
  shows "asset_key a p = asset_key b q \<longleftrightarrow> a = b \<and> p = q"
proof
  assume "asset_key a p = asset_key b q"
  then have "parse_graph_partition (a @ CHR ''/'' # as_str p) = parse_graph_partition (b @ CHR ''/'' # as_str q)"
    by (simp add: asset_key_def)
  then show "a = b \<and> p = q" by (simp only: parse_graph_partition_render assms option.inject prod.inject)
qed simp

lemma task_key_eq_iff:
  assumes "is_name g" "is_name h" "partition_ok p" "partition_ok q"
  shows "task_key g p m = task_key h q n \<longleftrightarrow> g = h \<and> p = q \<and> m = n"
proof
  assume "task_key g p m = task_key h q n"
  then have eq: "g @ CHR ''/'' # as_str p @ CHR ''/'' # m = h @ CHR ''/'' # as_str q @ CHR ''/'' # n"
    by (simp add: task_key_def)
  have nosep: "CHR ''/'' \<notin> set g" "CHR ''/'' \<notin> set h" "CHR ''/'' \<notin> set (as_str p)" "CHR ''/'' \<notin> set (as_str q)"
    using assms is_name_bytes partition_bytes by blast+
  from arg_cong [OF eq, of "split_once (CHR ''/'')"] nosep
  have "g = h" and "as_str p @ CHR ''/'' # m = as_str q @ CHR ''/'' # n" by simp_all
  from arg_cong [OF this(2), of "split_once (CHR ''/'')"] nosep
  have "as_str p = as_str q" "m = n" by simp_all
  then show "g = h \<and> p = q \<and> m = n" using \<open>g = h\<close> assms partitions.render_eq_iff by blast
qed simp

lemma asset_key_task_key: "asset_key a p \<noteq> task_key g q n"
  by (simp add: asset_key_def task_key_def)

lemma run_key_record_key: "graph_run_key g p \<noteq> record_key h q n a"
  by (cases a) (simp_all add: record_key_def graph_run_key_def graph_runs_prefix_def asset_key_def task_key_def kv_prefix_def)

lemma request_key_run_key: "request_key i \<noteq> graph_run_key g p"
  by (simp add: request_key_def requests_prefix_def graph_run_key_def graph_runs_prefix_def)

lemma request_key_eq_iff: "request_key i = request_key j \<longleftrightarrow> i = j"
  by (cases i; cases j) (simp add: request_key_def)

lemma graph_key_run_key: "graph_key h \<noteq> graph_run_key g p"
  by (simp add: graph_key_def graphs_prefix_def graph_run_key_def graph_runs_prefix_def)

end
