(* ===== verification/Readiness.thy ===== *)
theory Readiness
  imports Records
begin

section \<open>The readiness rule (\<open>readiness.rs\<close>)\<close>

text \<open>
  When a node runs and when a graph run is finished. \<open>rerun_scope\<close> is a search along the
  downstream edges with a stack, whose top is the head of the list; \<open>None\<close> is the panic on a
  downstream name that is not a node. \<open>node_states\<close> is a loop of passes over the nodes that ends
  once every node has a state; \<open>None\<close> is a loop that does not end. Both are total on a
  well-formed graph (theory \<open>Readiness_Correct\<close>).
\<close>

datatype node_state = NodeSucceeded | NodeFailed | NodeCancelled | NodeReady | NodeWaiting | NodeBlocked

definition show_node_state :: "node_state \<Rightarrow> string" where
  "show_node_state s =
     (case s of
       NodeSucceeded \<Rightarrow> ''succeeded'' | NodeFailed \<Rightarrow> ''failed'' | NodeCancelled \<Rightarrow> ''cancelled''
     | NodeReady \<Rightarrow> ''ready'' | NodeWaiting \<Rightarrow> ''waiting'' | NodeBlocked \<Rightarrow> ''blocked'')"

definition is_open :: "node_state \<Rightarrow> bool" where
  "is_open s \<longleftrightarrow> s = NodeReady \<or> s = NodeWaiting"

definition node_state_of :: "record_status \<Rightarrow> node_state" where
  "node_state_of s =
     (case s of Succeeded \<Rightarrow> NodeSucceeded | Failed \<Rightarrow> NodeFailed | Cancelled \<Rightarrow> NodeCancelled)"

type_synonym records = "(string, node_record) btree"
type_synonym states = "(string, node_state) btree"

definition current_records :: "graph_run_record \<Rightarrow> records \<Rightarrow> records" where
  "current_records run records = filter (\<lambda>(name, r). is_current run name r) records"

subsection \<open>The scope of a rerun\<close>

fun scope_downstreams ::
  "'x graph \<Rightarrow> string list \<Rightarrow> string list \<Rightarrow> node list \<Rightarrow> (string list \<times> node list) option" where
  "scope_downstreams g [] scope pending = Some (scope, pending)"
| "scope_downstreams g (name # names) scope pending =
     (case graph_node g name of
       None \<Rightarrow> None
     | Some d \<Rightarrow>
         if node_trigger_rule d = AllSucceeded \<and> node_name d \<notin> set scope
         then scope_downstreams g names (bs_insert (node_name d) scope) (d # pending)
         else scope_downstreams g names scope pending)"

text \<open>The names a search can still reach: it inserts names of indexed nodes only.\<close>

definition unscoped :: "'x graph \<Rightarrow> string list \<Rightarrow> string set" where
  "unscoped g scope = (\<lambda>i. node_name (gr_nodes g ! i)) ` snd ` set (gr_index g) - set scope"

lemma finite_unscoped [simp]: "finite (unscoped g scope)"
  by (simp add: unscoped_def)

lemma scope_downstreams_measure:
  "scope_downstreams g names scope pending = Some (scope', pending') \<Longrightarrow>
     unscoped g scope' \<subseteq> unscoped g scope \<and>
     (scope' = scope \<and> pending' = pending \<or> card (unscoped g scope') < card (unscoped g scope))"
proof (induction g names scope pending rule: scope_downstreams.induct)
  case (2 g name names scope pending)
  from "2.prems" obtain d where d: "graph_node g name = Some d" by (auto split: option.splits)
  show ?case
  proof (cases "node_trigger_rule d = AllSucceeded \<and> node_name d \<notin> set scope")
    case True
    obtain i where "bt_get (gr_index g) name = Some i" "d = gr_nodes g ! i"
      using d by (auto simp: graph_node_def)
    then have mem: "node_name d \<in> unscoped g scope"
      using True bt_get_mem [of "gr_index g" name i] by (force simp: unscoped_def)
    have eq: "unscoped g (bs_insert (node_name d) scope) = unscoped g scope - {node_name d}"
      by (auto simp: unscoped_def)
    have less: "card (unscoped g (bs_insert (node_name d) scope)) < card (unscoped g scope)"
      unfolding eq using mem by (intro card_Diff1_less finite_unscoped)
    have sub: "unscoped g (bs_insert (node_name d) scope) \<subseteq> unscoped g scope" unfolding eq by blast
    from "2.IH"(1) [OF d True] "2.prems" d True
    have "unscoped g scope' \<subseteq> unscoped g (bs_insert (node_name d) scope)" by simp
    then have "card (unscoped g scope') \<le> card (unscoped g (bs_insert (node_name d) scope))"
      by (simp add: card_mono)
    with less sub \<open>unscoped g scope' \<subseteq> _\<close> show ?thesis by auto
  next
    case False
    with "2.IH"(2) [OF d False] "2.prems" d show ?thesis by auto
  qed
qed simp

function scope_loop :: "'x graph \<Rightarrow> string list \<Rightarrow> node list \<Rightarrow> string list option" where
  "scope_loop g scope [] = Some scope"
| "scope_loop g scope (current # pending) =
     (case scope_downstreams g (nd_downstreams current) scope pending of
       None \<Rightarrow> None
     | Some (scope', pending') \<Rightarrow> scope_loop g scope' pending')"
  by pat_completeness auto
termination
proof (relation "measures [\<lambda>(g, scope, pending). card (unscoped g scope), \<lambda>(g, scope, pending). length pending]", goal_cases)
  case (2 g scope current pending r scope' pending')
  then have "scope_downstreams g (nd_downstreams current) scope pending = Some (scope', pending')" by simp
  from scope_downstreams_measure [OF this] show ?case by auto
qed simp

definition rerun_scope :: "'x graph \<Rightarrow> node \<Rightarrow> node list option" where
  "rerun_scope g n =
     map_option (\<lambda>scope. filter (\<lambda>m. node_name m \<in> set scope) (gr_nodes g)) (scope_loop g [node_name n] [n])"

subsection \<open>The states of the nodes\<close>

definition recorded_status :: "records \<Rightarrow> string \<Rightarrow> record_status option" where
  "recorded_status records name = map_option rec_status (bt_get records name)"

definition is_ready :: "node \<Rightarrow> records \<Rightarrow> bool" where
  "is_ready n records =
     (case node_trigger_rule n of
       AllSucceeded \<Rightarrow> list_all (\<lambda>u. recorded_status records u = Some Succeeded) (nd_upstreams n)
     | AllDone \<Rightarrow> list_all (\<lambda>u. recorded_status records u \<noteq> None) (nd_upstreams n)
     | OneFailed \<Rightarrow> list_ex (\<lambda>u. recorded_status records u = Some Failed) (nd_upstreams n))"

definition can_become_ready :: "node \<Rightarrow> node_state list \<Rightarrow> bool" where
  "can_become_ready n upstreams =
     (case node_trigger_rule n of
       AllSucceeded \<Rightarrow> list_all (\<lambda>s. s = NodeSucceeded \<or> is_open s) upstreams
     | AllDone \<Rightarrow> list_all (\<lambda>s. s \<noteq> NodeBlocked) upstreams
     | OneFailed \<Rightarrow> list_ex is_open upstreams)"

definition states_visit :: "records \<Rightarrow> node \<Rightarrow> states \<Rightarrow> states" where
  "states_visit records n states =
     (if bt_get states (node_name n) \<noteq> None then states
      else case bt_get records (node_name n) of
        Some r \<Rightarrow> bt_insert (node_name n) (node_state_of (rec_status r)) states
      | None \<Rightarrow>
          (case those (map (bt_get states) (nd_upstreams n)) of
            None \<Rightarrow> states
          | Some upstreams \<Rightarrow>
              bt_insert (node_name n)
                (if is_ready n records then NodeReady
                 else if can_become_ready n upstreams then NodeWaiting
                 else NodeBlocked) states))"

definition states_pass :: "'x graph \<Rightarrow> records \<Rightarrow> states \<Rightarrow> states" where
  "states_pass g records states = fold (states_visit records) (gr_nodes g) states"

partial_function (option) states_loop :: "'x graph \<Rightarrow> records \<Rightarrow> states \<Rightarrow> states option" where
  "states_loop g records states =
     (if length states < length (gr_nodes g) then states_loop g records (states_pass g records states)
      else Some states)"

definition node_states :: "'x graph \<Rightarrow> records \<Rightarrow> states option" where
  "node_states g records = states_loop g records []"

definition settled_state :: "states \<Rightarrow> graph_run_state option" where
  "settled_state states =
     (if list_ex (\<lambda>(name, s). is_open s) states then None
      else if list_all (\<lambda>(name, s). s = NodeSucceeded) states then Some RunComplete
      else Some RunFailed)"

end
