(* ===== verification/Readiness_Correct.thy ===== *)
theory Readiness_Correct
  imports Readiness
begin

section \<open>The readiness rule is correct\<close>

text \<open>
  On a well-formed graph the passes end with one state for every node, and the states are the
  unique solution of the equation \<open>state_of_node\<close>. From it follow the facts the scheduler
  relies on: a run is settled exactly when no node is ready, and a blocked node stays blocked
  whatever records follow. The scope of a rerun is the reachable set of the all-succeeded edges.
\<close>

subsection \<open>The passes\<close>

text \<open>The state of a node from the states of its upstreams, when they are known.\<close>

definition state_of_node :: "records \<Rightarrow> states \<Rightarrow> node \<Rightarrow> node_state option" where
  "state_of_node records states n =
     (case bt_get records (node_name n) of
       Some r \<Rightarrow> Some (node_state_of (rec_status r))
     | None \<Rightarrow>
         map_option (\<lambda>upstreams.
           if is_ready n records then NodeReady
           else if can_become_ready n upstreams then NodeWaiting else NodeBlocked)
         (those (map (bt_get states) (nd_upstreams n))))"

lemma states_visit_eq:
  "states_visit records n states =
     (if bt_get states (node_name n) \<noteq> None then states
      else case state_of_node records states n of None \<Rightarrow> states | Some s \<Rightarrow> bt_insert (node_name n) s states)"
  by (auto simp: states_visit_def state_of_node_def split: option.splits)

lemma those_eq_Some: "those xs = Some ys \<longleftrightarrow> xs = map Some ys"
proof (induction xs arbitrary: ys)
  case (Cons x xs)
  show ?case by (cases x; cases ys) (auto simp: Cons.IH)
qed auto

lemma those_map_ex: "(\<exists>ys. those (map f xs) = Some ys) \<longleftrightarrow> (\<forall>x \<in> set xs. f x \<noteq> None)"
proof (induction xs)
  case (Cons x xs)
  then show ?case by (cases "f x") auto
qed simp

lemma those_map_mono:
  "those (map f xs) = Some ys \<Longrightarrow> f \<subseteq>\<^sub>m h \<Longrightarrow> those (map h xs) = Some ys"
  unfolding those_eq_Some
  by (induction xs arbitrary: ys) (auto simp: map_le_def dom_def)

lemma state_of_node_mono:
  "state_of_node records states n = Some s \<Longrightarrow> bt_get states \<subseteq>\<^sub>m bt_get states' \<Longrightarrow>
     state_of_node records states' n = Some s"
  by (auto simp: state_of_node_def split: option.splits dest: those_map_mono)

text \<open>The invariant: the states found so far solve the equation.\<close>

definition states_inv :: "'x graph \<Rightarrow> records \<Rightarrow> states \<Rightarrow> bool" where
  "states_inv g records states \<longleftrightarrow>
     bt_wf states \<and> dom (bt_get states) \<subseteq> set (graph_names g) \<and>
     (\<forall>n \<in> set (gr_nodes g). \<forall>s. bt_get states (node_name n) = Some s \<longrightarrow> state_of_node records states n = Some s)"

lemma states_inv_visit:
  assumes g: "wf_graph g" and inv: "states_inv g records states" and n: "n \<in> set (gr_nodes g)"
  shows "states_inv g records (states_visit records n states) \<and>
     bt_get states \<subseteq>\<^sub>m bt_get (states_visit records n states)"
proof (cases "bt_get states (node_name n) = None \<and> state_of_node records states n \<noteq> None")
  case False
  then have "states_visit records n states = states" by (auto simp: states_visit_eq split: option.splits)
  with inv show ?thesis by simp
next
  case True
  then obtain s where s: "state_of_node records states n = Some s" by blast
  with True have eq: "states_visit records n states = bt_insert (node_name n) s states"
    by (simp add: states_visit_eq)
  have le: "bt_get states \<subseteq>\<^sub>m bt_get (bt_insert (node_name n) s states)"
    using True by (auto simp: map_le_def)
  have "state_of_node records (bt_insert (node_name n) s states) m = Some t"
    if m: "m \<in> set (gr_nodes g)" "bt_get (bt_insert (node_name n) s states) (node_name m) = Some t" for m t
  proof (cases "node_name m = node_name n")
    case True
    then have "m = n" using graph_node_unique [OF g] m n by blast
    then show ?thesis using m(2) state_of_node_mono [OF s le] by simp
  next
    case False
    then have "bt_get states (node_name m) = Some t" using m(2) by simp
    then have "state_of_node records states m = Some t" using inv m(1) by (auto simp: states_inv_def)
    then show ?thesis using le by (rule state_of_node_mono)
  qed
  then have "states_inv g records (bt_insert (node_name n) s states)"
    using inv n by (auto simp: states_inv_def bt_insert_wf graph_names_def)
  with le show ?thesis unfolding eq by blast
qed

lemma states_inv_fold:
  assumes "wf_graph g"
  shows "states_inv g records states \<Longrightarrow> set ns \<subseteq> set (gr_nodes g) \<Longrightarrow>
     states_inv g records (fold (states_visit records) ns states) \<and>
     bt_get states \<subseteq>\<^sub>m bt_get (fold (states_visit records) ns states)"
proof (induction ns arbitrary: states)
  case (Cons n ns)
  from Cons.prems states_inv_visit [OF assms, of records states n]
  have "states_inv g records (states_visit records n states)"
    and "bt_get states \<subseteq>\<^sub>m bt_get (states_visit records n states)" by simp_all
  with Cons show ?case by (auto intro: map_le_trans)
qed simp

text \<open>A pass resolves a node whose upstreams are resolved, and the acyclic graph has one.\<close>

lemma fold_resolves:
  assumes "wf_graph g" and "states_inv g records states" and "set ns \<subseteq> set (gr_nodes g)"
    and n: "n \<in> set ns" and resolvable: "state_of_node records states n \<noteq> None"
  shows "bt_get (fold (states_visit records) ns states) (node_name n) \<noteq> None"
  using assms(2-)
proof (induction ns arbitrary: states)
  case (Cons m ns)
  let ?states = "states_visit records m states"
  have inv: "states_inv g records ?states" and le: "bt_get states \<subseteq>\<^sub>m bt_get ?states"
    using states_inv_visit [OF assms(1) Cons.prems(1), of m] Cons.prems(2) by simp_all
  have le': "bt_get ?states \<subseteq>\<^sub>m bt_get (fold (states_visit records) ns ?states)"
    using states_inv_fold [OF assms(1) inv, of ns] Cons.prems(2) by simp
  show ?case
  proof (cases "m = n")
    case True
    then have "bt_get ?states (node_name n) \<noteq> None"
      using Cons.prems(4) by (auto simp: states_visit_eq)
    with le' show ?thesis by (auto simp: map_le_def dom_def)
  next
    case False
    have "state_of_node records ?states n \<noteq> None"
      using Cons.prems(4) state_of_node_mono [OF _ le] by fastforce
    with False Cons inv show ?thesis by simp
  qed
qed simp

lemma pass_resolves:
  assumes g: "wf_graph g" and inv: "states_inv g records states"
    and missing: "dom (bt_get states) \<noteq> set (graph_names g)"
  shows "dom (bt_get states) \<subset> dom (bt_get (states_pass g records states))"
proof -
  have sub: "dom (bt_get states) \<subseteq> dom (bt_get (states_pass g records states))"
    using states_inv_fold [OF g inv, of "gr_nodes g"] by (auto simp: states_pass_def dest: map_le_implies_dom_le)
  show ?thesis
  proof (rule ccontr)
    assume "\<not> ?thesis"
    with sub have same: "dom (bt_get (states_pass g records states)) = dom (bt_get states)" by blast
    have "bt_get states (node_name n) \<noteq> None" if "n \<in> set (gr_nodes g)" for n
      using g that
    proof (induction rule: graph_induct)
      case (node n)
      have "\<forall>u \<in> set (nd_upstreams n). bt_get states u \<noteq> None"
      proof
        fix u
        assume u: "u \<in> set (nd_upstreams n)"
        then obtain m where "m \<in> set (gr_nodes g)" "node_name m = u"
          using wf_graph_upstream [OF g node(1) u] by (auto simp: graph_names_def)
        with node(2) [of m] u show "bt_get states u \<noteq> None" by simp
      qed
      then have "state_of_node records states n \<noteq> None"
        unfolding those_map_ex [symmetric] by (auto simp: state_of_node_def split: option.split)
      then have "node_name n \<in> dom (bt_get (states_pass g records states))"
        using fold_resolves [OF g inv _ node(1)] by (auto simp: states_pass_def)
      then show ?case by (simp add: same domIff)
    qed
    then have "set (graph_names g) \<subseteq> dom (bt_get states)" by (auto simp: graph_names_def domIff)
    with inv missing show False by (auto simp: states_inv_def)
  qed
qed

lemma length_states: "bt_wf states \<Longrightarrow> length states = card (dom (bt_get states))"
  using bt.distinct_keys [of states] bt.set_keys [of states] distinct_card [of "bt_keys states"]
  by (simp add: bt_keys_def)

lemma length_nodes: "wf_graph g \<Longrightarrow> length (gr_nodes g) = card (set (graph_names g))"
  using distinct_card [OF wf_graph_distinct, of g] by (simp add: graph_names_def)

lemma states_loop_total:
  assumes g: "wf_graph g"
  shows "states_inv g records states \<Longrightarrow>
     \<exists>states'. states_loop g records states = Some states' \<and> states_inv g records states' \<and>
       dom (bt_get states') = set (graph_names g)"
proof (induction "card (set (graph_names g)) - card (dom (bt_get states))" arbitrary: states rule: less_induct)
  case less
  have wf: "bt_wf states" and sub: "dom (bt_get states) \<subseteq> set (graph_names g)"
    using less.prems by (simp_all add: states_inv_def)
  show ?case
  proof (cases "dom (bt_get states) = set (graph_names g)")
    case True
    then have "states_loop g records states = Some states"
      using length_states [OF wf] length_nodes [OF g] by (simp add: states_loop.simps [of g records states])
    with True less.prems show ?thesis by blast
  next
    case False
    then have lt: "card (dom (bt_get states)) < card (set (graph_names g))"
      using sub by (intro psubset_card_mono) auto
    then have step: "states_loop g records states = states_loop g records (states_pass g records states)"
      using length_states [OF wf] length_nodes [OF g] by (simp add: states_loop.simps [of g records states])
    have inv: "states_inv g records (states_pass g records states)"
      using states_inv_fold [OF g less.prems, of "gr_nodes g"] by (simp add: states_pass_def)
    then have "finite (dom (bt_get (states_pass g records states)))"
      by (auto simp: states_inv_def intro: finite_subset)
    then have "card (dom (bt_get states)) < card (dom (bt_get (states_pass g records states)))"
      using pass_resolves [OF g less.prems False] by (intro psubset_card_mono)
    with lt have "card (set (graph_names g)) - card (dom (bt_get (states_pass g records states)))
        < card (set (graph_names g)) - card (dom (bt_get states))" by simp
    from less.hyps [OF this inv] show ?thesis unfolding step .
  qed
qed

lemma node_states_total:
  assumes "wf_graph g"
  obtains states where "node_states g records = Some states" "states_inv g records states"
    "dom (bt_get states) = set (graph_names g)"
proof -
  have "states_inv g records []" by (auto simp: states_inv_def dom_def)
  from states_loop_total [OF assms this] that show ?thesis by (auto simp: node_states_def)
qed

subsection \<open>The equation of the states\<close>

lemma node_states_eq:
  assumes g: "wf_graph g" and states: "node_states g records = Some states" and n: "n \<in> set (gr_nodes g)"
  obtains s where "bt_get states (node_name n) = Some s" "state_of_node records states n = Some s"
    "set (nd_upstreams n) \<subseteq> dom (bt_get states)"
proof -
  obtain states' where st: "node_states g records = Some states'" and inv: "states_inv g records states'"
    and dom: "dom (bt_get states') = set (graph_names g)"
    by (rule node_states_total [OF g])
  then have eq: "states' = states" using states by simp
  have "node_name n \<in> dom (bt_get states)" using n dom by (simp add: graph_names_def eq)
  then obtain s where s: "bt_get states (node_name n) = Some s" by blast
  show thesis
    using that [OF s] inv n s wf_graph_upstream [OF g n] dom unfolding states_inv_def eq by blast
qed

lemma node_states_dom:
  assumes "wf_graph g" "node_states g records = Some states"
  shows "dom (bt_get states) = set (graph_names g)" and "bt_wf states"
  using node_states_total [OF assms(1), of records] assms(2) by (auto simp: states_inv_def)

text \<open>The state of a node, read off a node map, and the state of an upstream.\<close>

definition state_at :: "states \<Rightarrow> string \<Rightarrow> node_state" where
  "state_at states name = (case bt_get states name of Some s \<Rightarrow> s | None \<Rightarrow> NodeBlocked)"

lemma node_states_cases:
  assumes g: "wf_graph g" and states: "node_states g records = Some states" and n: "n \<in> set (gr_nodes g)"
  shows "state_at states (node_name n) =
     (case bt_get records (node_name n) of
       Some r \<Rightarrow> node_state_of (rec_status r)
     | None \<Rightarrow> if is_ready n records then NodeReady
         else if can_become_ready n (map (state_at states) (nd_upstreams n)) then NodeWaiting
         else NodeBlocked)"
proof -
  obtain s where s: "bt_get states (node_name n) = Some s" "state_of_node records states n = Some s"
    and ups: "set (nd_upstreams n) \<subseteq> dom (bt_get states)"
    using node_states_eq [OF g states n] by blast
  have "those (map (bt_get states) (nd_upstreams n)) = Some (map (state_at states) (nd_upstreams n))"
    using ups unfolding those_eq_Some by (auto simp: state_at_def)
  with s show ?thesis by (auto simp: state_at_def state_of_node_def split: option.splits)
qed

lemma state_at_record:
  assumes "wf_graph g" "node_states g records = Some states" "n \<in> set (gr_nodes g)"
  shows "state_at states (node_name n) = NodeSucceeded \<longleftrightarrow> recorded_status records (node_name n) = Some Succeeded"
    and "state_at states (node_name n) = NodeFailed \<longleftrightarrow> recorded_status records (node_name n) = Some Failed"
    and "state_at states (node_name n) = NodeCancelled \<longleftrightarrow> recorded_status records (node_name n) = Some Cancelled"
    and "state_at states (node_name n) \<in> {NodeReady, NodeWaiting, NodeBlocked} \<longleftrightarrow> recorded_status records (node_name n) = None"
    and "state_at states (node_name n) = NodeReady \<longleftrightarrow> recorded_status records (node_name n) = None \<and> is_ready n records"
  unfolding node_states_cases [OF assms]
  by (auto simp: recorded_status_def node_state_of_def split: option.splits record_status.splits)

lemma upstream_node:
  assumes "wf_graph g" "n \<in> set (gr_nodes g)" "u \<in> set (nd_upstreams n)"
  obtains m where "m \<in> set (gr_nodes g)" "node_name m = u"
  using wf_graph_upstream [OF assms] by (auto simp: graph_names_def)

text \<open>An open node has a ready node among itself and the nodes above it.\<close>

lemma open_ready:
  assumes g: "wf_graph g" and states: "node_states g records = Some states" and n: "n \<in> set (gr_nodes g)"
    and op: "is_open (state_at states (node_name n))"
  shows "\<exists>m \<in> set (gr_nodes g). state_at states (node_name m) = NodeReady"
  using g n op
proof (induction rule: graph_induct)
  case (node n)
  show ?case
  proof (cases "state_at states (node_name n) = NodeReady")
    case False
    then have waiting: "state_at states (node_name n) = NodeWaiting" using node.prems by (simp add: is_open_def)
    then have norec: "bt_get records (node_name n) = None" and notready: "\<not> is_ready n records"
      and can: "can_become_ready n (map (state_at states) (nd_upstreams n))"
      using node_states_cases [OF g states node(1)]
      by (auto simp: node_state_of_def split: option.splits record_status.splits if_splits)
    have "\<exists>u \<in> set (nd_upstreams n). is_open (state_at states u)"
    proof (cases "node_trigger_rule n")
      case AllSucceeded
      with notready obtain u where u: "u \<in> set (nd_upstreams n)" "recorded_status records u \<noteq> Some Succeeded"
        by (auto simp: is_ready_def list_all_iff)
      obtain m where "m \<in> set (gr_nodes g)" "node_name m = u" using upstream_node [OF g node(1) u(1)] .
      then have "state_at states u \<noteq> NodeSucceeded" using state_at_record(1) [OF g states, of m] u(2) by auto
      with can AllSucceeded u(1) show ?thesis by (auto simp: can_become_ready_def list_all_iff)
    next
      case AllDone
      with notready obtain u where u: "u \<in> set (nd_upstreams n)" "recorded_status records u = None"
        by (auto simp: is_ready_def list_all_iff)
      obtain m where "m \<in> set (gr_nodes g)" "node_name m = u" using upstream_node [OF g node(1) u(1)] .
      then have "state_at states u \<in> {NodeReady, NodeWaiting, NodeBlocked}"
        using state_at_record(4) [OF g states, of m] u(2) by auto
      with can AllDone u(1) show ?thesis by (auto simp: can_become_ready_def list_all_iff is_open_def)
    next
      case OneFailed
      with can show ?thesis by (auto simp: can_become_ready_def list_ex_iff)
    qed
    then obtain u where u: "u \<in> set (nd_upstreams n)" "is_open (state_at states u)" by blast
    obtain m where "m \<in> set (gr_nodes g)" "node_name m = u" using upstream_node [OF g node(1) u(1)] .
    with node.IH [of m] u show ?thesis by simp
  qed (use node in blast)
qed

lemma states_entries:
  assumes "wf_graph g" "node_states g records = Some states"
  shows "(name, s) \<in> set states \<longleftrightarrow> (\<exists>n \<in> set (gr_nodes g). node_name n = name \<and> state_at states name = s)"
proof -
  have "(name, s) \<in> set states \<longleftrightarrow> bt_get states name = Some s"
    using bt_wf_get [OF node_states_dom(2) [OF assms]] by simp
  moreover have "bt_get states name \<noteq> None \<longleftrightarrow> (\<exists>n \<in> set (gr_nodes g). node_name n = name)"
    unfolding domIff [symmetric] node_states_dom(1) [OF assms] by (auto simp: graph_names_def)
  ultimately show ?thesis by (auto simp: state_at_def split: option.splits)
qed

lemma ball_states:
  assumes "wf_graph g" "node_states g records = Some states"
  shows "list_all (\<lambda>(name, s). P s) states \<longleftrightarrow> (\<forall>n \<in> set (gr_nodes g). P (state_at states (node_name n)))"
proof -
  have "list_all (\<lambda>(name, s). P s) states \<longleftrightarrow> (\<forall>name s. (name, s) \<in> set states \<longrightarrow> P s)"
    by (auto simp: list_all_iff)
  then show ?thesis by (auto simp: states_entries [OF assms])
qed

lemma bex_states:
  assumes "wf_graph g" "node_states g records = Some states"
  shows "list_ex (\<lambda>(name, s). P s) states \<longleftrightarrow> (\<exists>n \<in> set (gr_nodes g). P (state_at states (node_name n)))"
  using ball_states [OF assms, of "\<lambda>s. \<not> P s"] by (auto simp: list_all_iff list_ex_iff)

lemma settled_state_None:
  assumes g: "wf_graph g" and states: "node_states g records = Some states"
  shows "settled_state states = None \<longleftrightarrow> (\<exists>n \<in> set (gr_nodes g). state_at states (node_name n) = NodeReady)"
proof -
  have "settled_state states = None \<longleftrightarrow> (\<exists>n \<in> set (gr_nodes g). is_open (state_at states (node_name n)))"
    by (simp add: settled_state_def bex_states [OF assms])
  then show ?thesis using open_ready [OF assms] by (auto simp: is_open_def)
qed

lemma settled_state_Complete:
  assumes g: "wf_graph g" and states: "node_states g records = Some states"
  shows "settled_state states = Some RunComplete \<longleftrightarrow>
     (\<forall>n \<in> set (gr_nodes g). recorded_status records (node_name n) = Some Succeeded)"
proof -
  have "settled_state states = Some RunComplete \<longleftrightarrow>
      (\<forall>n \<in> set (gr_nodes g). state_at states (node_name n) = NodeSucceeded)"
    by (auto simp: settled_state_def bex_states [OF assms] ball_states [OF assms] is_open_def)
  then show ?thesis using state_at_record(1) [OF assms] by simp
qed

subsection \<open>A blocked node stays blocked\<close>

text \<open>
  The records of a run grow by the record of a node that was not blocked, because only a ready
  node runs. However they grow, a blocked node does not become ready.
\<close>

definition records_extend :: "states \<Rightarrow> records \<Rightarrow> records \<Rightarrow> bool" where
  "records_extend states records records' \<longleftrightarrow>
     bt_get records \<subseteq>\<^sub>m bt_get records' \<and>
     (\<forall>name. bt_get records name = None \<longrightarrow> bt_get records' name \<noteq> None \<longrightarrow> state_at states name \<noteq> NodeBlocked)"

lemma records_extend_status:
  "records_extend states records records' \<Longrightarrow> recorded_status records name = Some s \<Longrightarrow>
     recorded_status records' name = Some s"
  by (auto simp: records_extend_def recorded_status_def map_le_def dom_def)

lemma blocked_stable_at:
  assumes g: "wf_graph g" and states: "node_states g records = Some states"
    and states': "node_states g records' = Some states'" and ext: "records_extend states records records'"
    and n: "n \<in> set (gr_nodes g)" and blocked: "state_at states (node_name n) = NodeBlocked"
  shows "state_at states' (node_name n) = NodeBlocked"
  using g n blocked
proof (induction rule: graph_induct)
  case (node n)
  have norec: "bt_get records (node_name n) = None" and notready: "\<not> is_ready n records"
    and cannot: "\<not> can_become_ready n (map (state_at states) (nd_upstreams n))"
    using node.prems node_states_cases [OF g states node(1)]
    by (auto simp: node_state_of_def split: option.splits record_status.splits if_splits)
  have norec': "bt_get records' (node_name n) = None"
    using ext norec node.prems unfolding records_extend_def by blast
  have up: "\<exists>m \<in> set (gr_nodes g). node_name m = u \<and> (state_at states u = NodeBlocked \<longrightarrow> state_at states' u = NodeBlocked)"
    if "u \<in> set (nd_upstreams n)" for u
    using upstream_node [OF g node(1) that] node.IH that by metis
  have kept: "recorded_status records' u = recorded_status records u \<or> is_open (state_at states u)"
    and blocked: "state_at states u = NodeBlocked \<Longrightarrow> state_at states' u = NodeBlocked \<and> recorded_status records' u = None"
    and closed: "\<not> is_open (state_at states u) \<Longrightarrow> state_at states' u = state_at states u"
    if u: "u \<in> set (nd_upstreams n)" for u
  proof -
    obtain m where m: "m \<in> set (gr_nodes g)" "node_name m = u" using up [OF u] by blast
    note old = state_at_record [OF g states m(1), unfolded m(2)] and new = state_at_record [OF g states' m(1), unfolded m(2)]
    show b: "state_at states u = NodeBlocked \<Longrightarrow> state_at states' u = NodeBlocked \<and> recorded_status records' u = None"
      using up [OF u] new by auto
    show "recorded_status records' u = recorded_status records u \<or> is_open (state_at states u)"
      using records_extend_status [OF ext, of u] b old(4)
      by (cases "state_at states u"; cases "recorded_status records u") (auto simp: is_open_def)
    show "\<not> is_open (state_at states u) \<Longrightarrow> state_at states' u = state_at states u"
      using records_extend_status [OF ext, of u] b old new by (cases "state_at states u") (auto simp: is_open_def)
  qed
  have "\<not> is_ready n records' \<and> \<not> can_become_ready n (map (state_at states') (nd_upstreams n))"
  proof (cases "node_trigger_rule n")
    case AllSucceeded
    with cannot obtain u where u: "u \<in> set (nd_upstreams n)" "state_at states u \<noteq> NodeSucceeded" "\<not> is_open (state_at states u)"
      by (auto simp: can_become_ready_def list_all_iff)
    obtain m where m: "m \<in> set (gr_nodes g)" "node_name m = u" using up [OF u(1)] by blast
    have "state_at states' u \<noteq> NodeSucceeded" "\<not> is_open (state_at states' u)" using closed u by auto
    moreover from this have "recorded_status records' u \<noteq> Some Succeeded"
      using state_at_record(1) [OF g states' m(1)] m(2) by simp
    ultimately show ?thesis using AllSucceeded u(1) by (auto simp: is_ready_def can_become_ready_def list_all_iff)
  next
    case AllDone
    with cannot obtain u where u: "u \<in> set (nd_upstreams n)" "state_at states u = NodeBlocked"
      by (auto simp: can_become_ready_def list_all_iff)
    then show ?thesis using AllDone blocked by (auto simp: is_ready_def can_become_ready_def list_all_iff)
  next
    case OneFailed
    with cannot have ups: "\<And>u. u \<in> set (nd_upstreams n) \<Longrightarrow> \<not> is_open (state_at states u)"
      by (auto simp: can_become_ready_def list_ex_iff)
    then have "\<And>u. u \<in> set (nd_upstreams n) \<Longrightarrow> recorded_status records' u = recorded_status records u"
      using kept by blast
    with notready OneFailed ups closed show ?thesis
      by (auto simp: is_ready_def can_become_ready_def list_ex_iff)
  qed
  with norec' show ?case using node_states_cases [OF g states' node(1)] by simp
qed

subsection \<open>The scope of a rerun is the reachable set\<close>

definition scope_edge :: "'x graph \<Rightarrow> (string \<times> string) set" where
  "scope_edge g =
     {(node_name n, node_name m) | n m. n \<in> set (gr_nodes g) \<and> m \<in> set (gr_nodes g) \<and>
        node_name m \<in> set (nd_downstreams n) \<and> node_trigger_rule m = AllSucceeded}"

definition reached_by :: "'x graph \<Rightarrow> string list \<Rightarrow> string set" where
  "reached_by g names = {node_name m | m. m \<in> set (gr_nodes g) \<and> node_name m \<in> set names \<and> node_trigger_rule m = AllSucceeded}"

lemma reached_by_iff:
  "wf_graph g \<Longrightarrow> x \<in> reached_by g names \<longleftrightarrow>
     x \<in> set names \<and> (\<exists>m. graph_node g x = Some m \<and> node_trigger_rule m = AllSucceeded)"
  by (auto simp: reached_by_def graph_node_iff)

lemma scope_downstreams_ok:
  assumes g: "wf_graph g"
  shows "set names \<subseteq> set (graph_names g) \<Longrightarrow> set pending \<subseteq> set (gr_nodes g) \<Longrightarrow>
     \<exists>scope' pending'. scope_downstreams g names scope pending = Some (scope', pending') \<and>
       set scope' = set scope \<union> reached_by g names \<and> set pending' \<subseteq> set (gr_nodes g) \<and>
       node_name ` set pending' = node_name ` set pending \<union> (reached_by g names - set scope)"
proof (induction names arbitrary: scope pending)
  case Nil
  then show ?case by (auto simp: reached_by_def)
next
  case (Cons name names)
  then obtain d where d: "d \<in> set (gr_nodes g)" "node_name d = name" by (auto simp: graph_names_def)
  then have look: "graph_node g name = Some d" using g by (simp add: graph_node_iff)
  have reached: "reached_by g (name # names) =
      (if node_trigger_rule d = AllSucceeded then {name} else {}) \<union> reached_by g names"
    by (rule set_eqI) (auto simp: reached_by_iff [OF g] look)
  show ?case
  proof (cases "node_trigger_rule d = AllSucceeded \<and> node_name d \<notin> set scope")
    case True
    have pend: "set (d # pending) \<subseteq> set (gr_nodes g)" using Cons.prems d(1) by simp
    have names: "set names \<subseteq> set (graph_names g)" using Cons.prems by simp
    obtain s p where sp: "scope_downstreams g names (bs_insert name scope) (d # pending) = Some (s, p)"
      "set s = set (bs_insert name scope) \<union> reached_by g names" "set p \<subseteq> set (gr_nodes g)"
      "node_name ` set p = node_name ` set (d # pending) \<union> (reached_by g names - set (bs_insert name scope))"
      using Cons.IH [OF names pend, of "bs_insert name scope"] by blast
    have eq: "scope_downstreams g (name # names) scope pending = Some (s, p)"
      using True look d(2) sp(1) by simp
    have "set s = set scope \<union> reached_by g (name # names)"
      using True by (simp add: sp(2) reached)
    moreover have "node_name ` set p = node_name ` set pending \<union> (reached_by g (name # names) - set scope)"
      using True d(2) by (auto simp: sp(4) reached)
    ultimately show ?thesis using eq sp(3) by blast
  next
    case False
    with Cons.IH [of pending scope] Cons.prems d look show ?thesis
      by (auto simp: reached split: if_splits)
  qed
qed

lemma scope_edge_reached:
  assumes "wf_graph g" "n \<in> set (gr_nodes g)"
  shows "(node_name n, b) \<in> scope_edge g \<longleftrightarrow> b \<in> reached_by g (nd_downstreams n)"
  using graph_node_unique [OF assms(1) _ assms(2)] assms(2) by (auto simp: scope_edge_def reached_by_def)

lemma scope_loop_ok:
  "wf_graph g \<Longrightarrow> set pending \<subseteq> set (gr_nodes g) \<Longrightarrow> node_name ` set pending \<subseteq> set scope \<Longrightarrow>
     \<forall>a b. a \<in> set scope \<longrightarrow> (a, b) \<in> scope_edge g \<longrightarrow> b \<in> set scope \<or> a \<in> node_name ` set pending \<Longrightarrow>
     \<exists>scope'. scope_loop g scope pending = Some scope' \<and> set scope' = (scope_edge g)\<^sup>* `` set scope"
proof (induction g scope pending rule: scope_loop.induct)
  case (1 g scope)
  have "b \<in> set scope" if "(a, b) \<in> (scope_edge g)\<^sup>*" "a \<in> set scope" for a b
    using that by (induction rule: rtrancl_induct) (use 1 in auto)
  then show ?case by (auto simp: Image_def)
next
  case (2 g scope current pending)
  note g = "2.prems"(1)
  let ?R = "reached_by g (nd_downstreams current)"
  have current: "current \<in> set (gr_nodes g)" using "2.prems" by simp
  have downs: "set (nd_downstreams current) \<subseteq> set (graph_names g)"
    using wf_graph_downstream [OF g current] by (auto simp: graph_names_def)
  obtain scope' pending' where eq: "scope_downstreams g (nd_downstreams current) scope pending = Some (scope', pending')"
    and scope': "set scope' = set scope \<union> ?R" and sub: "set pending' \<subseteq> set (gr_nodes g)"
    and pending': "node_name ` set pending' = node_name ` set pending \<union> (?R - set scope)"
    using scope_downstreams_ok [OF g downs, of pending scope] "2.prems"(2) by auto
  have closed: "b \<in> set scope' \<or> a \<in> node_name ` set pending'"
    if "a \<in> set scope'" "(a, b) \<in> scope_edge g" for a b
  proof (cases "a \<in> set scope \<and> a \<noteq> node_name current")
    case True
    then show ?thesis using that "2.prems"(4) scope' pending' by auto
  next
    case False
    then show ?thesis using that scope_edge_reached [OF g current] scope' pending' by auto
  qed
  have names: "node_name ` set pending' \<subseteq> set scope'" using "2.prems"(3) scope' pending' by auto
  have "?R \<subseteq> scope_edge g `` set scope"
    using scope_edge_reached [OF g current] "2.prems"(3) by auto
  then have same: "(scope_edge g)\<^sup>* `` set scope' = (scope_edge g)\<^sup>* `` set scope"
    unfolding scope' by (auto intro: converse_rtrancl_into_rtrancl)
  show ?case
    using "2.IH" [OF eq refl g sub names] closed same by (simp add: eq)
qed

lemma rerun_scope_reach:
  assumes g: "wf_graph g" and n: "n \<in> set (gr_nodes g)"
  shows "rerun_scope g n =
     Some (filter (\<lambda>m. (node_name n, node_name m) \<in> (scope_edge g)\<^sup>*) (gr_nodes g))"
proof -
  obtain scope' where "scope_loop g [node_name n] [n] = Some scope'" "set scope' = (scope_edge g)\<^sup>* `` {node_name n}"
    using scope_loop_ok [OF g, of "[n]" "[node_name n]"] n by auto
  then show ?thesis by (simp add: rerun_scope_def)
qed

end
