(* ===== verification/Task.thy ===== *)
theory Task
  imports Records
begin

section \<open>Task identities (\<open>task.rs\<close>)\<close>

text \<open>
  The graph, the partition, the node and the rerun count of a task instance, with its run id and
  its \<open>swale.\<close> headers. A run id is its text; that every text is within the limit of the workflow
  runtime is \<open>run_id_bounded\<close>. Headers are a hash map, a partial function.
\<close>

definition header_graph :: string where "header_graph = ''swale.graph''"
definition header_partition :: string where "header_partition = ''swale.partition''"
definition header_node :: string where "header_node = ''swale.node''"
definition header_asset :: string where "header_asset = ''swale.asset''"
definition header_definition :: string where "header_definition = ''swale.definition''"
definition header_rerun :: string where "header_rerun = ''swale.rerun''"
definition header_group :: string where "header_group = ''swale.group''"

lemmas header_defs = header_graph_def header_partition_def header_node_def header_asset_def
  header_definition_def header_rerun_def header_group_def

record task_identity =
  ti_graph :: string
  ti_partition :: partition
  ti_node :: string
  ti_asset :: "string option"
  ti_definition :: string
  ti_rerun :: u32

datatype identity_error = MissingHeader string | PartitionHeader invalid_partition | RerunHeader string

definition run_id :: "string \<Rightarrow> partition \<Rightarrow> string \<Rightarrow> u32 \<Rightarrow> string" where
  "run_id graph p name rerun = graph @ ''-'' @ as_str p @ ''-'' @ name @ ''-r'' @ show_u32 rerun"

definition group_id :: "string \<Rightarrow> partition \<Rightarrow> string \<Rightarrow> string" where
  "group_id graph p name = graph @ ''-'' @ as_str p @ ''-'' @ name"

definition unrecorded_run_id ::
  "'x graph \<Rightarrow> partition \<Rightarrow> graph_run_record \<Rightarrow> node \<Rightarrow> (string, node_record) btree \<Rightarrow> string option" where
  "unrecorded_run_id g p run n records =
     (case bt_get records (node_name n) of
       Some r \<Rightarrow>
         if rec_status r = Succeeded \<and> is_current run (node_name n) r then None
         else Some (run_id (gr_name g) p (node_name n) (rec_rerun r + 1))
     | None \<Rightarrow> Some (run_id (gr_name g) p (node_name n) 0))"

definition identity_run_id :: "task_identity \<Rightarrow> string" where
  "identity_run_id i = run_id (ti_graph i) (ti_partition i) (ti_node i) (ti_rerun i)"

definition identity_group_id :: "task_identity \<Rightarrow> string" where
  "identity_group_id i = group_id (ti_graph i) (ti_partition i) (ti_node i)"

definition headers :: "task_identity \<Rightarrow> string \<Rightarrow> string option" where
  "headers i =
     (let hs = Map.empty
        (header_graph \<mapsto> ti_graph i,
         header_partition \<mapsto> as_str (ti_partition i),
         header_node \<mapsto> ti_node i,
         header_definition \<mapsto> ti_definition i,
         header_rerun \<mapsto> show_u32 (ti_rerun i))
      in case ti_asset i of None \<Rightarrow> hs | Some a \<Rightarrow> hs(header_asset \<mapsto> a))"

definition required :: "(string \<Rightarrow> string option) \<Rightarrow> string \<Rightarrow> identity_error + string" where
  "required hs name = (case hs name of None \<Rightarrow> Inl (MissingHeader name) | Some v \<Rightarrow> Inr v)"

definition from_headers :: "(string \<Rightarrow> string option) \<Rightarrow> identity_error + task_identity" where
  "from_headers hs =
     (case required hs header_rerun of Inl e \<Rightarrow> Inl e | Inr rerun \<Rightarrow>
     (case required hs header_graph of Inl e \<Rightarrow> Inl e | Inr graph \<Rightarrow>
     (case required hs header_partition of Inl e \<Rightarrow> Inl e | Inr p \<Rightarrow>
     (case partition_new p of Inl e \<Rightarrow> Inl (PartitionHeader e) | Inr q \<Rightarrow>
     (case required hs header_node of Inl e \<Rightarrow> Inl e | Inr name \<Rightarrow>
     (case required hs header_definition of Inl e \<Rightarrow> Inl e | Inr hash \<Rightarrow>
     (case parse_u32 rerun of
       None \<Rightarrow> Inl (RerunHeader rerun)
     | Some count \<Rightarrow>
         Inr \<lparr>ti_graph = graph, ti_partition = q, ti_node = name, ti_asset = hs header_asset,
              ti_definition = hash, ti_rerun = count\<rparr>)))))))"

definition identity_record_key :: "task_identity \<Rightarrow> bytes" where
  "identity_record_key i = record_key (ti_graph i) (ti_partition i) (ti_node i) (ti_asset i)"

subsection \<open>Run ids\<close>

lemma run_id_group_id: "run_id g p n r = group_id g p n @ ''-r'' @ show_u32 r"
  by (simp add: run_id_def group_id_def)

lemma group_id_eq_iff:
  assumes "is_name g" "is_name h" "partition_ok p" "partition_ok q"
  shows "group_id g p m @ s = group_id h q n @ t \<longleftrightarrow> g = h \<and> p = q \<and> m @ s = n @ t"
proof
  assume "group_id g p m @ s = group_id h q n @ t"
  then have eq: "g @ CHR ''-'' # as_str p @ CHR ''-'' # m @ s = h @ CHR ''-'' # as_str q @ CHR ''-'' # n @ t"
    by (simp add: group_id_def)
  have nosep: "CHR ''-'' \<notin> set g" "CHR ''-'' \<notin> set h" "CHR ''-'' \<notin> set (as_str p)" "CHR ''-'' \<notin> set (as_str q)"
    using assms is_name_bytes partition_bytes by blast+
  from arg_cong [OF eq, of "split_once (CHR ''-'')"] nosep
  have "g = h" and "as_str p @ CHR ''-'' # m @ s = as_str q @ CHR ''-'' # n @ t" by simp_all
  from arg_cong [OF this(2), of "split_once (CHR ''-'')"] nosep
  have "as_str p = as_str q" "m @ s = n @ t" by simp_all
  then show "g = h \<and> p = q \<and> m @ s = n @ t" using \<open>g = h\<close> assms partitions.render_eq_iff by blast
qed (simp add: group_id_def)

text \<open>A run id determines its task instance.\<close>

lemma run_id_eq_iff:
  assumes "is_name g" "is_name h" "partition_ok p" "partition_ok q" "is_name m" "is_name n"
  shows "run_id g p m r = run_id h q n s \<longleftrightarrow> g = h \<and> p = q \<and> m = n \<and> r = s"
proof -
  have "run_id g p m r = run_id h q n s \<longleftrightarrow>
      g = h \<and> p = q \<and> m @ ''-r'' @ show_u32 r = n @ ''-r'' @ show_u32 s"
    unfolding run_id_group_id by (rule group_id_eq_iff [OF assms(1-4)])
  moreover have "m @ ''-r'' @ show_u32 r = n @ ''-r'' @ show_u32 s \<longleftrightarrow> m = n \<and> r = s"
  proof
    assume eq: "m @ ''-r'' @ show_u32 r = n @ ''-r'' @ show_u32 s"
    have "CHR ''-'' \<notin> set m" "CHR ''-'' \<notin> set n" using assms is_name_bytes by blast+
    with arg_cong [OF eq, of "split_once (CHR ''-'')"] show "m = n \<and> r = s" by simp
  qed simp
  ultimately show ?thesis by blast
qed

lemma group_id_inject:
  assumes "is_name g" "is_name h" "partition_ok p" "partition_ok q"
  shows "group_id g p m = group_id h q n \<longleftrightarrow> g = h \<and> p = q \<and> m = n"
  using group_id_eq_iff [OF assms, of m "[]" n "[]"] by simp

definition run_id_byte :: "char \<Rightarrow> bool" where
  "run_id_byte b \<longleftrightarrow> is_ascii_alphanumeric b \<or> b = CHR ''_'' \<or> b = CHR ''-''"

lemma run_id_bounded:
  assumes "is_name g" "is_name n" "partition_ok p" "length g + length n \<le> max_graph_and_node_name_len"
  shows "run_id g p n r \<noteq> [] \<and> length (run_id g p n r) \<le> 128 \<and> list_all run_id_byte (run_id g p n r)"
proof -
  have "length (as_str p) \<le> 16" using assms(3) by (simp add: partition_ok_iff)
  then have "length (run_id g p n r) \<le> 128"
    using assms(4) length_show_u32 [of r] by (simp add: run_id_def max_graph_and_node_name_len_def)
  moreover have "run_id_byte c" if "is_name t" "c \<in> set t" for c t
    using that by (auto simp: is_name_def name_byte_def list_all_iff run_id_byte_def char_class)
  moreover have "run_id_byte c" if "c \<in> set (as_str p)" for c
    using that assms(3) by (auto simp: partition_ok_iff partition_byte_def list_all_iff run_id_byte_def)
  moreover have "run_id_byte c" if "c \<in> set (show_u32 r)" for c
    using that by (simp add: run_id_byte_def show_u32_def)
  moreover have "run_id_byte (CHR ''-'')" "run_id_byte (CHR ''r'')"
    by (simp_all add: run_id_byte_def char_class)
  ultimately show ?thesis using assms by (auto simp: run_id_def list_all_iff)
qed

subsection \<open>Headers\<close>

definition identity_ok :: "task_identity \<Rightarrow> bool" where
  "identity_ok i \<longleftrightarrow> partition_ok (ti_partition i)"

lemma headers_lookup [simp]:
  "headers i header_graph = Some (ti_graph i)"
  "headers i header_partition = Some (as_str (ti_partition i))"
  "headers i header_node = Some (ti_node i)"
  "headers i header_asset = ti_asset i"
  "headers i header_definition = Some (ti_definition i)"
  "headers i header_rerun = Some (show_u32 (ti_rerun i))"
  "headers i header_group = None"
  by (simp_all add: headers_def Let_def header_defs split: option.split)

lemma from_headers_headers: "identity_ok i \<Longrightarrow> from_headers (headers i) = Inr i"
  by (simp add: from_headers_def required_def identity_ok_def)

text \<open>A member of a mapped node has the headers of its task instance and the group header.\<close>

lemma from_headers_other:
  assumes "h \<notin> {header_graph, header_partition, header_node, header_asset, header_definition, header_rerun}"
  shows "from_headers (hs(h \<mapsto> v)) = from_headers hs"
proof -
  have req: "required (hs(h \<mapsto> v)) header_graph = required hs header_graph"
    "required (hs(h \<mapsto> v)) header_partition = required hs header_partition"
    "required (hs(h \<mapsto> v)) header_node = required hs header_node"
    "required (hs(h \<mapsto> v)) header_definition = required hs header_definition"
    "required (hs(h \<mapsto> v)) header_rerun = required hs header_rerun"
    "(hs(h \<mapsto> v)) header_asset = hs header_asset"
    using assms by (auto simp: required_def)
  show ?thesis unfolding from_headers_def req by (rule refl)
qed

interpretation identity_headers: key_codec headers
  "\<lambda>hs. case from_headers hs of Inl e \<Rightarrow> None | Inr i \<Rightarrow> Some i" identity_ok
  by standard (simp add: from_headers_headers)

lemma from_headers_missing:
  assumes "from_headers hs = Inl (MissingHeader h)"
  shows "hs h = None \<and> h \<in> {header_rerun, header_graph, header_partition, header_node, header_definition}"
  using assms by (auto simp: from_headers_def required_def split: option.splits sum.splits)

lemma from_headers_Inr_iff:
  "(\<exists>i. from_headers hs = Inr i) \<longleftrightarrow>
     (\<forall>h \<in> {header_graph, header_node, header_definition}. hs h \<noteq> None) \<and>
     (\<exists>t p. hs header_partition = Some t \<and> partition_new t = Inr p) \<and>
     (\<exists>t r. hs header_rerun = Some t \<and> parse_u32 t = Some r)"
  by (auto simp: from_headers_def required_def split: option.splits sum.splits)

end
