(* ===== verification/Input.thy ===== *)
theory Input
  imports Template Task
begin

section \<open>The input of a task instance (\<open>input.rs\<close>)\<close>

text \<open>
  The payload of a run, the rendering of its parameters and of the items of a mapped node, and
  the input of a member. The conversion of a TOML table to JSON, the JSON text of a value and
  the JSON parser are \<open>serde\<close>'s and parameters: \<open>params_json\<close>, \<open>json_text\<close> and \<open>json_parse\<close>.
\<close>

record upstream_summary =
  us_status :: record_status
  us_error :: "string option"

record task_input =
  in_operator :: string
  in_params :: json
  in_inputs :: "(string, json) btree"
  in_upstreams :: "(string, upstream_summary) btree"
  in_state :: "json option"
  in_each :: "string option"
  in_item :: "json option"

datatype items_error = ItemsRender render_error | NotAnArray string

definition input_step ::
  "string \<times> node_record \<Rightarrow> (string, json) btree \<times> (string, upstream_summary) btree \<Rightarrow>
   (string, json) btree \<times> (string, upstream_summary) btree" where
  "input_step e acc =
     (let (name, r) = e; (inputs, upstreams) = acc;
          inputs' = (if rec_status r = Succeeded
            then bt_insert name (case rec_output r of None \<Rightarrow> JNull | Some v \<Rightarrow> v) inputs else inputs)
      in (inputs', bt_insert name \<lparr>us_status = rec_status r, us_error = rec_error r\<rparr> upstreams))"

definition task_input_new :: "(toml_table \<Rightarrow> json) \<Rightarrow> node \<Rightarrow> (string, node_record) btree \<Rightarrow> task_input" where
  "task_input_new params_json n upstream_records =
     (let (inputs, upstreams) = fold input_step upstream_records ([], [])
      in \<lparr>in_operator = node_operator n, in_params = params_json (node_params n), in_inputs = inputs,
          in_upstreams = upstreams, in_state = None, in_each = node_each n, in_item = None\<rparr>)"

subsection \<open>Members\<close>

lemma size_json_array [termination_simp]: "v \<in> set vs \<Longrightarrow> size v < Suc (size_list size vs)"
  for v :: json
  by (induction vs) auto

lemma size_json_object [termination_simp]:
  "(k, v) \<in> set es \<Longrightarrow> size v < Suc (size_list (size_prod (\<lambda>x. 0) size) es)"
  for v :: json
  by (induction es) auto

fun referred_upstreams :: "json \<Rightarrow> string list \<Rightarrow> string list" where
  "referred_upstreams (JString t) nodes =
     (case parse t of Inr template \<Rightarrow> bs_extend (upstream_nodes template) nodes | Inl e \<Rightarrow> nodes)"
| "referred_upstreams (JArray items) nodes = fold referred_upstreams items nodes"
| "referred_upstreams (JObject entries) nodes = fold (\<lambda>(k, v). referred_upstreams v) entries nodes"
| "referred_upstreams JNull nodes = nodes"
| "referred_upstreams (JBool b) nodes = nodes"
| "referred_upstreams (JNumber n) nodes = nodes"

definition input_member :: "task_input \<Rightarrow> json \<Rightarrow> task_input" where
  "input_member i item =
     (let referred = referred_upstreams (in_params i) []
      in i\<lparr>in_inputs := filter (\<lambda>(name, output). name \<in> set referred) (in_inputs i),
          in_state := None, in_each := None, in_item := Some item\<rparr>)"

subsection \<open>Rendering\<close>

text \<open>The JSON objects are in key order, the order of \<open>serde_json\<close>'s map.\<close>

definition summary_json :: "upstream_summary \<Rightarrow> json" where
  "summary_json s =
     JObject ((case us_error s of None \<Rightarrow> [] | Some e \<Rightarrow> [(''error'', JString e)]) @
       [(''status'', JString (show_record_status (us_status s)))])"

definition run_summary :: "(json \<Rightarrow> string) \<Rightarrow> task_input \<Rightarrow> task_identity \<Rightarrow> string" where
  "run_summary json_text i identity =
     json_text (JObject
       [(''graph'', JString (ti_graph identity)),
        (''node'', JString (ti_node identity)),
        (''partition'', JString (as_str (ti_partition identity))),
        (''upstreams'', JObject (map (\<lambda>(name, s). (name, summary_json s)) (in_upstreams i)))])"

fun render_value :: "(json \<Rightarrow> string) \<Rightarrow> render_context \<Rightarrow> json \<Rightarrow> render_error + json"
  and render_values :: "(json \<Rightarrow> string) \<Rightarrow> render_context \<Rightarrow> json list \<Rightarrow> render_error + json list"
  and render_entries ::
    "(json \<Rightarrow> string) \<Rightarrow> render_context \<Rightarrow> (string \<times> json) list \<Rightarrow> render_error + (string \<times> json) list"
where
  "render_value json_text ctx (JString t) =
     (case parse t of
       Inr template \<Rightarrow>
         (case render json_text ctx template of Inl e \<Rightarrow> Inl e | Inr out \<Rightarrow> Inr (JString out))
     | Inl e \<Rightarrow> Inr (JString t))"
| "render_value json_text ctx (JArray items) =
     (case render_values json_text ctx items of Inl e \<Rightarrow> Inl e | Inr vs \<Rightarrow> Inr (JArray vs))"
| "render_value json_text ctx (JObject entries) =
     (case render_entries json_text ctx entries of Inl e \<Rightarrow> Inl e | Inr es \<Rightarrow> Inr (JObject es))"
| "render_value json_text ctx JNull = Inr JNull"
| "render_value json_text ctx (JBool b) = Inr (JBool b)"
| "render_value json_text ctx (JNumber n) = Inr (JNumber n)"
| "render_values json_text ctx [] = Inr []"
| "render_values json_text ctx (v # vs) =
     (case render_value json_text ctx v of
       Inl e \<Rightarrow> Inl e
     | Inr out \<Rightarrow>
         (case render_values json_text ctx vs of Inl e \<Rightarrow> Inl e | Inr outs \<Rightarrow> Inr (out # outs)))"
| "render_entries json_text ctx [] = Inr []"
| "render_entries json_text ctx ((k, v) # es) =
     (case render_value json_text ctx v of
       Inl e \<Rightarrow> Inl e
     | Inr out \<Rightarrow>
         (case render_entries json_text ctx es of Inl e \<Rightarrow> Inl e | Inr outs \<Rightarrow> Inr ((k, out) # outs)))"

definition input_context ::
  "(json \<Rightarrow> string) \<Rightarrow> task_input \<Rightarrow> task_identity \<Rightarrow> (string, string) btree \<Rightarrow> json option \<Rightarrow> render_context" where
  "input_context json_text i identity env item =
     \<lparr>rc_partition = as_str (ti_partition identity), rc_run_id = identity_run_id identity,
      rc_run_summary = run_summary json_text i identity, rc_upstream = in_inputs i, rc_env = env,
      rc_item = item\<rparr>"

definition rendered_params ::
  "(json \<Rightarrow> string) \<Rightarrow> task_input \<Rightarrow> task_identity \<Rightarrow> (string, string) btree \<Rightarrow> render_error + json" where
  "rendered_params json_text i identity env =
     render_value json_text (input_context json_text i identity env (in_item i)) (in_params i)"

definition value_kind :: "json \<Rightarrow> string" where
  "value_kind v =
     (case v of
       JNull \<Rightarrow> ''the value is null''
     | JBool b \<Rightarrow> ''the value is a boolean''
     | JNumber n \<Rightarrow> ''the value is a number''
     | JString s \<Rightarrow> ''the value is a string''
     | _ \<Rightarrow> ''the value is an object'')"

definition rendered_items ::
  "(json \<Rightarrow> string) \<Rightarrow> (string \<Rightarrow> string + json) \<Rightarrow> task_input \<Rightarrow> task_identity \<Rightarrow> (string, string) btree
     \<Rightarrow> items_error + json list" where
  "rendered_items json_text json_parse i identity env =
     (case in_each i of
       None \<Rightarrow> Inr []
     | Some each \<Rightarrow>
         (case (case parse each of
             Inr template \<Rightarrow> render json_text (input_context json_text i identity env None) template
           | Inl e \<Rightarrow> Inr each) of
           Inl e \<Rightarrow> Inl (ItemsRender e)
         | Inr t \<Rightarrow>
             (case json_parse t of
               Inl message \<Rightarrow> Inl (NotAnArray message)
             | Inr (JArray items) \<Rightarrow> Inr items
             | Inr other \<Rightarrow> Inl (NotAnArray (value_kind other)))))"

subsection \<open>The inputs are the succeeded upstreams\<close>

lemma input_fold_get:
  assumes "distinct (map fst rs)"
  shows "bt_get (fst (fold input_step rs (a, b))) name =
      (case map_of rs name of
        Some r \<Rightarrow> if rec_status r = Succeeded then Some (case rec_output r of None \<Rightarrow> JNull | Some v \<Rightarrow> v) else bt_get a name
      | None \<Rightarrow> bt_get a name) \<and>
    bt_get (snd (fold input_step rs (a, b))) name =
      (case map_of rs name of
        Some r \<Rightarrow> Some \<lparr>us_status = rec_status r, us_error = rec_error r\<rparr>
      | None \<Rightarrow> bt_get b name)"
  using assms
proof (induction rs arbitrary: a b)
  case (Cons e rs)
  obtain n r where e: "e = (n, r)" by (cases e)
  have notin: "map_of rs n = None" using Cons.prems by (simp add: e map_of_eq_None_iff)
  define a' where "a' = (if rec_status r = Succeeded then bt_insert n (case rec_output r of None \<Rightarrow> JNull | Some v \<Rightarrow> v) a else a)"
  define b' where "b' = bt_insert n \<lparr>us_status = rec_status r, us_error = rec_error r\<rparr> b"
  have step: "fold input_step (e # rs) (a, b) = fold input_step rs (a', b')"
    by (simp add: e input_step_def a'_def b'_def)
  have "distinct (map fst rs)" using Cons.prems by simp
  from Cons.IH [OF this, of a' b'] show ?case
    unfolding step using notin
    by (cases "name = n") (simp_all add: e a'_def b'_def split: option.splits)
qed simp

lemma task_input_new_inputs:
  assumes "bt_wf rs"
  shows "bt_get (in_inputs (task_input_new pj n rs)) name =
    (case bt_get rs name of
      Some r \<Rightarrow> if rec_status r = Succeeded then Some (case rec_output r of None \<Rightarrow> JNull | Some v \<Rightarrow> v) else None
    | None \<Rightarrow> None)"
  and "map_option us_status (bt_get (in_upstreams (task_input_new pj n rs)) name) = map_option rec_status (bt_get rs name)"
proof -
  have "distinct (map fst rs)" using bt.distinct_keys [OF assms] by (simp add: bt_keys_def)
  note get = input_fold_get [OF this, of "[]" "[]" name]
  show "bt_get (in_inputs (task_input_new pj n rs)) name =
    (case bt_get rs name of
      Some r \<Rightarrow> if rec_status r = Succeeded then Some (case rec_output r of None \<Rightarrow> JNull | Some v \<Rightarrow> v) else None
    | None \<Rightarrow> None)"
    using get by (auto simp: task_input_new_def bt_get_def split: prod.splits option.splits)
  show "map_option us_status (bt_get (in_upstreams (task_input_new pj n rs)) name) = map_option rec_status (bt_get rs name)"
    using get by (auto simp: task_input_new_def bt_get_def split: prod.splits option.splits)
qed

subsection \<open>A member renders as its node does\<close>

fun json_strings :: "json \<Rightarrow> string list" where
  "json_strings (JString t) = [t]"
| "json_strings (JArray items) = concat (map json_strings items)"
| "json_strings (JObject entries) = concat (map (\<lambda>(k, v). json_strings v) entries)"
| "json_strings JNull = []"
| "json_strings (JBool b) = []"
| "json_strings (JNumber n) = []"

definition string_upstreams :: "string \<Rightarrow> string list" where
  "string_upstreams t = (case parse t of Inr segs \<Rightarrow> upstream_nodes segs | Inl e \<Rightarrow> [])"

definition string_item :: "string \<Rightarrow> bool" where
  "string_item t = (case parse t of Inr segs \<Rightarrow> refers_to_item segs | Inl e \<Rightarrow> False)"

lemma set_referred_upstreams:
  "set (referred_upstreams v nodes) = (\<Union>t \<in> set (json_strings v). set (string_upstreams t)) \<union> set nodes"
proof (induction v nodes rule: referred_upstreams.induct)
  case (1 t nodes)
  then show ?case by (auto simp: string_upstreams_def split: sum.splits)
next
  case (2 items nodes)
  have "set (fold referred_upstreams vs ns) = (\<Union>v \<in> set vs. \<Union>t \<in> set (json_strings v). set (string_upstreams t)) \<union> set ns"
    if "set vs \<subseteq> set items" for vs ns
    using that by (induction vs arbitrary: ns) (auto simp: 2)
  then show ?case by auto
next
  case (3 entries nodes)
  have "set (fold (\<lambda>(k, v). referred_upstreams v) es ns) =
      (\<Union>(k, v) \<in> set es. \<Union>t \<in> set (json_strings v). set (string_upstreams t)) \<union> set ns"
    if "set es \<subseteq> set entries" for es ns
    using that by (induction es arbitrary: ns) (auto simp: 3)
  then show ?case by auto
qed simp_all

definition same_refs :: "render_context \<Rightarrow> render_context \<Rightarrow> string list \<Rightarrow> bool" where
  "same_refs ctx ctx' ts \<longleftrightarrow>
     rc_partition ctx = rc_partition ctx' \<and> rc_run_id ctx = rc_run_id ctx' \<and>
     rc_run_summary ctx = rc_run_summary ctx' \<and> rc_env ctx = rc_env ctx' \<and>
     (\<forall>t \<in> set ts. (string_item t \<longrightarrow> rc_item ctx = rc_item ctx') \<and>
        (\<forall>n \<in> set (string_upstreams t). bt_get (rc_upstream ctx) n = bt_get (rc_upstream ctx') n))"

lemma same_refs_append: "same_refs ctx ctx' (ss @ ts) \<longleftrightarrow> same_refs ctx ctx' ss \<and> same_refs ctx ctx' ts"
  by (auto simp: same_refs_def)

lemma render_value_cong:
  "same_refs ctx ctx' (json_strings v) \<Longrightarrow> render_value jt ctx v = render_value jt ctx' v"
  "same_refs ctx ctx' (concat (map json_strings vs)) \<Longrightarrow> render_values jt ctx vs = render_values jt ctx' vs"
  "same_refs ctx ctx' (concat (map (\<lambda>(k, v). json_strings v) es)) \<Longrightarrow> render_entries jt ctx es = render_entries jt ctx' es"
proof (induction jt ctx v and jt ctx vs and jt ctx es rule: render_value_render_values_render_entries.induct)
  case (1 json_text ctx t)
  have "render json_text ctx template = render json_text ctx' template" if "parse t = Inr template" for template
    using that 1 by (intro render_cong) (auto simp: same_refs_def string_item_def string_upstreams_def)
  then show ?case by (auto split: sum.splits)
qed (simp_all add: same_refs_append split: sum.splits)

text \<open>
  The member of a mapped node renders with the outputs its parameters refer to as it would with
  every output of the node.
\<close>

lemma get_filter_keys:
  "bt_get (filter (\<lambda>(k, v). P k) m) k = (if P k then bt_get m k else None)"
  by (induction m) (auto simp: bt_get_def)

lemma member_inputs:
  "bt_get (in_inputs (input_member i item)) n =
     (if \<exists>t \<in> set (json_strings (in_params i)). n \<in> set (string_upstreams t) then bt_get (in_inputs i) n else None)"
  by (simp add: input_member_def Let_def get_filter_keys set_referred_upstreams)

lemma member_rendered_params:
  "rendered_params jt (input_member i item) identity env =
     rendered_params jt (i\<lparr>in_item := Some item\<rparr>) identity env"
proof -
  let ?m = "input_member i item"
  have fields: "in_params ?m = in_params i" "in_upstreams ?m = in_upstreams i" "in_item ?m = Some item"
    by (simp_all add: input_member_def Let_def)
  then have summary: "run_summary jt ?m identity = run_summary jt (i\<lparr>in_item := Some item\<rparr>) identity"
    by (simp add: run_summary_def)
  show ?thesis
    unfolding rendered_params_def
    by (simp add: fields, rule render_value_cong(1))
      (auto simp: same_refs_def input_context_def summary member_inputs)
qed

end
