(* ===== verification/World.thy ===== *)
theory World
  imports Input
begin

section \<open>The outside world: programs with effects and the services they call\<close>

text \<open>
  A program of the source that calls a service is a function of the state that returns an error
  or a value and the next state. The services are third-party code and a parameter, the record
  \<^term>\<open>backend\<close> of functions on an abstract state \<^typ>\<open>'w\<close>: the key-value store and the clock of
  \<open>taquba\<close>, the runtimes of \<open>taquba-workflow\<close> and the object store. A stored value is of the type
  \<^typ>\<open>'b\<close>; the codecs of the records into it are \<open>serde\<close>'s and a parameter as well.

  What the code relies on of the services is the predicate \<open>backend_ok\<close>: an observation \<open>obs\<close> of
  the state (the stored values, the runs submitted, the expiry index, the objects), a relation of
  the writes of other workers, and one law per call. A call that fails may have been applied.
  The theory \<open>Memory\<close> is an instance of the laws.
\<close>

subsection \<open>Programs\<close>

type_synonym ('s, 'e, 'a) io = "'s \<Rightarrow> ('e + 'a) \<times> 's"

definition io_return :: "'a \<Rightarrow> ('s, 'e, 'a) io" where
  "io_return a s = (Inr a, s)"

definition io_fail :: "'e \<Rightarrow> ('s, 'e, 'a) io" where
  "io_fail e s = (Inl e, s)"

definition io_bind :: "('s, 'e, 'a) io \<Rightarrow> ('a \<Rightarrow> ('s, 'e, 'b) io) \<Rightarrow> ('s, 'e, 'b) io" where
  "io_bind m f s = (case m s of (Inl e, s') \<Rightarrow> (Inl e, s') | (Inr a, s') \<Rightarrow> f a s')"

text \<open>The \<open>?\<close> operator with the conversion \<open>From\<close> of the error.\<close>

definition io_map_error :: "('e \<Rightarrow> 'f) \<Rightarrow> ('s, 'e, 'a) io \<Rightarrow> ('s, 'f, 'a) io" where
  "io_map_error f m s = (case m s of (Inl e, s') \<Rightarrow> (Inl (f e), s') | (Inr a, s') \<Rightarrow> (Inr a, s'))"

text \<open>A \<open>match\<close> on the result: the error is a value.\<close>

definition io_try :: "('s, 'e, 'a) io \<Rightarrow> ('s, 'f, 'e + 'a) io" where
  "io_try m s = (case m s of (r, s') \<Rightarrow> (Inr r, s'))"

definition io_of_sum :: "'e + 'a \<Rightarrow> ('s, 'e, 'a) io" where
  "io_of_sum r s = (r, s)"

text \<open>A \<open>for\<close> loop over a list with a state, which the first error ends.\<close>

fun io_fold :: "('a \<Rightarrow> 'b \<Rightarrow> ('s, 'e, 'b) io) \<Rightarrow> 'a list \<Rightarrow> 'b \<Rightarrow> ('s, 'e, 'b) io" where
  "io_fold f [] b = io_return b"
| "io_fold f (a # as) b = io_bind (f a b) (\<lambda>b'. io_fold f as b')"

text \<open>A program of a part of the state.\<close>

definition io_lift :: "('t \<Rightarrow> 's) \<Rightarrow> ('s \<Rightarrow> 't \<Rightarrow> 't) \<Rightarrow> ('s, 'e, 'a) io \<Rightarrow> ('t, 'e, 'a) io" where
  "io_lift get put m t = (case m (get t) of (r, s') \<Rightarrow> (r, put s' t))"

lemmas io_defs = io_return_def io_fail_def io_bind_def io_map_error_def io_try_def io_of_sum_def

lemma io_bind_return [simp]: "io_bind (io_return a) f = f a"
  by (simp add: io_bind_def io_return_def fun_eq_iff)

lemma io_bind_fail [simp]: "io_bind (io_fail e) f = io_fail e"
  by (simp add: io_bind_def io_fail_def fun_eq_iff)

lemma io_bind_Inr:
  "io_bind m f s = (Inr b, s'') \<longleftrightarrow> (\<exists>a s'. m s = (Inr a, s') \<and> f a s' = (Inr b, s''))"
  by (auto simp: io_bind_def split: prod.splits sum.splits)

lemma io_bind_cases:
  assumes "io_bind m f s = (r, s'')"
  obtains (error) e where "m s = (Inl e, s'')" "r = Inl e"
    | (ok) a s' where "m s = (Inr a, s')" "f a s' = (r, s'')"
  using assms by (auto simp: io_bind_def split: prod.splits sum.splits)

lemma io_return_result [simp]: "io_return a s = (r, s') \<longleftrightarrow> r = Inr a \<and> s' = s"
  by (auto simp: io_return_def)

lemma io_fail_result [simp]: "io_fail e s = (r, s') \<longleftrightarrow> r = Inl e \<and> s' = s"
  by (auto simp: io_fail_def)

lemma io_map_error_result:
  "io_map_error f m s = (r, s') \<longleftrightarrow> (\<exists>q. m s = (q, s') \<and> r = (case q of Inl e \<Rightarrow> Inl (f e) | Inr a \<Rightarrow> Inr a))"
  by (auto simp: io_map_error_def split: prod.splits sum.splits)

lemma io_map_error_Inr [simp]: "io_map_error f m s = (Inr a, s') \<longleftrightarrow> m s = (Inr a, s')"
  by (auto simp: io_map_error_def split: prod.splits sum.splits)

lemma io_map_error_Inl: "io_map_error f m s = (Inl e, s') \<longleftrightarrow> (\<exists>e'. m s = (Inl e', s') \<and> e = f e')"
  by (auto simp: io_map_error_def split: prod.splits sum.splits)

lemma io_try_result [simp]: "io_try m s = (r, s') \<longleftrightarrow> (\<exists>q. m s = (q, s') \<and> r = Inr q)"
  by (auto simp: io_try_def split: prod.splits)

lemma io_of_sum_result [simp]: "io_of_sum q s = (r, s') \<longleftrightarrow> r = q \<and> s' = s"
  by (auto simp: io_of_sum_def)

text \<open>
  The contract of a relation between the states before and after a program: every program of a
  component keeps to it when its calls do, whatever they return.
\<close>

definition io_keeps :: "('s \<Rightarrow> 's \<Rightarrow> bool) \<Rightarrow> ('s, 'e, 'a) io \<Rightarrow> bool" where
  "io_keeps R m \<longleftrightarrow> (\<forall>s r s'. m s = (r, s') \<longrightarrow> R s s')"

locale io_preorder =
  fixes R :: "'s \<Rightarrow> 's \<Rightarrow> bool"
  assumes R_refl: "R s s"
    and R_trans: "R s s' \<Longrightarrow> R s' s'' \<Longrightarrow> R s s''"
begin

lemma keepsI [intro?]: "(\<And>s r s'. m s = (r, s') \<Longrightarrow> R s s') \<Longrightarrow> io_keeps R m"
  by (auto simp: io_keeps_def)

lemma keepsD: "io_keeps R m \<Longrightarrow> m s = (r, s') \<Longrightarrow> R s s'"
  by (auto simp: io_keeps_def)

lemma keeps_return: "io_keeps R (io_return a)"
  by (auto simp: io_keeps_def R_refl)

lemma keeps_fail: "io_keeps R (io_fail e)"
  by (auto simp: io_keeps_def R_refl)

lemma keeps_of_sum: "io_keeps R (io_of_sum r)"
  by (auto simp: io_keeps_def R_refl)

lemma keeps_bind: "io_keeps R m \<Longrightarrow> (\<And>a. io_keeps R (f a)) \<Longrightarrow> io_keeps R (io_bind m f)"
proof (rule keepsI)
  fix s r s'
  assume m: "io_keeps R m" and f: "\<And>a. io_keeps R (f a)" and "io_bind m f s = (r, s')"
  from this(3) show "R s s'"
  proof (cases rule: io_bind_cases)
    case error
    then show ?thesis using m by (auto dest: keepsD)
  next
    case (ok a s1)
    then show ?thesis using keepsD [OF m] keepsD [OF f] by (blast intro: R_trans)
  qed
qed

lemma keeps_map_error: "io_keeps R m \<Longrightarrow> io_keeps R (io_map_error f m)"
  by (auto simp: io_keeps_def io_map_error_result)

lemma keeps_try: "io_keeps R m \<Longrightarrow> io_keeps R (io_try m)"
  by (auto simp: io_keeps_def)

lemma keeps_fold: "(\<And>a b. io_keeps R (f a b)) \<Longrightarrow> io_keeps R (io_fold f as b)"
  by (induction as arbitrary: b) (auto intro: keeps_return keeps_bind)

lemmas keeps_intros = keeps_return keeps_fail keeps_of_sum keeps_bind keeps_map_error keeps_try keeps_fold

end

text \<open>
  A program meets a contract when, from a state with the invariant \<open>I\<close>, it reaches a state with the
  invariant that is related by \<open>R\<close>, and its result satisfies \<open>Q\<close> or its error satisfies \<open>E\<close>.
\<close>

definition io_meets ::
  "('s \<Rightarrow> bool) \<Rightarrow> ('s \<Rightarrow> 's \<Rightarrow> bool) \<Rightarrow> ('s, 'e, 'a) io \<Rightarrow> ('a \<Rightarrow> bool) \<Rightarrow> ('e \<Rightarrow> bool) \<Rightarrow> bool" where
  "io_meets I R m Q E \<longleftrightarrow>
     (\<forall>s r s'. I s \<longrightarrow> m s = (r, s') \<longrightarrow> I s' \<and> R s s' \<and> (case r of Inl e \<Rightarrow> E e | Inr a \<Rightarrow> Q a))"

locale io_contract = io_preorder R for R :: "'s \<Rightarrow> 's \<Rightarrow> bool" +
  fixes I :: "'s \<Rightarrow> bool"
begin

lemma meetsD:
  "io_meets I R m Q E \<Longrightarrow> I s \<Longrightarrow> m s = (r, s') \<Longrightarrow>
     I s' \<and> R s s' \<and> (case r of Inl e \<Rightarrow> E e | Inr a \<Rightarrow> Q a)"
  by (auto simp: io_meets_def)

lemma meets_return: "Q a \<Longrightarrow> io_meets I R (io_return a) Q E"
  by (auto simp: io_meets_def R_refl)

lemma meets_fail: "E e \<Longrightarrow> io_meets I R (io_fail e) Q E"
  by (auto simp: io_meets_def R_refl)

lemma meets_of_sum: "(case r of Inl e \<Rightarrow> E e | Inr a \<Rightarrow> Q a) \<Longrightarrow> io_meets I R (io_of_sum r) Q E"
  by (auto simp: io_meets_def R_refl)

lemma meets_bind:
  assumes m: "io_meets I R m P E" and f: "\<And>a. P a \<Longrightarrow> io_meets I R (f a) Q E"
  shows "io_meets I R (io_bind m f) Q E"
  unfolding io_meets_def
proof (intro allI impI)
  fix s r s'
  assume I: "I s" and "io_bind m f s = (r, s')"
  from this(2) show "I s' \<and> R s s' \<and> (case r of Inl e \<Rightarrow> E e | Inr a \<Rightarrow> Q a)"
  proof (cases rule: io_bind_cases)
    case (error e)
    then show ?thesis using meetsD [OF m I error(1)] by simp
  next
    case (ok a s1)
    have "I s1" "R s s1" "P a" using meetsD [OF m I ok(1)] by simp_all
    then show ?thesis using meetsD [OF f _ ok(2)] by (blast intro: R_trans)
  qed
qed

lemma meetsI:
  assumes "\<And>s e s'. I s \<Longrightarrow> m s = (Inl e, s') \<Longrightarrow> I s' \<and> R s s' \<and> E e"
    and "\<And>s a s'. I s \<Longrightarrow> m s = (Inr a, s') \<Longrightarrow> I s' \<and> R s s' \<and> Q a"
  shows "io_meets I R m Q E"
  unfolding io_meets_def
proof (intro allI impI)
  fix s r s'
  assume "I s" "m s = (r, s')"
  then show "I s' \<and> R s s' \<and> (case r of Inl e \<Rightarrow> E e | Inr a \<Rightarrow> Q a)"
    using assms(1) [of s _ s'] assms(2) [of s _ s'] by (cases r) simp_all
qed

lemma meetsE:
  assumes "io_meets I R m Q E" and "I s"
  shows "m s = (Inl e, s') \<Longrightarrow> I s' \<and> R s s' \<and> E e" and "m s = (Inr a, s') \<Longrightarrow> I s' \<and> R s s' \<and> Q a"
  using meetsD [OF assms, of "Inl e" s'] meetsD [OF assms, of "Inr a" s'] by simp_all

lemma meets_map_error: "io_meets I R m Q (\<lambda>e. E (f e)) \<Longrightarrow> io_meets I R (io_map_error f m) Q E"
  by (rule meetsI) (auto simp: io_map_error_Inl dest: meetsE)

lemma meets_try:
  "io_meets I R m Q E' \<Longrightarrow> io_meets I R (io_try m) (\<lambda>r. case r of Inl e \<Rightarrow> E' e | Inr a \<Rightarrow> Q a) E"
  by (rule meetsI) (auto split: sum.split dest: meetsE)

lemma meets_fold:
  "(\<And>a b. a \<in> set as \<Longrightarrow> P b \<Longrightarrow> io_meets I R (f a b) P E) \<Longrightarrow> P b \<Longrightarrow> io_meets I R (io_fold f as b) P E"
  by (induction as arbitrary: b) (auto intro: meets_return meets_bind)

lemma meets_weaken:
  "io_meets I R m P F \<Longrightarrow> (\<And>a. P a \<Longrightarrow> Q a) \<Longrightarrow> (\<And>e. F e \<Longrightarrow> E e) \<Longrightarrow> io_meets I R m Q E"
  by (rule meetsI) (blast dest: meetsE)+

end

subsection \<open>The services\<close>

text \<open>The source reads of a \<open>taquba\<close> error its permanence and its text.\<close>

datatype lib_error = LibError (le_permanent: bool) (le_text: string)

datatype workflow_error =
    GroupMismatch (we_permanent: bool) (we_text: string)
  | GroupNotFound (we_permanent: bool) (we_text: string)
  | OtherWorkflow (we_permanent: bool) (we_text: string)

datatype object_error = ObjectNotFound | OtherObject lib_error

datatype 'b effect = PutEffect bytes 'b | DeleteEffect bytes | ExpiryEffect nat bytes

datatype run_activity = RunLive | RunTerminated

datatype cancel_outcome = CancelNotActive | CancelRequested

record 'b run_spec =
  rs_run_id :: string
  rs_input :: 'b
  rs_headers :: "string \<Rightarrow> string option"
  rs_max_attempts :: "u32 option"
  rs_effects :: "'b effect list"

text \<open>The outcome that the callback of \<open>ExpiryIndex::pass\<close> returns for a due entry.\<close>

datatype 'b expired =
    ExpiredKeep
  | ExpiredDelete "'b effect list"
  | ExpiredDeleteIf bytes "'b option" "'b effect list"

record ('w, 'b) backend =
  kv_get :: "bytes \<Rightarrow> ('w, lib_error, 'b option) io"
  kv_entries :: "bytes \<Rightarrow> ('w, lib_error, (bytes \<times> 'b) list) io"
  kv_put :: "bytes \<Rightarrow> 'b \<Rightarrow> ('w, lib_error, unit) io"
  kv_compare_put :: "bytes \<Rightarrow> 'b option \<Rightarrow> 'b \<Rightarrow> ('w, lib_error, bool) io"
  kv_compare_commit :: "bytes \<Rightarrow> 'b option \<Rightarrow> 'b effect list \<Rightarrow> ('w, lib_error, bool) io"
  commit_effects :: "'b effect list \<Rightarrow> ('w, lib_error, unit) io"
  clock_now :: "'w \<Rightarrow> nat \<times> 'w"
  pool_exists :: "string \<Rightarrow> bool"
  wf_submit :: "string \<Rightarrow> 'b run_spec \<Rightarrow> ('w, workflow_error, bool) io"
  wf_status :: "string \<Rightarrow> string \<Rightarrow> ('w, workflow_error, run_activity option) io"
  wf_cancel :: "string \<Rightarrow> string \<Rightarrow> string option \<Rightarrow> ('w, workflow_error, cancel_outcome) io"
  wf_group_cancel :: "string \<Rightarrow> string \<Rightarrow> string option \<Rightarrow> ('w, workflow_error, unit) io"
  wf_group_forget :: "string \<Rightarrow> string \<Rightarrow> ('w, workflow_error, unit) io"
  expiry_due :: "nat \<Rightarrow> nat \<Rightarrow> ('w, lib_error, (nat \<times> bytes) list) io"
  expiry_apply :: "nat \<times> bytes \<Rightarrow> 'b expired \<Rightarrow> ('w, lib_error, unit) io"
  object_get :: "string \<Rightarrow> ('w, object_error, bytes) io"
  object_put :: "string \<Rightarrow> bytes \<Rightarrow> ('w, lib_error, unit) io"
  object_delete :: "string \<Rightarrow> ('w, object_error, unit) io"
  object_list :: "string \<Rightarrow> ('w, lib_error, (string \<times> string option) list) io"

subsection \<open>What is observed of the services\<close>

record 'b obs =
  ob_kv :: "bytes \<Rightarrow> 'b option"
  ob_submits :: "(string \<times> 'b run_spec) list"
  ob_expiry :: "(nat \<times> bytes) set"
  ob_objects :: "string \<Rightarrow> bytes option"

fun apply_effect :: "'b effect \<Rightarrow> 'b obs \<Rightarrow> 'b obs" where
  "apply_effect (PutEffect k v) o1 = o1\<lparr>ob_kv := (ob_kv o1)(k \<mapsto> v)\<rparr>"
| "apply_effect (DeleteEffect k) o1 = o1\<lparr>ob_kv := (ob_kv o1)(k := None)\<rparr>"
| "apply_effect (ExpiryEffect t suffix) o1 = o1\<lparr>ob_expiry := insert (t, suffix) (ob_expiry o1)\<rparr>"

definition apply_effects :: "'b effect list \<Rightarrow> 'b obs \<Rightarrow> 'b obs" where
  "apply_effects es o1 = fold apply_effect es o1"

lemma apply_effects_simps [simp]:
  "apply_effects [] o1 = o1" "apply_effects (e # es) o1 = apply_effects es (apply_effect e o1)"
  by (simp_all add: apply_effects_def)

definition run_submitted :: "string \<Rightarrow> 'b obs \<Rightarrow> bool" where
  "run_submitted i o1 \<longleftrightarrow> (\<exists>(pool, spec) \<in> set (ob_submits o1). rs_run_id spec = i)"

definition apply_submit :: "string \<Rightarrow> 'b run_spec \<Rightarrow> 'b obs \<Rightarrow> 'b obs" where
  "apply_submit pool spec o1 =
     apply_effects (rs_effects spec) (o1\<lparr>ob_submits := ob_submits o1 @ [(pool, spec)]\<rparr>)"

text \<open>The commit of a verdict on an entry of the expiry index.\<close>

definition expired_cond :: "'b expired \<Rightarrow> 'b obs \<Rightarrow> bool" where
  "expired_cond x o1 = (case x of ExpiredDeleteIf k e es \<Rightarrow> ob_kv o1 k = e | _ \<Rightarrow> True)"

definition apply_expired :: "nat \<times> bytes \<Rightarrow> 'b expired \<Rightarrow> 'b obs \<Rightarrow> 'b obs" where
  "apply_expired entry x o1 =
     (case x of
       ExpiredKeep \<Rightarrow> o1
     | ExpiredDelete es \<Rightarrow> apply_effects es (o1\<lparr>ob_expiry := ob_expiry o1 - {entry}\<rparr>)
     | ExpiredDeleteIf k e es \<Rightarrow> apply_effects es (o1\<lparr>ob_expiry := ob_expiry o1 - {entry}\<rparr>))"

subsection \<open>The laws, with interference\<close>

text \<open>
  Other workers and other processes write to the services while a program runs. The relation \<open>R\<close>
  on observations is one write of theirs, and every call can have writes of theirs before and
  after it. A read returns a value of a moment of the call. With the empty relation
  \<^term>\<open>alone\<close> a program runs by itself.
\<close>

definition alone :: "'b obs \<Rightarrow> 'b obs \<Rightarrow> bool" where
  "alone o1 o2 \<longleftrightarrow> False"

lemma alone_star [simp]: "alone\<^sup>*\<^sup>* o1 o2 \<longleftrightarrow> o2 = o1"
  by (auto simp: alone_def elim: rtranclp.cases)

definition later :: "('b obs \<Rightarrow> 'b obs \<Rightarrow> bool) \<Rightarrow> ('w \<Rightarrow> 'b obs) \<Rightarrow> 'w \<Rightarrow> 'w \<Rightarrow> bool" where
  "later R obs w w' \<longleftrightarrow> R\<^sup>*\<^sup>* (obs w) (obs w')"

interpretation later: io_preorder "later R obs" for R obs
  by standard (auto simp: later_def)

definition reads :: "('b obs \<Rightarrow> 'b obs \<Rightarrow> bool) \<Rightarrow> ('w \<Rightarrow> 'b obs) \<Rightarrow> ('w, 'e, 'a) io \<Rightarrow> bool" where
  "reads R obs m \<longleftrightarrow> io_keeps (later R obs) m"

lemmas reads_intros = later.keeps_intros [folded reads_def]

text \<open>A read of a value of the observation.\<close>

definition reads_value ::
  "('b obs \<Rightarrow> 'b obs \<Rightarrow> bool) \<Rightarrow> ('w \<Rightarrow> 'b obs) \<Rightarrow> ('b obs \<Rightarrow> 'a \<Rightarrow> bool) \<Rightarrow> ('w, 'e, 'a) io \<Rightarrow> bool" where
  "reads_value R obs P m \<longleftrightarrow>
     reads R obs m \<and>
     (\<forall>w v w'. m w = (Inr v, w') \<longrightarrow> (\<exists>o1. R\<^sup>*\<^sup>* (obs w) o1 \<and> P o1 v \<and> R\<^sup>*\<^sup>* o1 (obs w')))"

text \<open>A write is applied when it succeeds, and applied or not when it fails. A conditional write is
  applied only under its condition. A submit is new unless
  the run id was submitted before, and a live run was submitted.\<close>

definition writes ::
  "('b obs \<Rightarrow> 'b obs \<Rightarrow> bool) \<Rightarrow> ('w \<Rightarrow> 'b obs) \<Rightarrow> ('b obs \<Rightarrow> 'b obs) \<Rightarrow> ('w, 'e, unit) io \<Rightarrow> bool" where
  "writes R obs f m \<longleftrightarrow>
     (\<forall>w r w'. m w = (r, w') \<longrightarrow> (\<exists>o1. R\<^sup>*\<^sup>* (obs w) o1 \<and>
        (case r of
          Inr u \<Rightarrow> R\<^sup>*\<^sup>* (f o1) (obs w')
        | Inl e \<Rightarrow> R\<^sup>*\<^sup>* o1 (obs w') \<or> R\<^sup>*\<^sup>* (f o1) (obs w'))))"

definition writes_if ::
  "('b obs \<Rightarrow> 'b obs \<Rightarrow> bool) \<Rightarrow> ('w \<Rightarrow> 'b obs) \<Rightarrow> ('b obs \<Rightarrow> bool) \<Rightarrow> ('b obs \<Rightarrow> 'b obs) \<Rightarrow>
   ('w, 'e, bool) io \<Rightarrow> bool" where
  "writes_if R obs cond f m \<longleftrightarrow>
     (\<forall>w r w'. m w = (r, w') \<longrightarrow> (\<exists>o1. R\<^sup>*\<^sup>* (obs w) o1 \<and>
        (case r of
          Inr True \<Rightarrow> cond o1 \<and> R\<^sup>*\<^sup>* (f o1) (obs w')
        | Inr False \<Rightarrow> \<not> cond o1 \<and> R\<^sup>*\<^sup>* o1 (obs w')
        | Inl e \<Rightarrow> R\<^sup>*\<^sup>* o1 (obs w') \<or> cond o1 \<and> R\<^sup>*\<^sup>* (f o1) (obs w'))))"

definition submits ::
  "('b obs \<Rightarrow> 'b obs \<Rightarrow> bool) \<Rightarrow> ('w \<Rightarrow> 'b obs) \<Rightarrow> ('b obs \<Rightarrow> bool) \<Rightarrow> ('b obs \<Rightarrow> 'b obs) \<Rightarrow>
   ('w, 'e, bool) io \<Rightarrow> bool" where
  "submits R obs known f m \<longleftrightarrow>
     (\<forall>w r w'. m w = (r, w') \<longrightarrow> (\<exists>o1. R\<^sup>*\<^sup>* (obs w) o1 \<and>
        (case r of
          Inr True \<Rightarrow> R\<^sup>*\<^sup>* (f o1) (obs w')
        | Inr False \<Rightarrow> known o1 \<and> R\<^sup>*\<^sup>* o1 (obs w')
        | Inl e \<Rightarrow> R\<^sup>*\<^sup>* o1 (obs w') \<or> R\<^sup>*\<^sup>* (f o1) (obs w'))))"

text \<open>A verdict is committed when its condition holds, and discarded with the entry kept when not.\<close>

definition expires ::
  "('b obs \<Rightarrow> 'b obs \<Rightarrow> bool) \<Rightarrow> ('w \<Rightarrow> 'b obs) \<Rightarrow> nat \<times> bytes \<Rightarrow> 'b expired \<Rightarrow> ('w, 'e, unit) io \<Rightarrow> bool" where
  "expires R obs entry x m \<longleftrightarrow>
     (\<forall>w r w'. m w = (r, w') \<longrightarrow> (\<exists>o1. R\<^sup>*\<^sup>* (obs w) o1 \<and>
        (R\<^sup>*\<^sup>* o1 (obs w') \<and> (\<not> expired_cond x o1 \<or> (\<exists>e. r = Inl e)) \<or>
         expired_cond x o1 \<and> R\<^sup>*\<^sup>* (apply_expired entry x o1) (obs w'))))"

definition object_result :: "object_error + bytes \<Rightarrow> bytes option \<Rightarrow> bool" where
  "object_result r v =
     (case r of Inr bs \<Rightarrow> v = Some bs | Inl ObjectNotFound \<Rightarrow> v = None | Inl (OtherObject e) \<Rightarrow> True)"

definition last_segment :: "string \<Rightarrow> string" where
  "last_segment path = last (split_on (CHR ''/'') path)"

text \<open>The objects directly within a path.\<close>

definition direct_child :: "string \<Rightarrow> string \<Rightarrow> bool" where
  "direct_child path l = (case strip_prefix (path @ ''/'') l of None \<Rightarrow> False | Some name \<Rightarrow> CHR ''/'' \<notin> set name)"

definition backend_ok ::
  "('b obs \<Rightarrow> 'b obs \<Rightarrow> bool) \<Rightarrow> ('w, 'b) backend \<Rightarrow> ('w \<Rightarrow> 'b obs) \<Rightarrow> bool" where
  "backend_ok R be obs \<longleftrightarrow>
     (\<forall>k. reads_value R obs (\<lambda>o1 v. v = ob_kv o1 k) (kv_get be k)) \<and>
     (\<forall>p. reads R obs (kv_entries be p)) \<and>
     (\<forall>p w es w'. kv_entries be p w = (Inr es, w') \<longrightarrow>
        (\<forall>(k, v) \<in> set es. \<exists>o1. R\<^sup>*\<^sup>* (obs w) o1 \<and> ob_kv o1 k = Some v \<and> strip_prefix p k \<noteq> None)) \<and>
     (\<forall>p w es w' k v. kv_entries be p w = (Inr es, w') \<longrightarrow> strip_prefix p k \<noteq> None \<longrightarrow>
        (\<forall>o1. R\<^sup>*\<^sup>* (obs w) o1 \<longrightarrow> ob_kv o1 k = Some v) \<longrightarrow> (k, v) \<in> set es) \<and>
     (\<forall>k v. writes R obs (apply_effect (PutEffect k v)) (kv_put be k v)) \<and>
     (\<forall>k e v. writes_if R obs (\<lambda>o1. ob_kv o1 k = e) (apply_effect (PutEffect k v)) (kv_compare_put be k e v)) \<and>
     (\<forall>k e es. writes_if R obs (\<lambda>o1. ob_kv o1 k = e) (apply_effects es) (kv_compare_commit be k e es)) \<and>
     (\<forall>es. writes R obs (apply_effects es) (commit_effects be es)) \<and>
     (\<forall>w. later R obs w (snd (clock_now be w))) \<and>
     (\<forall>p spec. submits R obs (run_submitted (rs_run_id spec)) (apply_submit p spec) (wf_submit be p spec)) \<and>
     (\<forall>p i. reads_value R obs (\<lambda>o1 v. v = Some RunLive \<longrightarrow> run_submitted i o1) (wf_status be p i)) \<and>
     (\<forall>p i reason. reads R obs (wf_cancel be p i reason)) \<and>
     (\<forall>p i reason. reads R obs (wf_group_cancel be p i reason)) \<and>
     (\<forall>p i. reads R obs (wf_group_forget be p i)) \<and>
     (\<forall>now age. reads_value R obs (\<lambda>o1 es. \<forall>(t, suffix) \<in> set es. (t, suffix) \<in> ob_expiry o1 \<and> t + age \<le> now)
        (expiry_due be now age)) \<and>
     (\<forall>entry x. expires R obs entry x (expiry_apply be entry x)) \<and>
     (\<forall>p. reads R obs (object_get be p)) \<and>
     (\<forall>p. reads_value R obs (\<lambda>o1 r. object_result r (ob_objects o1 p)) (io_try (object_get be p) :: ('w, lib_error, _) io)) \<and>
     (\<forall>p v. writes R obs (\<lambda>o1. o1\<lparr>ob_objects := (ob_objects o1)(p \<mapsto> v)\<rparr>) (object_put be p v)) \<and>
     (\<forall>p. writes R obs (\<lambda>o1. o1\<lparr>ob_objects := (ob_objects o1)(p := None)\<rparr>) (object_delete be p)) \<and>
     (\<forall>p. reads_value R obs
        (\<lambda>o1 es. distinct (map fst es) \<and> (\<forall>(l, f) \<in> set es. f = Some (last_segment l)) \<and>
           (\<forall>l. l \<in> fst ` set es \<longleftrightarrow> ob_objects o1 l \<noteq> None \<and> direct_child p l))
        (object_list be p))"

text \<open>The laws one by one. A write is a step of a relation \<open>G\<close> when its effect is one and the
  interference is.\<close>

lemma backend_kv_get: "backend_ok R be obs \<Longrightarrow> reads_value R obs (\<lambda>o1 v. v = ob_kv o1 k) (kv_get be k)"
  by (simp add: backend_ok_def)

lemma backend_object_list:
  "backend_ok R be obs \<Longrightarrow> reads_value R obs
     (\<lambda>o1 es. distinct (map fst es) \<and> (\<forall>(l, f) \<in> set es. f = Some (last_segment l)) \<and>
        (\<forall>l. l \<in> fst ` set es \<longleftrightarrow> ob_objects o1 l \<noteq> None \<and> direct_child p l))
     (object_list be p)"
  by (simp add: backend_ok_def)

lemma backend_object_get:
  "backend_ok R be obs \<Longrightarrow> reads_value R obs (\<lambda>o1 r. object_result r (ob_objects o1 p)) (io_try (object_get be p) :: ('w, lib_error, _) io)"
  for be :: "('w, 'b) backend"
  by (simp add: backend_ok_def)

lemma reads_value_reads: "reads_value R obs P m \<Longrightarrow> reads R obs m"
  by (simp add: reads_value_def)

lemma backend_reads:
  assumes "backend_ok R be obs"
  shows "reads R obs (kv_get be k)" "reads R obs (kv_entries be k)" "reads R obs (wf_status be k i)"
    "reads R obs (wf_cancel be k i reason)" "reads R obs (wf_group_cancel be k i reason)"
    "reads R obs (wf_group_forget be k i)" "reads R obs (object_get be k)" "reads R obs (object_list be k)"
    "reads R obs (expiry_due be t age)"
  using assms by (simp_all add: backend_ok_def reads_value_def)

lemma backend_writes:
  assumes "backend_ok R be obs"
  shows "writes R obs (apply_effect (PutEffect k v)) (kv_put be k v)"
    "writes_if R obs (\<lambda>o1. ob_kv o1 k = e) (apply_effect (PutEffect k v)) (kv_compare_put be k e v)"
    "writes_if R obs (\<lambda>o1. ob_kv o1 k = e) (apply_effects es) (kv_compare_commit be k e es)"
    "writes R obs (apply_effects es) (commit_effects be es)"
    "submits R obs (run_submitted (rs_run_id spec)) (apply_submit pool spec) (wf_submit be pool spec)"
    "writes R obs (\<lambda>o1. o1\<lparr>ob_objects := (ob_objects o1)(p \<mapsto> bs)\<rparr>) (object_put be p bs)"
    "writes R obs (\<lambda>o1. o1\<lparr>ob_objects := (ob_objects o1)(p := None)\<rparr>) (object_delete be p)"
  using assms by (simp_all add: backend_ok_def)

lemma backend_status:
  "backend_ok R be obs \<Longrightarrow> reads_value R obs (\<lambda>o1 v. v = Some RunLive \<longrightarrow> run_submitted i o1) (wf_status be p i)"
  by (simp add: backend_ok_def)

lemma backend_due:
  "backend_ok R be obs \<Longrightarrow> reads_value R obs
     (\<lambda>o1 es. \<forall>(t, suffix) \<in> set es. (t, suffix) \<in> ob_expiry o1 \<and> t + age \<le> now) (expiry_due be now age)"
  by (simp add: backend_ok_def)

lemma backend_expires: "backend_ok R be obs \<Longrightarrow> expires R obs entry x (expiry_apply be entry x)"
  by (cases entry) (simp add: backend_ok_def)

lemma backend_clock: "backend_ok R be obs \<Longrightarrow> later R obs w (snd (clock_now be w))"
  by (simp add: backend_ok_def)

lemma backend_entries:
  assumes "backend_ok R be obs" and "kv_entries be p w = (Inr es, w')" and "(k, v) \<in> set es"
  obtains o1 where "R\<^sup>*\<^sup>* (obs w) o1" "ob_kv o1 k = Some v" "strip_prefix p k \<noteq> None"
proof -
  have "\<forall>p w es w'. kv_entries be p w = (Inr es, w') \<longrightarrow>
      (\<forall>(k, v) \<in> set es. \<exists>o1. R\<^sup>*\<^sup>* (obs w) o1 \<and> ob_kv o1 k = Some v \<and> strip_prefix p k \<noteq> None)"
    using assms(1) unfolding backend_ok_def by (elim conjE)
  then show thesis using assms(2,3) that by fastforce
qed

text \<open>A program by itself.\<close>

lemma alone_reads: "reads alone obs m \<Longrightarrow> m w = (r, w') \<Longrightarrow> obs w' = obs w"
  by (auto simp: reads_def later_def dest: later.keepsD)

lemma alone_value: "reads_value alone obs P m \<Longrightarrow> m w = (Inr v, w') \<Longrightarrow> P (obs w) v \<and> obs w' = obs w"
  by (auto simp: reads_value_def)

lemma alone_writes: "writes alone obs f m \<Longrightarrow> m w = (Inr u, w') \<Longrightarrow> obs w' = f (obs w)"
  by (fastforce simp: writes_def)

lemma alone_writes_if: "writes_if alone obs cond f m \<Longrightarrow> m w = (Inr b, w') \<Longrightarrow>
    if b then cond (obs w) \<and> obs w' = f (obs w) else \<not> cond (obs w) \<and> obs w' = obs w"
  by (fastforce simp: writes_if_def split: bool.splits)

lemma alone_submits: "submits alone obs known f m \<Longrightarrow> m w = (Inr b, w') \<Longrightarrow>
    if b then obs w' = f (obs w) else known (obs w) \<and> obs w' = obs w"
  by (fastforce simp: submits_def split: bool.splits)

text \<open>A program among other workers.\<close>

lemma rtranclp_below: "R \<le> G\<^sup>*\<^sup>* \<Longrightarrow> R\<^sup>*\<^sup>* a b \<Longrightarrow> G\<^sup>*\<^sup>* a b"
  by (metis predicate2D rtranclp_idemp rtranclp_mono)

lemma reads_mono: "reads R obs m \<Longrightarrow> R \<le> G\<^sup>*\<^sup>* \<Longrightarrow> reads G obs m"
  by (auto simp: reads_def io_keeps_def later_def intro: rtranclp_below)

lemma writes_step:
  assumes "writes R obs f m" and "R \<le> G\<^sup>*\<^sup>*" and "\<And>o1. G\<^sup>*\<^sup>* o1 (f o1)"
  shows "reads G obs m"
  unfolding reads_def
proof (rule later.keepsI)
  fix s r s'
  assume "m s = (r, s')"
  then obtain o1 where o1: "R\<^sup>*\<^sup>* (obs s) o1" and r: "R\<^sup>*\<^sup>* o1 (obs s') \<or> R\<^sup>*\<^sup>* (f o1) (obs s')"
    using assms(1) unfolding writes_def by (metis old.sum.exhaust old.sum.simps(5) old.sum.simps(6))
  then show "later G obs s s'"
    using rtranclp_below [OF assms(2)] assms(3) [of o1] unfolding later_def by (meson rtranclp_trans)
qed

lemma writes_if_step:
  assumes "writes_if R obs cond f m" and "R \<le> G\<^sup>*\<^sup>*" and "\<And>o1. cond o1 \<Longrightarrow> G\<^sup>*\<^sup>* o1 (f o1)"
  shows "reads G obs m"
  unfolding reads_def
proof (rule later.keepsI)
  fix s r s'
  assume "m s = (r, s')"
  then obtain o1 where o1: "R\<^sup>*\<^sup>* (obs s) o1" and r: "R\<^sup>*\<^sup>* o1 (obs s') \<or> cond o1 \<and> R\<^sup>*\<^sup>* (f o1) (obs s')"
    using assms(1) unfolding writes_if_def by (cases r) (fastforce split: bool.splits)+
  then show "later G obs s s'"
    using rtranclp_below [OF assms(2)] assms(3) [of o1] unfolding later_def by (meson rtranclp_trans)
qed

lemma submits_step:
  assumes "submits R obs known f m" and "R \<le> G\<^sup>*\<^sup>*" and "\<And>o1. G\<^sup>*\<^sup>* o1 (f o1)"
  shows "reads G obs m"
  unfolding reads_def
proof (rule later.keepsI)
  fix s r s'
  assume "m s = (r, s')"
  then obtain o1 where o1: "R\<^sup>*\<^sup>* (obs s) o1" and r: "R\<^sup>*\<^sup>* o1 (obs s') \<or> R\<^sup>*\<^sup>* (f o1) (obs s')"
    using assms(1) unfolding submits_def by (cases r) (fastforce split: bool.splits)+
  then show "later G obs s s'"
    using rtranclp_below [OF assms(2)] assms(3) [of o1] unfolding later_def by (meson rtranclp_trans)
qed

lemma expires_step:
  assumes "expires R obs entry x m" and "R \<le> G\<^sup>*\<^sup>*"
    and "\<And>o1. expired_cond x o1 \<Longrightarrow> G\<^sup>*\<^sup>* o1 (apply_expired entry x o1)"
  shows "reads G obs m"
  unfolding reads_def
proof (rule later.keepsI)
  fix s r s'
  assume "m s = (r, s')"
  then obtain o1 where o1: "R\<^sup>*\<^sup>* (obs s) o1"
    and r: "R\<^sup>*\<^sup>* o1 (obs s') \<or> expired_cond x o1 \<and> R\<^sup>*\<^sup>* (apply_expired entry x o1) (obs s')"
    using assms(1) unfolding expires_def by blast
  then show "later G obs s s'"
    using rtranclp_below [OF assms(2)] assms(3) [of o1] unfolding later_def by (meson rtranclp_trans)
qed

subsection \<open>Codecs\<close>

text \<open>The payload of an events job (\<open>Event\<close> of \<open>hook.rs\<close>).\<close>

record event =
  ev_graph :: string
  ev_partition :: partition
  ev_node :: string
  ev_status :: record_status

record 'b codecs =
  enc_run :: "graph_run_record \<Rightarrow> 'b"
  dec_run :: "'b \<Rightarrow> string + graph_run_record"
  enc_node :: "node_record \<Rightarrow> 'b"
  dec_node :: "'b \<Rightarrow> string + node_record"
  enc_graph :: "graph_record \<Rightarrow> 'b"
  dec_graph :: "'b \<Rightarrow> string + graph_record"
  enc_request :: "request_record \<Rightarrow> 'b"
  dec_request :: "'b \<Rightarrow> string + request_record"
  enc_input :: "task_input \<Rightarrow> 'b"
  dec_input :: "'b \<Rightarrow> string + task_input"
  enc_event :: "event \<Rightarrow> 'b"
  dec_event :: "'b \<Rightarrow> string + event"
  enc_payload :: "request \<Rightarrow> 'b"
  dec_payload :: "'b \<Rightarrow> string + request"

definition codecs_ok :: "'b codecs \<Rightarrow> bool" where
  "codecs_ok c \<longleftrightarrow>
     (\<forall>r. dec_run c (enc_run c r) = Inr r) \<and> (\<forall>r. dec_node c (enc_node c r) = Inr r) \<and>
     (\<forall>r. dec_graph c (enc_graph c r) = Inr r) \<and> (\<forall>r. dec_request c (enc_request c r) = Inr r) \<and>
     (\<forall>r. dec_input c (enc_input c r) = Inr r) \<and> (\<forall>r. dec_event c (enc_event c r) = Inr r) \<and>
     (\<forall>r. dec_payload c (enc_payload c r) = Inr r)"

subsection \<open>Reading records (\<open>records.rs\<close>)\<close>

datatype read_error = ReadQueue lib_error | ReadRecord bytes string

definition parse_record :: "('b \<Rightarrow> string + 'a) \<Rightarrow> bytes \<Rightarrow> 'b \<Rightarrow> read_error + 'a" where
  "parse_record dec key v = (case dec v of Inl message \<Rightarrow> Inl (ReadRecord key message) | Inr r \<Rightarrow> Inr r)"

definition read_record :: "('w, 'b) backend \<Rightarrow> ('b \<Rightarrow> string + 'a) \<Rightarrow> bytes \<Rightarrow> ('w, read_error, 'a option) io" where
  "read_record be dec key =
     io_bind (io_map_error ReadQueue (kv_get be key)) (\<lambda>v.
       case v of
         None \<Rightarrow> io_return None
       | Some bs \<Rightarrow> io_bind (io_of_sum (parse_record dec key bs)) (\<lambda>r. io_return (Some r)))"

text \<open>\<open>scan\<close> keeps the entries that parse, in key order; \<open>scan_last\<close> the last ones of them.\<close>

definition parsed_entries :: "('b \<Rightarrow> string + 'a) \<Rightarrow> (bytes \<times> 'b) list \<Rightarrow> (bytes \<times> 'b \<times> 'a) list" where
  "parsed_entries dec es =
     List.map_filter (\<lambda>(k, v). case parse_record dec k v of Inl e \<Rightarrow> None | Inr r \<Rightarrow> Some (k, v, r)) es"

definition scan_records ::
  "('w, 'b) backend \<Rightarrow> ('b \<Rightarrow> string + 'a) \<Rightarrow> bytes \<Rightarrow> ('w, lib_error, (bytes \<times> 'b \<times> 'a) list) io" where
  "scan_records be dec prefix = io_bind (kv_entries be prefix) (\<lambda>es. io_return (parsed_entries dec es))"

end
