(* ===== verification/Definition_Store.thy ===== *)
theory Definition_Store
  imports Definition World
begin

section \<open>The definition store (\<open>definition_store.rs\<close>, \<open>store.rs\<close>)\<close>

text \<open>
  The definitions by content hash, in the object store and in a cache. The state of a process is
  the state of the services with the cache, and an environment is what a process is started
  with: the services, the codecs, the parsers and the operators. An object path is its text; the
  file name of a listed object is the object store's.
\<close>

record ('w, 'x) process =
  st_world :: 'w
  st_graphs :: "string \<Rightarrow> 'x graph option"

record ('w, 'b, 'x, 'r) env =
  en_backend :: "('w, 'b) backend"
  en_codecs :: "'b codecs"
  en_toml :: "string \<Rightarrow> string + def_file"
  en_sha256 :: "bytes \<Rightarrow> nat list"
  en_utc :: "nat \<Rightarrow> civil option"
  en_cron :: "'x cron"
  en_operators :: "'r operator_set"
  en_store_prefix :: string
  en_params_json :: "toml_table \<Rightarrow> json"

definition world_io :: "('w, 'e, 'a) io \<Rightarrow> (('w, 'x) process, 'e, 'a) io" where
  "world_io m = io_lift st_world (\<lambda>w s. s\<lparr>st_world := w\<rparr>) m"

definition env_load :: "('w, 'b, 'x, 'r) env \<Rightarrow> string \<Rightarrow> load_error + 'x graph" where
  "env_load en t = load_str (en_toml en) (en_utc en) (en_cron en) (en_operators en) t"

definition env_hash :: "('w, 'b, 'x, 'r) env \<Rightarrow> string \<Rightarrow> string" where
  "env_hash en t = definition_hash (en_sha256 en) t"

subsection \<open>Object prefixes (\<open>store.rs\<close>)\<close>

definition store_path :: "string \<Rightarrow> string \<Rightarrow> string" where
  "store_path prefix name = (if prefix = [] then name else prefix @ ''/'' @ name)"

definition prefix_path :: "string \<Rightarrow> string \<Rightarrow> string" where
  "prefix_path prefix suffix = prefix @ ''/'' @ suffix"

definition prefix_get :: "('w, 'b) backend \<Rightarrow> string \<Rightarrow> ('w, lib_error, bytes option) io" where
  "prefix_get be path =
     io_bind (io_try (object_get be path)) (\<lambda>r.
       case r of
         Inr v \<Rightarrow> io_return (Some v)
       | Inl ObjectNotFound \<Rightarrow> io_return None
       | Inl (OtherObject e) \<Rightarrow> io_fail e)"

definition prefix_put :: "('w, 'b) backend \<Rightarrow> string \<Rightarrow> bytes \<Rightarrow> ('w, lib_error, unit) io" where
  "prefix_put be path v = io_bind (object_put be path v) (\<lambda>u. io_return ())"

text \<open>The location of every object directly within the path, with the file name of the location.\<close>

definition prefix_list :: "('w, 'b) backend \<Rightarrow> string \<Rightarrow> ('w, lib_error, (string \<times> string option) list) io" where
  "prefix_list be path = io_bind (object_list be path) (\<lambda>objects. io_return objects)"

definition prefix_delete :: "('w, 'b) backend \<Rightarrow> string \<Rightarrow> ('w, lib_error, unit) io" where
  "prefix_delete be path =
     io_bind (io_try (object_delete be path)) (\<lambda>r.
       case r of
         Inr u \<Rightarrow> io_return ()
       | Inl ObjectNotFound \<Rightarrow> io_return ()
       | Inl (OtherObject e) \<Rightarrow> io_fail e)"

lemma prefix_calls: "prefix_put be path v = object_put be path v" "prefix_list be path = object_list be path"
  by (auto simp: prefix_put_def prefix_list_def io_bind_def io_return_def fun_eq_iff split: prod.splits sum.splits)

subsection \<open>The store\<close>

datatype definition_error =
    DefinitionObjectStore lib_error
  | DefinitionInvalid load_error
  | NotText string
  | HashMismatch string
  | AssetConflict string string

record 'x published =
  pub_graph :: "'x graph"
  pub_hash :: string
  pub_changed :: bool

definition definitions_prefix :: "('w, 'b, 'x, 'r) env \<Rightarrow> string" where
  "definitions_prefix en = store_path (en_store_prefix en) ''definitions''"

definition definition_path :: "('w, 'b, 'x, 'r) env \<Rightarrow> string \<Rightarrow> string" where
  "definition_path en hash = prefix_path (definitions_prefix en) (hash @ ''.toml'')"

definition pointer_path :: "('w, 'b, 'x, 'r) env \<Rightarrow> string \<Rightarrow> string" where
  "pointer_path en graph = prefix_path (definitions_prefix en) (''current/'' @ graph)"

definition cache_graph :: "string \<Rightarrow> 'x graph \<Rightarrow> (('w, 'x) process, 'e, 'x graph) io" where
  "cache_graph hash g s =
     (case st_graphs s hash of
       Some cached \<Rightarrow> (Inr cached, s)
     | None \<Rightarrow> (Inr g, s\<lparr>st_graphs := (st_graphs s)(hash \<mapsto> g)\<rparr>))"

definition cached_graph :: "string \<Rightarrow> (('w, 'x) process, 'e, 'x graph option) io" where
  "cached_graph hash s = (Inr (st_graphs s hash), s)"

definition read_text ::
  "('w, 'b, 'x, 'r) env \<Rightarrow> string \<Rightarrow> (('w, 'x) process, definition_error, string option) io" where
  "read_text en path =
     io_bind (io_map_error DefinitionObjectStore (world_io (prefix_get (en_backend en) path))) (\<lambda>v.
       case v of
         None \<Rightarrow> io_return None
       | Some bs \<Rightarrow>
           (case from_utf8 bs of None \<Rightarrow> io_fail (NotText path) | Some t \<Rightarrow> io_return (Some t)))"

definition definition_get ::
  "('w, 'b, 'x, 'r) env \<Rightarrow> string \<Rightarrow> (('w, 'x) process, definition_error, 'x graph option) io" where
  "definition_get en hash =
     io_bind (cached_graph hash) (\<lambda>cached.
       case cached of
         Some g \<Rightarrow> io_return (Some g)
       | None \<Rightarrow>
           io_bind (read_text en (definition_path en hash)) (\<lambda>v.
             case v of
               None \<Rightarrow> io_return None
             | Some t \<Rightarrow>
                 if env_hash en t \<noteq> hash then io_fail (HashMismatch hash)
                 else io_bind (io_map_error DefinitionInvalid (io_of_sum (env_load en t))) (\<lambda>g.
                   io_bind (cache_graph hash g) (\<lambda>g'. io_return (Some g')))))"

definition definition_write ::
  "('w, 'b, 'x, 'r) env \<Rightarrow> string \<Rightarrow> 'x graph \<Rightarrow> (('w, 'x) process, definition_error, string \<times> 'x graph) io" where
  "definition_write en t g =
     (let hash = env_hash en t in
      io_bind (io_map_error DefinitionObjectStore
          (world_io (prefix_put (en_backend en) (definition_path en hash) t))) (\<lambda>u.
        io_bind (cache_graph hash g) (\<lambda>g'. io_return (hash, g'))))"

definition definition_put ::
  "('w, 'b, 'x, 'r) env \<Rightarrow> string \<Rightarrow> (('w, 'x) process, definition_error, string \<times> 'x graph) io" where
  "definition_put en t =
     io_bind (io_map_error DefinitionInvalid (io_of_sum (env_load en t))) (\<lambda>g. definition_write en t g)"

definition definition_current ::
  "('w, 'b, 'x, 'r) env \<Rightarrow> (('w, 'x) process, definition_error, (string, string) btree) io" where
  "definition_current en =
     io_bind (io_map_error DefinitionObjectStore
         (world_io (prefix_list (en_backend en) (prefix_path (definitions_prefix en) ''current'')))) (\<lambda>objects.
       io_fold (\<lambda>(location, filename) current.
         case filename of
           None \<Rightarrow> io_return current
         | Some name \<Rightarrow>
             io_bind (read_text en location) (\<lambda>v.
               case v of
                 None \<Rightarrow> io_return current
               | Some hash \<Rightarrow> io_return (bt_insert name (trim hash) current)))
         objects [])"

text \<open>The check of a new definition against the current definition of every other graph.\<close>

definition check_conflicts ::
  "('w, 'b, 'x, 'r) env \<Rightarrow> 'x graph \<Rightarrow> (string, string) btree \<Rightarrow> (('w, 'x) process, definition_error, unit) io" where
  "check_conflicts en g current =
     io_fold (\<lambda>(name, hash) u.
       if name = gr_name g then io_return ()
       else io_bind (definition_get en hash) (\<lambda>other.
         case other of
           None \<Rightarrow> io_return ()
         | Some h \<Rightarrow>
             (case conflicting_asset g h of
               None \<Rightarrow> io_return ()
             | Some n \<Rightarrow>
                 io_fail (AssetConflict (case node_asset n of None \<Rightarrow> [] | Some a \<Rightarrow> a) name))))
       current ()"

definition definition_publish ::
  "('w, 'b, 'x, 'r) env \<Rightarrow> string \<Rightarrow> (('w, 'x) process, definition_error, 'x published) io" where
  "definition_publish en t =
     io_bind (io_map_error DefinitionInvalid (io_of_sum (env_load en t))) (\<lambda>g.
       io_bind (definition_current en) (\<lambda>current.
         io_bind (check_conflicts en g current) (\<lambda>u.
           io_bind (definition_write en t g) (\<lambda>(hash, g').
             let changed = (bt_get current (gr_name g') \<noteq> Some hash) in
             if changed
             then io_bind (io_map_error DefinitionObjectStore
                 (world_io (prefix_put (en_backend en) (pointer_path en (gr_name g')) hash))) (\<lambda>u.
                   io_return \<lparr>pub_graph = g', pub_hash = hash, pub_changed = changed\<rparr>)
             else io_return \<lparr>pub_graph = g', pub_hash = hash, pub_changed = changed\<rparr>))))"

subsection \<open>The cache holds what its hash names\<close>

definition cache_ok :: "('w, 'b, 'x, 'r) env \<Rightarrow> ('w, 'x) process \<Rightarrow> bool" where
  "cache_ok en s \<longleftrightarrow>
     (\<forall>hash g. st_graphs s hash = Some g \<longrightarrow> (\<exists>t. env_hash en t = hash \<and> env_load en t = Inr g))"

text \<open>A program whose writes to the services are steps of \<open>G\<close> and that does not break the cache.\<close>

definition quiet ::
  "('w, 'b, 'x, 'r) env \<Rightarrow> ('b obs \<Rightarrow> 'b obs \<Rightarrow> bool) \<Rightarrow> ('w \<Rightarrow> 'b obs) \<Rightarrow>
   ('w, 'x) process \<Rightarrow> ('w, 'x) process \<Rightarrow> bool" where
  "quiet en G obs s s' \<longleftrightarrow> later G obs (st_world s) (st_world s') \<and> (cache_ok en s \<longrightarrow> cache_ok en s')"

interpretation quiet: io_preorder "quiet en G obs" for en G obs
  by standard (auto simp: quiet_def later_def)

lemma world_io_result:
  "world_io m s = (r, s') \<longleftrightarrow> (\<exists>w. m (st_world s) = (r, w) \<and> s' = s\<lparr>st_world := w\<rparr>)"
  by (auto simp: world_io_def io_lift_def split: prod.splits)

lemma cache_ok_world [simp]: "cache_ok en (s\<lparr>st_world := w\<rparr>) \<longleftrightarrow> cache_ok en s"
  by (simp add: cache_ok_def)

lemma quiet_world_io: "reads G obs m \<Longrightarrow> io_keeps (quiet en G obs) (world_io m)"
  by (auto simp: io_keeps_def quiet_def reads_def world_io_result)

lemma quiet_mono: "io_keeps (quiet en R obs) m \<Longrightarrow> R \<le> G\<^sup>*\<^sup>* \<Longrightarrow> io_keeps (quiet en G obs) m"
  by (auto simp: io_keeps_def quiet_def later_def intro: rtranclp_below)

lemma quiet_cached_graph: "io_keeps (quiet en R obs) (cached_graph hash)"
  by (auto simp: io_keeps_def quiet_def later_def cached_graph_def)

lemma quiet_cache_graph:
  "env_hash en t = hash \<Longrightarrow> env_load en t = Inr g \<Longrightarrow> io_keeps (quiet en R obs) (cache_graph hash g)"
  by (auto simp: io_keeps_def quiet_def later_def cache_graph_def cache_ok_def split: option.splits)

lemma quiet_read_text: "backend_ok R (en_backend en) obs \<Longrightarrow> io_keeps (quiet en R obs) (read_text en path)"
  unfolding read_text_def prefix_get_def
  by (intro quiet.keeps_intros quiet_world_io reads_intros)
    (auto intro!: quiet.keeps_intros reads_intros backend_reads split: option.split sum.split object_error.split)

lemma quiet_current: "backend_ok R (en_backend en) obs \<Longrightarrow> io_keeps (quiet en R obs) (definition_current en)"
  unfolding definition_current_def prefix_calls
  by (auto intro!: quiet.keeps_intros quiet_world_io backend_reads quiet_read_text split: option.split)

lemma quiet_definition_get:
  assumes "backend_ok R (en_backend en) obs"
  shows "io_keeps (quiet en R obs) (definition_get en hash)"
proof -
  have "io_keeps (quiet en R obs) (io_bind (io_map_error DefinitionInvalid (io_of_sum (env_load en t)))
      (\<lambda>g. io_bind (cache_graph hash g) (\<lambda>g'. io_return (Some g'))))" if "env_hash en t = hash" for t
  proof (cases "env_load en t")
    case (Inl e)
    then show ?thesis by (auto simp: io_keeps_def quiet.R_refl io_map_error_result elim!: io_bind_cases)
  next
    case (Inr g)
    then have "io_map_error DefinitionInvalid (io_of_sum (env_load en t)) = io_return g"
      by (simp add: io_defs fun_eq_iff)
    show ?thesis unfolding \<open>io_map_error DefinitionInvalid (io_of_sum (env_load en t)) = io_return g\<close> io_bind_return
      by (intro quiet.keeps_intros quiet_cache_graph [OF that Inr])
  qed
  then show ?thesis
    unfolding definition_get_def
    by (intro quiet.keeps_bind quiet_cached_graph)
      (auto intro!: quiet.keeps_intros quiet_read_text [OF assms] split: option.split)
qed

definition same_cache :: "('w, 'x) process \<Rightarrow> ('w, 'x) process \<Rightarrow> bool" where
  "same_cache s s' \<longleftrightarrow> st_graphs s' = st_graphs s"

interpretation same_cache: io_preorder same_cache
  by standard (auto simp: same_cache_def)

lemma same_cache_world_io: "io_keeps same_cache (world_io m)"
  by (auto simp: io_keeps_def same_cache_def world_io_result)

lemma same_cache_read_text: "io_keeps same_cache (read_text en path)"
  unfolding read_text_def
  by (auto intro!: same_cache.keeps_intros same_cache_world_io split: option.split)

text \<open>A graph that the store returns is the one its hash names, so it is well formed.\<close>

lemma definition_get_graph:
  assumes "cache_ok en s" and "definition_get en hash s = (Inr (Some g), s')"
  shows "\<exists>t. env_hash en t = hash \<and> env_load en t = Inr g"
proof (cases "st_graphs s hash")
  case (Some g')
  then have "g' = g" using assms(2) by (simp add: definition_get_def io_bind_def cached_graph_def)
  then show ?thesis using assms(1) Some by (auto simp: cache_ok_def)
next
  case None
  note got = assms(2) [unfolded definition_get_def io_bind_Inr]
  from got obtain r s1 where r: "read_text en (definition_path en hash) s = (Inr r, s1)"
    and rr: "(case r of None \<Rightarrow> io_return None | Some t \<Rightarrow>
        if env_hash en t \<noteq> hash then io_fail (HashMismatch hash)
        else io_bind (io_map_error DefinitionInvalid (io_of_sum (env_load en t)))
          (\<lambda>g. io_bind (cache_graph hash g) (\<lambda>g'. io_return (Some g')))) s1 = (Inr (Some g), s')"
    using None by (auto simp: cached_graph_def io_bind_Inr)
  then obtain t where read: "read_text en (definition_path en hash) s = (Inr (Some t), s1)"
    and hash: "env_hash en t = hash"
    and rest: "io_bind (io_map_error DefinitionInvalid (io_of_sum (env_load en t)))
      (\<lambda>g. io_bind (cache_graph hash g) (\<lambda>g'. io_return (Some g'))) s1 = (Inr (Some g), s')"
    by (cases r) (auto split: if_splits)
  have same: "st_graphs s1 = st_graphs s"
    using same_cache.keepsD [OF same_cache_read_text read] by (simp add: same_cache_def)
  from rest obtain g0 where "env_load en t = Inr g0" "cache_graph hash g0 s1 = ((Inr g :: definition_error + _), s')"
    by (auto simp: io_bind_Inr dest: sym)
  then have "g0 = g" using None same by (simp add: cache_graph_def)
  with \<open>env_load en t = Inr g0\<close> hash show ?thesis by blast
qed

lemma definition_get_wf:
  assumes "cache_ok en s" and "definition_get en hash s = (Inr (Some g), s')"
  shows "wf_graph g" and "named_graph g"
  using definition_get_graph [OF assms] unfolding env_load_def by (auto dest: load_str_wf load_str_named)

end
