(* ===== verification/Graph_Examples.thy ===== *)
theory Graph_Examples
  imports Definition
begin

section \<open>An example specification\<close>

text \<open>
  Concrete inputs for the witnesses: a calendar with an hour per millisecond, a cron expression
  that fires once a day, an operator that accepts every parameter table, and a specification
  with two asset nodes and a task node.
\<close>

definition example_utc :: "nat \<Rightarrow> civil option" where
  "example_utc ms = (if ms < 744
     then Some \<lparr>year = 1970, month = 1, day = ms div 24 + 1, hour = ms mod 24\<rparr> else None)"

definition example_cron :: "nat cron" where
  "example_cron =
     \<lparr>cron_parse = (\<lambda>t. if t = ''0 2 * * *'' then Inr 24 else Inl (InvalidExpression ''no'')),
      cron_next_after = (\<lambda>x ms. Some (ms - ms mod x + x + 2)),
      cron_previous_before = (\<lambda>x ms. if ms < x + 2 then None else Some (ms - x))\<rparr>"

definition example_operators :: "unit operator_set" where
  "example_operators = operators_add ''shell'' (\<lambda>params. Inr ()) () operators_new"

definition example_node :: "string \<Rightarrow> node_kind \<Rightarrow> node_spec" where
  "example_node name kind =
     \<lparr>ns_name = name, ns_kind = kind, ns_operator = ''shell'', ns_pool = ''default'', ns_retries = 0,
      ns_params = [(''command'', TString ''run {{ partition }}'')], ns_each = None\<rparr>"

definition example_nodes :: "node_spec list" where
  "example_nodes =
     [example_node ''extract'' (AssetNode ''raw'' []),
      example_node ''load'' (AssetNode ''clean'' [''raw'']),
      example_node ''alert'' (TaskNode [''extract'', ''load''] OneFailed)]"

definition example_spec :: graph_spec where
  "example_spec =
     \<lparr>gs_name = ''orders'', gs_schedule = Some ''0 2 * * *'', gs_catchup = None, gs_partitioning = Daily,
      gs_nodes = example_nodes\<rparr>"

definition cyclic_spec :: graph_spec where
  "cyclic_spec =
     \<lparr>gs_name = ''orders'', gs_schedule = None, gs_catchup = None, gs_partitioning = Unpartitioned,
      gs_nodes = [example_node ''a'' (TaskNode [''b''] AllSucceeded), example_node ''b'' (TaskNode [''a''] AllDone)]\<rparr>"

definition example_graph :: "nat graph" where
  "example_graph =
     (let node = (\<lambda>spec ups downs. \<lparr>nd_spec = spec, nd_upstreams = ups, nd_downstreams = downs\<rparr>)
      in \<lparr>gr_name = ''orders'', gr_schedule = Some 24, gr_catchup = None, gr_partitioning = Daily,
          gr_nodes = [node (example_nodes ! 0) [] [''alert'', ''load''],
                      node (example_nodes ! 1) [''extract''] [''alert''],
                      node (example_nodes ! 2) [''extract'', ''load''] []],
          gr_index = [(''alert'', 2), (''extract'', 0), (''load'', 1)]\<rparr>)"

lemma example_schedule: "build_schedule example_utc example_cron example_spec = (Some 24, [])"
proof -
  have "fires_twice_within_a_partition example_utc example_cron 24 Daily = False"
    by (simp add: fires_twice_within_a_partition_def example_cron_def of_time_def i64_max_def example_utc_def
        daily_key_def pad_zero_def show_nat.simps digit_char_def)
  then show ?thesis by (simp add: build_schedule_def example_spec_def example_cron_def)
qed

lemma example_index: "build_index ''orders'' 0 example_nodes [] = ([(''alert'', 2), (''extract'', 0), (''load'', 1)], [])"
  by code_simp

lemma example_producers: "build_producers example_nodes = [(''clean'', [''load'']), (''raw'', [''extract''])]"
  by code_simp

lemma example_upstreams:
  "map (upstreams_of [(''clean'', [''load'']), (''raw'', [''extract''])] [(''alert'', 2), (''extract'', 0), (''load'', 1)])
     example_nodes = [([], []), ([''extract''], []), ([''extract'', ''load''], [])]"
  by code_simp

lemma example_params: "param_faults example_operators (example_node name kind) ups = []"
proof -
  have "parse ''run {{ partition }}'' = Inr [Literal ''run '', PartitionRef]" by code_simp
  then show ?thesis
    by (simp add: param_faults_def operator_faults_def operators_check_def example_operators_def operators_add_def
        operators_new_def example_node_def bt_get_def)
qed

lemma example_cycle:
  "find_cycle example_nodes [[], [''extract''], [''extract'', ''load'']] [(''alert'', 2), (''extract'', 0), (''load'', 1)]
     = Some None"
  by code_simp

lemma example_assemble:
  "assemble example_nodes [[], [''extract''], [''extract'', ''load'']]
     (build_downstreams example_nodes [[], [''extract''], [''extract'', ''load'']]) = gr_nodes example_graph"
  by code_simp

lemma example_assets: "concat (map asset_name_faults example_nodes) = []"
  by code_simp

text \<open>The build of a specification without faults, from the value of each of its parts.\<close>

lemma build_parts:
  assumes "is_name (gs_name spec)" "gs_nodes spec \<noteq> []"
    and schedule: "build_schedule utc cr spec = (schedule, [])"
    and index: "build_index (gs_name spec) 0 (gs_nodes spec) [] = (index, [])"
    and producers: "build_producers (gs_nodes spec) = producers" and dup: "duplicate_assets producers = []"
    and ups: "map (upstreams_of producers index) (gs_nodes spec) = map (\<lambda>us. (us, [])) uss"
    and params: "\<And>n us. n \<in> set (gs_nodes spec) \<Longrightarrow> param_faults operators n us = []"
    and assets: "concat (map asset_name_faults (gs_nodes spec)) = []"
    and cycle: "find_cycle (gs_nodes spec) uss index = Some None"
  shows "build utc cr operators spec = Some (Inr
     \<lparr>gr_name = gs_name spec, gr_schedule = schedule, gr_catchup = gs_catchup spec,
      gr_partitioning = gs_partitioning spec,
      gr_nodes = assemble (gs_nodes spec) uss (build_downstreams (gs_nodes spec) uss), gr_index = index\<rparr>)"
proof -
  have none: "concat (map (\<lambda>(n, us). param_faults operators n us) (zip (gs_nodes spec) uss)) = []"
    by (auto simp: params dest!: set_zip_leftD)
  have split: "map fst (map (\<lambda>us. (us, [])) uss) = uss" "concat (map snd (map (\<lambda>us. (us, [])) uss)) = []"
    by (simp_all add: comp_def concat_eq_Nil_conv)
  show ?thesis
    unfolding build_def Let_def schedule index producers prod.case ups split none assets cycle dup
    using assms(1,2) by simp
qed

lemma build_example: "build example_utc example_cron example_operators example_spec = Some (Inr example_graph)"
proof -
  have fields: "gs_name example_spec = ''orders''" "gs_nodes example_spec = example_nodes"
    "gs_catchup example_spec = None" "gs_partitioning example_spec = Daily"
    by (simp_all add: example_spec_def)
  have "is_name ''orders''" "example_nodes \<noteq> []" by (code_simp, simp add: example_nodes_def)
  moreover have "n \<in> set example_nodes \<Longrightarrow> param_faults example_operators n us = []" for n us
    by (auto simp: example_nodes_def example_params)
  ultimately have "build example_utc example_cron example_operators example_spec = Some (Inr
     \<lparr>gr_name = ''orders'', gr_schedule = Some 24, gr_catchup = None, gr_partitioning = Daily,
      gr_nodes = gr_nodes example_graph, gr_index = [(''alert'', 2), (''extract'', 0), (''load'', 1)]\<rparr>)"
    using build_parts [of example_spec example_utc example_cron "Some 24" "[(''alert'', 2), (''extract'', 0), (''load'', 1)]"
        "[(''clean'', [''load'']), (''raw'', [''extract''])]" "[[], [''extract''], [''extract'', ''load'']]" example_operators]
    unfolding fields by (simp del: One_nat_def add: example_schedule example_index example_producers example_upstreams example_assets
        example_cycle example_assemble duplicate_assets_def)
  then show ?thesis by (simp add: example_graph_def)
qed

lemma example_valid: "valid_spec example_utc example_cron example_operators example_spec"
  using build_example by (simp add: build_accepts)

lemma example_built: "example_graph = built_graph example_utc example_cron example_spec"
  using build_example by (simp add: build_accepts)

lemma example_wf: "wf_graph example_graph"
  unfolding example_built by (rule built_wf [OF example_valid])

lemma example_named: "named_graph example_graph"
  unfolding example_built by (rule valid_spec_named [OF example_valid])

lemma cyclic_build: "build example_utc example_cron example_operators cyclic_spec = Some (Inl [Cycle [''a'', ''b'', ''a'']])"
proof -
  define nodes where "nodes = [example_node ''a'' (TaskNode [''b''] AllSucceeded), example_node ''b'' (TaskNode [''a''] AllDone)]"
  have name: "is_name ''orders''" by code_simp
  have fields: "gs_name cyclic_spec = ''orders''" "gs_nodes cyclic_spec = nodes"
    by (simp_all add: cyclic_spec_def nodes_def)
  have schedule: "build_schedule example_utc example_cron cyclic_spec = (None, [])"
    by (simp add: build_schedule_def cyclic_spec_def)
  have index: "build_index ''orders'' 0 nodes [] = ([(''a'', 0), (''b'', 1)], [])" unfolding nodes_def by code_simp
  have producers: "build_producers nodes = []" unfolding nodes_def by code_simp
  have upstreams: "map (upstreams_of [] [(''a'', 0), (''b'', 1)]) nodes = [([''b''], []), ([''a''], [])]"
    unfolding nodes_def by code_simp
  have ups: "map fst [([''b''], []), ([''a''], [])] = [[''b''], [''a'']]" by simp
  have params: "concat (map (\<lambda>(n, us). param_faults example_operators n us) (zip nodes uss)) = []" for uss
    by (auto simp: nodes_def example_params dest!: set_zip_leftD)
  have assets: "concat (map asset_name_faults nodes) = []" unfolding nodes_def by code_simp
  have cycle: "find_cycle nodes [[''b''], [''a'']] [(''a'', 0), (''b'', 1)] = Some (Some [''a'', ''b'', ''a''])"
    unfolding nodes_def by code_simp
  have "nodes \<noteq> []" by (simp add: nodes_def)
  then show ?thesis
    unfolding build_def Let_def fields schedule index producers prod.case upstreams ups params assets cycle
    using name by (simp add: duplicate_assets_def)
qed

end
