(* ===== verification/Graph_Keys.thy ===== *)
theory Graph_Keys
  imports Definition Task
begin

section \<open>The record keys of a graph\<close>

text \<open>
  A graph that \<open>load_str\<close> returns produces an asset with one node at most, and so two nodes of it do
  not share a record key. The run ids of its nodes differ as well.
\<close>

definition one_producer :: "'x graph \<Rightarrow> bool" where
  "one_producer g \<longleftrightarrow> (\<forall>a. length (producer_names (map nd_spec (gr_nodes g)) a) \<le> 1)"

lemma load_str_producer: "load_str toml_parse utc cr operators t = Inr g \<Longrightarrow> one_producer g"
proof -
  have "one_producer (built_graph utc cr spec)" if "valid_spec utc cr operators spec" for spec
    using that built_names [OF valid_spec_names [OF that], of utc cr] by (simp add: one_producer_def valid_spec_def)
  then show "load_str toml_parse utc cr operators t = Inr g \<Longrightarrow> one_producer g" by (auto simp: load_str_Inr)
qed

lemma one_producer_node:
  assumes "wf_graph g" and "one_producer g" and "n \<in> set (gr_nodes g)" and "m \<in> set (gr_nodes g)"
    and "node_asset n = Some a" and "node_asset m = Some a"
  shows "n = m"
proof (rule ccontr)
  assume "n \<noteq> m"
  then have "node_name n \<noteq> node_name m" using graph_node_unique [OF assms(1,3,4)] by blast
  have prod: "produces (nd_spec x) a" if "node_asset x = Some a" for x
    using that by (auto simp: node_asset_def produces_def split: node_kind.splits)
  have "{node_name n, node_name m} \<subseteq> set (producer_names (map nd_spec (gr_nodes g)) a)"
    using assms(3-6) prod by (auto simp: producer_names_def node_name_def)
  then have "card {node_name n, node_name m} \<le> length (producer_names (map nd_spec (gr_nodes g)) a)"
    by (meson card_length card_mono finite_set le_trans)
  then show False using \<open>node_name n \<noteq> node_name m\<close> assms(2) by (auto simp: one_producer_def dest: spec [of _ a])
qed

lemma node_keys_eq:
  assumes "wf_graph g" and "named_graph g" and "one_producer g"
    and "n \<in> set (gr_nodes g)" and "m \<in> set (gr_nodes g)" and "partition_ok p" and "partition_ok q"
  shows "node_record_key (gr_name g) p n = node_record_key (gr_name g) q m \<longleftrightarrow> n = m \<and> p = q"
proof -
  have name: "is_name (gr_name g)" and assets: "\<And>n a. n \<in> set (gr_nodes g) \<Longrightarrow> node_asset n = Some a \<Longrightarrow> is_name a"
    using assms(2) by (auto simp: named_graph_def)
  show ?thesis
  proof (cases "node_asset n"; cases "node_asset m")
    fix a b
    assume ab: "node_asset n = Some a" "node_asset m = Some b"
    then have "is_name a" "is_name b" using assets assms(4,5) by blast+
    then show ?thesis
      using ab one_producer_node [OF assms(1,3,4,5)] asset_key_eq_iff [of a b p q] assms(6,7)
      by (auto simp: node_record_key_def record_key_def)
  next
    assume "node_asset n = None" "node_asset m = None"
    then show ?thesis
      using task_key_eq_iff [OF name name assms(6,7)] graph_node_unique [OF assms(1,4,5)]
      by (auto simp: node_record_key_def record_key_def)
  qed (auto simp: node_record_key_def record_key_def asset_key_task_key asset_key_task_key [symmetric])
qed

lemma node_run_ids_eq:
  assumes "wf_graph g" and "named_graph g" and "partition_ok p" and "n \<in> set (gr_nodes g)" and "m \<in> set (gr_nodes g)"
  shows "run_id (gr_name g) p (node_name n) k = run_id (gr_name g) p (node_name m) j \<longleftrightarrow> n = m \<and> k = j"
proof -
  have names: "is_name (gr_name g)" "is_name (node_name n)" "is_name (node_name m)"
    using assms(2,4,5) by (auto simp: named_graph_def)
  show ?thesis
    using run_id_eq_iff [OF names(1) names(1) assms(3) assms(3) names(2,3), of k j] graph_node_unique [OF assms(1,4,5)] by auto
qed

end
