(* ===== verification/Core_Properties.thy ===== *)
theory Core_Properties
  imports Graph_Examples Graph_Keys Template_Roundtrip
begin

section \<open>Properties of definitions, graphs, templates and keys\<close>

text \<open>
  The results on what a definition can be and on the textual formats, with their instances: the
  build of a graph, the template language, durations, partition keys, record keys, run ids and
  headers.
\<close>

subsection \<open>Graphs\<close>


text \<open>\<open>Graph::build\<close> always returns: the cycle search neither loops nor panics, and a
  rejection lists at least one fault.\<close>

theorem build_returns: "\<exists>r. build utc cr operators spec = Some r \<and> r \<noteq> Inl []"
  by (cases utc cr operators spec rule: build_cases) auto

text \<open>C19. A graph that \<open>Graph::build\<close> returns is well formed: it has the nodes of the
  specification in their order, the index finds every node by its name, the upstream and
  downstream lists are converse to each other and the upstream relation is acyclic.\<close>

theorem build_graph_wf:
  assumes "build utc cr operators spec = Some (Inr g)"
  shows "wf_graph g \<and> map nd_spec (gr_nodes g) = gs_nodes spec \<and>
     upstream_rel g = dependency_rel (gs_nodes spec)"
proof -
  have valid: "valid_spec utc cr operators spec" and g: "g = built_graph utc cr spec"
    using assms by (simp_all add: build_accepts)
  show ?thesis
    unfolding g using built_wf [OF valid] built_names built_upstream_rel valid_spec_names [OF valid] by blast
qed

theorem build_graph_wf_witness:
  "build example_utc example_cron example_operators example_spec = Some (Inr example_graph) \<and>
   wf_graph example_graph \<and> map nd_upstreams (gr_nodes example_graph) = [[], [''extract''], [''extract'', ''load'']]"
  using build_example build_graph_wf [OF build_example] by (simp add: example_graph_def)

lemma check_templates_no_cycle: "Cycle c \<notin> set (check_templates n ups path v)"
  by (induction n ups path v rule: check_templates.induct) (auto split: sum.splits)

lemma problems_no_cycle: "Cycle c \<notin> set (problems_of utc cr operators spec)"
proof -
  have "Cycle c \<notin> set (snd (build_index g i ns index))" for g i ns index
    by (induction ns arbitrary: i index) (auto simp: build_index_Cons name_faults_def simp del: build_index.simps(2))
  moreover have "Cycle c \<notin> set (snd (upstreams_of p i n))" for p i n
    by (auto simp: upstreams_of_def split: node_kind.splits)
  moreover have "Cycle c \<notin> set (asset_name_faults n)" for n
    by (auto simp: asset_name_faults_def split: node_kind.splits)
  moreover have "Cycle c \<notin> set (snd (build_schedule utc cr spec))"
    by (auto simp: build_schedule_def split: option.splits sum.splits cron_error.splits)
  moreover have "Cycle c \<notin> set (param_faults operators n us)" for n us
    by (auto simp: param_faults_def operator_faults_def check_each_def check_templates_no_cycle
        split: sum.splits operator_error.splits option.splits)
  ultimately show ?thesis
    by (auto simp: problems_of_def duplicate_assets_def split: if_splits prod.splits)
qed

text \<open>C20. A reported cycle is a cycle of the specification: a closed path of at least one edge,
  each node an upstream of the one before it.\<close>

theorem build_cycle_real:
  assumes "build utc cr operators spec = Some (Inl [Cycle c])"
  shows "2 \<le> length c \<and> hd c = last c \<and> successively (\<lambda>a b. (a, b) \<in> dependency_rel (gs_nodes spec)) c"
proof (cases utc cr operators spec rule: build_cases)
  case faults
  then have "problems_of utc cr operators spec = [Cycle c]" using assms by simp
  then show ?thesis using problems_no_cycle [of c utc cr operators spec] by simp
next
  case (cycle ps)
  let ?name = "\<lambda>p. ns_name (gs_nodes spec ! p)"
  have c: "c = map ?name ps" using cycle(2) assms by simp
  have ok: "names_resolved (gs_nodes spec)" by (rule problems_names [OF cycle(1)])
  have path: "2 \<le> length ps" "hd ps = last ps"
    "successively (\<lambda>i j. (i, j) \<in> edge (build_upstreams (gs_name spec) (gs_nodes spec)) (index_of spec)) ps"
    using cycle(3) by (simp_all add: cycle_path_def)
  then have "successively (\<lambda>i j. (?name i, ?name j) \<in> dependency_rel (gs_nodes spec)) ps"
    by (elim successively_mono) (auto simp: index_of_def edge_build [OF ok] dependency_rel_def)
  moreover have "ps \<noteq> []" using path(1) by auto
  ultimately show ?thesis using path(1,2) by (simp add: c successively_map hd_map last_map)
next
  case built
  then show ?thesis using assms by simp
qed

theorem build_cycle_real_witness:
  "successively (\<lambda>a b. (a, b) \<in> dependency_rel (gs_nodes cyclic_spec)) [''a'', ''b'', ''a'']"
  using build_cycle_real [OF cyclic_build] by simp

subsection \<open>The template language\<close>

text \<open>C24. Parsing the text of a canonical template gives the template back: references with
  well-formed parts, and literals that neither contain nor end in an opening brace.\<close>

theorem template_roundtrip:
  assumes "canonical segs"
  shows "parse (show_template segs) = Inr segs"
  using parse_loop_show [OF assms, of "[]" 0] by (simp add: parse_def)

theorem template_roundtrip_witness:
  "parse ''from {{ upstream.extract.rows.0 }} to {{ env.OUT }}'' =
     Inr [Literal ''from '', Upstream ''extract'' [''rows'', ''0''], Literal '' to '', Env ''OUT'']"
proof -
  have "canonical [Literal ''from '', Upstream ''extract'' [''rows'', ''0''], Literal '' to '', Env ''OUT'']"
    by code_simp
  from template_roundtrip [OF this] show ?thesis by (simp add: show_template_def show_reference_def)
qed

text \<open>Rendering fails exactly at the first reference that does not resolve, with the error of
  that reference.\<close>

theorem render_first_error:
  "render json_text ctx segs = Inl e \<longleftrightarrow>
     (\<exists>a s b. segs = a @ s # b \<and> (\<exists>out. render json_text ctx a = Inr out) \<and> render_segment json_text ctx s = Inl e)"
  by (rule render_Inl_iff)

subsection \<open>Durations\<close>

text \<open>A duration parses exactly when it is ASCII digits and one of the four units with a
  product within \<open>u64\<close>, and its value is the product.\<close>

theorem duration_accepts:
  "parse_duration t = Inr d \<longleftrightarrow>
     (\<exists>ds u k. t = ds @ u \<and> ds \<noteq> [] \<and> list_all is_ascii_digit ds \<and>
        unit_seconds u = Some k \<and> d = digits_val ds * k \<and> d \<le> u64_max)"
  by (rule parse_duration_iff)

subsection \<open>Partition keys\<close>

text \<open>C25. The key of a time is a valid partition key, and later times have keys that are not
  smaller, so a listing by key is in time order.\<close>

theorem of_time_valid_monotone:
  assumes "calendar utc" and "ms \<le> ms'" and "of_time utc p ms = Some k" and "of_time utc p ms' = Some k'"
  shows "partition_ok k \<and> partition_ok k' \<and> k \<le> k'"
proof -
  obtain t where t: "utc ms = Some t" "year t \<le> 9999"
    and k: "k = (case p of Daily \<Rightarrow> Partition (daily_key t) | Hourly \<Rightarrow> Partition (hourly_key t)
                      | Unpartitioned \<Rightarrow> partition_none)"
    using assms(3) by (rule of_time_cases)
  obtain u where u: "utc ms' = Some u" "year u \<le> 9999"
    and k': "k' = (case p of Daily \<Rightarrow> Partition (daily_key u) | Hourly \<Rightarrow> Partition (hourly_key u)
                      | Unpartitioned \<Rightarrow> partition_none)"
    using assms(4) by (rule of_time_cases)
  have fields: "civil_fields t" "civil_fields u" using assms(1) t u by (auto intro: calendar_fields)
  have le: "civil_tuple t \<le> civil_tuple u"
    using assms(1,2) t(1) u(1) unfolding calendar_def by blast
  have "k \<le> k'"
    using daily_key_le [OF fields le] hourly_key_le [OF fields le]
    by (cases p) (simp_all add: k k' less_eq_partition_def)
  then show ?thesis using of_time_ok [OF assms(1)] assms(3,4) by blast
qed

lemma example_calendar: "calendar example_utc"
proof -
  have "civil_tuple t \<le> civil_tuple t'"
    if "ms \<le> ms'" "example_utc ms = Some t" "example_utc ms' = Some t'" for ms ms' t t'
  proof -
    have "ms div 24 \<le> ms' div 24" using that(1) by (rule div_le_mono)
    moreover have "ms mod 24 \<le> ms' mod 24" if "ms div 24 = ms' div 24"
      using that \<open>ms \<le> ms'\<close> by (metis add_le_cancel_left div_mult_mod_eq)
    ultimately show ?thesis
      using that by (auto simp: example_utc_def civil_tuple_def split: if_splits)
  qed
  then show ?thesis unfolding calendar_def by (auto simp: example_utc_def split: if_splits)
qed

theorem of_time_valid_monotone_witness:
  "of_time example_utc Daily 26 = Some (Partition ''19700102'') \<and>
   of_time example_utc Daily 50 = Some (Partition ''19700103'') \<and> Partition ''19700102'' \<le> Partition ''19700103''"
proof -
  have keys: "of_time example_utc Daily 26 = Some (Partition ''19700102'')"
    "of_time example_utc Daily 50 = Some (Partition ''19700103'')"
    by (simp_all add: of_time_def example_utc_def i64_max_def daily_key_def pad_zero_def show_nat.simps
        digit_char_def char_of_def bit_0 bit_Suc numeral_eq_Suc [symmetric] eval_nat_numeral(1))
  show ?thesis using keys of_time_valid_monotone [OF example_calendar _ keys] by simp
qed

subsection \<open>Keys and ids\<close>

text \<open>A run key parses back to its graph and partition, so two graph runs never share a
  record.\<close>

theorem run_key_roundtrip:
  assumes "is_name graph" and "partition_ok p"
  shows "parse_graph_run_key (graph_run_key graph p) = Some (graph, p)"
  using run_keys.parse_render [of "(graph, p)"] assms by (simp add: graph_partition_ok_def)

theorem run_key_roundtrip_witness:
  "parse_graph_run_key ''swale/runs/orders/none'' = Some (''orders'', partition_none)"
proof -
  have name: "is_name ''orders''" by code_simp
  show ?thesis using run_key_roundtrip [OF name partition_ok_none]
    by (simp add: graph_run_key_def graph_runs_prefix_def partition_none_def)
qed

text \<open>C26. The record keys of two nodes of a graph are equal only for the same node and
  partition, so no node record overwrites another.\<close>

theorem node_record_keys_distinct:
  assumes "wf_graph g" and "named_graph g" and "\<And>a. length (producer_names (map nd_spec (gr_nodes g)) a) \<le> 1"
    and "n \<in> set (gr_nodes g)" and "m \<in> set (gr_nodes g)" and "partition_ok p" and "partition_ok q"
  shows "node_record_key (gr_name g) p n = node_record_key (gr_name g) q m \<longleftrightarrow> n = m \<and> p = q"
  using assms by (intro node_keys_eq) (simp_all add: one_producer_def)

theorem node_record_keys_distinct_witness:
  "node_record_key ''orders'' partition_none (gr_nodes example_graph ! 0) \<noteq>
   node_record_key ''orders'' partition_none (gr_nodes example_graph ! 1)"
proof -
  have len: "length (producer_names (map nd_spec (gr_nodes example_graph)) a) \<le> 1" for a
    using example_valid built_names [OF valid_spec_names [OF example_valid], of example_utc example_cron]
    by (simp add: example_built [symmetric] valid_spec_def)
  have nodes: "gr_nodes example_graph ! 0 \<in> set (gr_nodes example_graph)"
    "gr_nodes example_graph ! 1 \<in> set (gr_nodes example_graph)"
    by (rule nth_mem, simp add: example_graph_def)+
  have "gr_name example_graph = ''orders''" "gr_nodes example_graph ! 0 \<noteq> gr_nodes example_graph ! 1"
    by (simp_all add: example_graph_def)
  then show ?thesis
    using node_record_keys_distinct [OF example_wf example_named len nodes partition_ok_none partition_ok_none] by simp
qed

text \<open>C27. A run id determines the graph, the partition, the node and the rerun count of its task
  instance.\<close>

theorem run_id_injective:
  assumes "is_name g" "is_name h" "partition_ok p" "partition_ok q" "is_name m" "is_name n"
  shows "run_id g p m r = run_id h q n s \<longleftrightarrow> g = h \<and> p = q \<and> m = n \<and> r = s"
  by (rule run_id_eq_iff [OF assms])

theorem run_id_injective_witness: "run_id ''a'' partition_none ''b_r1'' 0 \<noteq> run_id ''a'' partition_none ''b'' 10"
proof -
  have names: "is_name ''a''" "is_name ''b_r1''" "is_name ''b''" by code_simp+
  show ?thesis
    using run_id_injective [OF names(1) names(1) partition_ok_none partition_ok_none names(2,3)] by simp
qed

text \<open>C28. Every run id of a graph that builds is within 128 bytes of \<open>[A-Za-z0-9_-]\<close>, at every
  rerun count.\<close>

theorem run_id_within_limit:
  assumes "build utc cr operators spec = Some (Inr g)" and "n \<in> set (gr_nodes g)" and "partition_ok p"
  shows "run_id (gr_name g) p (node_name n) r \<noteq> [] \<and> length (run_id (gr_name g) p (node_name n) r) \<le> 128 \<and>
     list_all run_id_byte (run_id (gr_name g) p (node_name n) r)"
proof -
  have "valid_spec utc cr operators spec" "g = built_graph utc cr spec"
    using assms(1) by (simp_all add: build_accepts)
  then have "named_graph g" by (simp add: valid_spec_named)
  then show ?thesis using assms(2,3) by (intro run_id_bounded) (auto simp: named_graph_def)
qed

theorem run_id_within_limit_witness:
  "length (run_id ''orders'' partition_none ''extract'' 4294967295) \<le> 128"
proof -
  have node: "gr_nodes example_graph ! 0 \<in> set (gr_nodes example_graph)"
    by (rule nth_mem) (simp add: example_graph_def)
  have "gr_name example_graph = ''orders''" "node_name (gr_nodes example_graph ! 0) = ''extract''"
    by (simp_all add: example_graph_def node_name_def example_nodes_def example_node_def)
  then show ?thesis
    using run_id_within_limit [OF build_example node partition_ok_none, of 4294967295] by simp
qed

text \<open>The headers of a task instance identify it, with or without the group header of a
  member of a mapped node.\<close>

theorem headers_roundtrip:
  assumes "partition_ok (ti_partition i)"
  shows "from_headers (headers i) = Inr i \<and> from_headers ((headers i)(header_group \<mapsto> gid)) = Inr i"
proof -
  have "from_headers (headers i) = Inr i" using assms by (intro from_headers_headers) (simp add: identity_ok_def)
  moreover have "from_headers ((headers i)(header_group \<mapsto> gid)) = from_headers (headers i)"
    by (rule from_headers_other) (simp add: header_defs)
  ultimately show ?thesis by simp
qed

theorem headers_roundtrip_witness:
  "from_headers (headers \<lparr>ti_graph = ''orders'', ti_partition = partition_none, ti_node = ''load'',
     ti_asset = Some ''clean'', ti_definition = ''ab'', ti_rerun = 3\<rparr>) =
   Inr \<lparr>ti_graph = ''orders'', ti_partition = partition_none, ti_node = ''load'',
     ti_asset = Some ''clean'', ti_definition = ''ab'', ti_rerun = 3\<rparr>"
  by (rule headers_roundtrip [THEN conjunct1]) simp

end
