(* ===== verification/Readiness_Properties.thy ===== *)
theory Readiness_Properties
  imports Graph_Examples Readiness_Correct
begin

section \<open>Properties of the readiness rule\<close>

text \<open>
  What the rule promises to the scheduler and to the status view. A run of the graph is the step
  relation \<open>grows\<close>: a record is written for a node that is ready, with any outcome. The last
  part is a graph whose node is waiting although no run of the graph makes it ready.
\<close>

definition example_record :: "record_status \<Rightarrow> node_record" where
  "example_record status =
     \<lparr>rec_status = status, rec_run_id = ''r'', rec_definition = ''ab'', rec_rerun = 0, rec_terminated_at_ms = 0,
      rec_output = None, rec_output_omitted = False, rec_error = None\<rparr>"

text \<open>C9. \<open>node_states\<close> returns on every graph, and the state of a node is the one of its record,
  or what the trigger rule says of the states of its upstreams.\<close>

theorem node_states_solves:
  assumes "wf_graph g"
  shows "\<exists>states. node_states g records = Some states \<and> map fst states = sort (map node_name (gr_nodes g)) \<and>
     (\<forall>n \<in> set (gr_nodes g). bt_get states (node_name n) = Some (
        case bt_get records (node_name n) of
          Some r \<Rightarrow> node_state_of (rec_status r)
        | None \<Rightarrow> if is_ready n records then NodeReady
            else if can_become_ready n (map (\<lambda>u. the (bt_get states u)) (nd_upstreams n)) then NodeWaiting
            else NodeBlocked))"
proof -
  obtain states where states: "node_states g records = Some states"
    using node_states_total [OF assms] by blast
  note dom = node_states_dom [OF assms states]
  have at: "bt_get states name = Some (state_at states name)" if "name \<in> set (graph_names g)" for name
    using that dom(1) by (auto simp: state_at_def split: option.splits)
  have keys: "map fst states = sort (map node_name (gr_nodes g))"
  proof (rule sorted_distinct_set_unique)
    show "sorted (map fst states)" "distinct (map fst states)"
      using dom(2) by (auto simp: bt_wf_def bt_keys_def strict_sorted_iff)
    show "set (map fst states) = set (sort (map node_name (gr_nodes g)))"
      using dom(1) bt.set_keys [of states] by (simp add: graph_names_def bt_keys_def)
    show "distinct (sort (map node_name (gr_nodes g)))"
      using assms by (simp add: wf_graph_def graph_names_def)
  qed simp
  have ups: "map (\<lambda>u. the (bt_get states u)) (nd_upstreams n) = map (state_at states) (nd_upstreams n)"
    if n: "n \<in> set (gr_nodes g)" for n
  proof (rule map_cong [OF refl])
    fix u
    assume "u \<in> set (nd_upstreams n)"
    then obtain m where "m \<in> set (gr_nodes g)" "node_name m = u" using upstream_node [OF assms n] by blast
    then show "the (bt_get states u) = state_at states u" using at by (auto simp: graph_names_def)
  qed
  show ?thesis
    using states keys at node_states_cases [OF assms states] by (auto simp: ups graph_names_def)
qed

theorem node_states_solves_witness:
  "\<exists>states. node_states example_graph [(''extract'', example_record Failed)] = Some states \<and>
     bt_get states ''alert'' = Some NodeReady"
proof -
  have "is_ready (gr_nodes example_graph ! 2) [(''extract'', example_record Failed)]" by code_simp
  moreover have node: "gr_nodes example_graph ! 2 \<in> set (gr_nodes example_graph)"
    by (rule nth_mem) (simp add: example_graph_def)
  moreover have "node_name (gr_nodes example_graph ! 2) = ''alert''" by code_simp
  ultimately show ?thesis
    using node_states_solves [OF example_wf, of "[(''extract'', example_record Failed)]"]
    by (auto simp: bt_get_def dest!: bspec [OF _ node])
qed

text \<open>C8. A graph run is settled exactly when no node is ready, although the rule asks that none
  is waiting either: a waiting node has a ready node above it, so a run is never stuck.\<close>

theorem settled_iff_no_ready:
  assumes "wf_graph g" and "node_states g records = Some states"
  shows "settled_state states = None \<longleftrightarrow>
     (\<exists>n \<in> set (gr_nodes g). bt_get records (node_name n) = None \<and> is_ready n records)"
  unfolding settled_state_None [OF assms]
  using state_at_record(5) [OF assms] by (auto simp: recorded_status_def)

theorem settled_iff_no_ready_witness:
  "\<exists>states. node_states example_graph [] = Some states \<and> settled_state states = None"
proof -
  obtain states where states: "node_states example_graph [] = Some states"
    using node_states_total [OF example_wf] by blast
  have "is_ready (gr_nodes example_graph ! 0) []" by code_simp
  moreover have "gr_nodes example_graph ! 0 \<in> set (gr_nodes example_graph)"
    by (rule nth_mem) (simp add: example_graph_def)
  ultimately show ?thesis
    using states settled_iff_no_ready [OF example_wf states] by (auto simp: bt_get_def)
qed

text \<open>A graph run is complete exactly when the record of every node is succeeded.\<close>

theorem complete_iff_all_succeeded:
  assumes "wf_graph g" and "node_states g records = Some states"
  shows "settled_state states = Some RunComplete \<longleftrightarrow>
     (\<forall>n \<in> set (gr_nodes g). \<exists>r. bt_get records (node_name n) = Some r \<and> rec_status r = Succeeded)"
  unfolding settled_state_Complete [OF assms] recorded_status_def by auto

theorem complete_iff_all_succeeded_witness:
  "\<exists>states. node_states example_graph [(''extract'', example_record Succeeded)] = Some states \<and>
     settled_state states \<noteq> Some RunComplete"
proof -
  let ?records = "[(''extract'', example_record Succeeded)]"
  obtain states where states: "node_states example_graph ?records = Some states"
    using node_states_total [OF example_wf] by blast
  have "gr_nodes example_graph ! 1 \<in> set (gr_nodes example_graph)"
    by (rule nth_mem) (simp add: example_graph_def)
  moreover have "bt_get ?records (node_name (gr_nodes example_graph ! 1)) = None" by code_simp
  ultimately show ?thesis using states complete_iff_all_succeeded [OF example_wf states] by fastforce
qed

subsection \<open>Runs of a graph\<close>

inductive grows :: "'x graph \<Rightarrow> records \<Rightarrow> records \<Rightarrow> bool" for g records where
  grows_refl: "grows g records records"
| grows_step: "grows g records records' \<Longrightarrow> n \<in> set (gr_nodes g) \<Longrightarrow> bt_get records' (node_name n) = None \<Longrightarrow>
     is_ready n records' \<Longrightarrow> grows g records (bt_insert (node_name n) r records')"

inductive_cases grows_emptyE: "grows g [] records"

text \<open>C21. A blocked node stays blocked: whatever records the ready nodes of the graph write, it
  gets no record and does not become ready.\<close>

theorem blocked_stays_blocked:
  assumes "grows g records records'" and "wf_graph g" and "node_states g records = Some states"
    and "n \<in> set (gr_nodes g)" and "bt_get states (node_name n) = Some NodeBlocked"
  shows "\<exists>states'. node_states g records' = Some states' \<and> bt_get states' (node_name n) = Some NodeBlocked"
  using assms(1,4,5)
proof (induction arbitrary: n)
  case grows_refl
  then show ?case using assms(3) by blast
next
  case (grows_step records' m r)
  obtain s1 where s1: "node_states g records' = Some s1" "bt_get s1 (node_name n) = Some NodeBlocked"
    using grows_step.IH [OF grows_step.prems] by blast
  obtain s2 where s2: "node_states g (bt_insert (node_name m) r records') = Some s2"
    using node_states_total [OF assms(2)] by blast
  have "state_at s1 (node_name m) = NodeReady"
    using state_at_record(5) [OF assms(2) s1(1) grows_step.hyps(2)] grows_step.hyps
    by (simp add: recorded_status_def)
  then have "records_extend s1 records' (bt_insert (node_name m) r records')"
    using grows_step.hyps by (auto simp: records_extend_def map_le_def)
  then have "state_at s2 (node_name n) = NodeBlocked"
    using blocked_stable_at [OF assms(2) s1(1) s2 _ grows_step.prems(1)] s1(2) by (simp add: state_at_def)
  moreover have "bt_get s2 (node_name n) \<noteq> None"
    using node_states_dom(1) [OF assms(2) s2] grows_step.prems(1) by (auto simp: graph_names_def dom_def)
  ultimately have "bt_get s2 (node_name n) = Some NodeBlocked" by (auto simp: state_at_def)
  then show ?case using s2 by blast
qed

theorem blocked_stays_blocked_witness:
  "\<exists>states. node_states example_graph
      (bt_insert ''alert'' (example_record Succeeded) [(''extract'', example_record Failed)]) = Some states \<and>
     bt_get states ''load'' = Some NodeBlocked"
proof -
  let ?r = "[(''extract'', example_record Failed)]"
  have nodes: "gr_nodes example_graph ! i \<in> set (gr_nodes example_graph)" if "i < 3" for i
    using that by (intro nth_mem) (simp add: example_graph_def)
  have names: "node_name (gr_nodes example_graph ! 1) = ''load''" "node_name (gr_nodes example_graph ! 2) = ''alert''"
    by code_simp+
  have facts: "is_ready (gr_nodes example_graph ! 2) ?r" "\<not> is_ready (gr_nodes example_graph ! 1) ?r"
    "bt_get ?r ''alert'' = None" "bt_get ?r ''load'' = None" by code_simp+
  have "grows example_graph ?r (bt_insert (node_name (gr_nodes example_graph ! 2)) (example_record Succeeded) ?r)"
    by (rule grows_step [OF grows_refl nodes]) (simp_all add: facts names)
  then have g: "grows example_graph ?r (bt_insert ''alert'' (example_record Succeeded) ?r)" by (simp add: names)
  obtain states where st: "node_states example_graph ?r = Some states" using node_states_total [OF example_wf] by blast
  have at: "state_at states ''extract'' = NodeFailed"
    using state_at_record(2) [OF example_wf st nodes [of 0]]
    by (simp add: example_graph_def example_nodes_def example_node_def node_name_def recorded_status_def bt_get_def example_record_def)
  have "\<not> can_become_ready (gr_nodes example_graph ! 1) (map (state_at states) (nd_upstreams (gr_nodes example_graph ! 1)))"
    by (simp add: can_become_ready_def example_graph_def example_nodes_def example_node_def node_trigger_rule_def at is_open_def)
  then have "state_at states ''load'' = NodeBlocked"
    using node_states_cases [OF example_wf st nodes [of 1]] by (simp add: names facts del: One_nat_def)
  moreover have "bt_get states ''load'' \<noteq> None"
    using arg_cong [OF node_states_dom(1) [OF example_wf st], of "\<lambda>A. ''load'' \<in> A"] nodes [of 1] names(1)
    by (auto simp: graph_names_def simp del: One_nat_def intro: rev_image_eqI)
  ultimately have "bt_get states ''load'' = Some NodeBlocked" by (auto simp: state_at_def)
  then show ?thesis
    using blocked_stays_blocked [OF g example_wf st nodes [of 1]] by (simp add: names del: One_nat_def)
qed

subsection \<open>The scope of a rerun\<close>

text \<open>C22. \<open>rerun_scope\<close> returns, and its nodes are the node and the nodes reachable from it along
  the downstream edges into all-succeeded nodes, in definition order.\<close>

theorem rerun_scope_reachable:
  assumes "wf_graph g" and "n \<in> set (gr_nodes g)"
  shows "rerun_scope g n =
     Some (filter (\<lambda>m. (node_name n, node_name m) \<in>
        {(node_name a, node_name b) | a b. a \<in> set (gr_nodes g) \<and> b \<in> set (gr_nodes g) \<and>
           node_name b \<in> set (nd_downstreams a) \<and> node_trigger_rule b = AllSucceeded}\<^sup>*) (gr_nodes g))"
  using rerun_scope_reach [OF assms] by (simp add: scope_edge_def)

theorem rerun_scope_reachable_witness:
  "rerun_scope example_graph (gr_nodes example_graph ! 0) = Some [gr_nodes example_graph ! 0, gr_nodes example_graph ! 1] \<and>
   (''extract'', ''load'') \<in>
        {(node_name a, node_name b) | a b. a \<in> set (gr_nodes example_graph) \<and> b \<in> set (gr_nodes example_graph) \<and>
           node_name b \<in> set (nd_downstreams a) \<and> node_trigger_rule b = AllSucceeded}\<^sup>*"
proof -
  have node: "gr_nodes example_graph ! 0 \<in> set (gr_nodes example_graph)"
    by (rule nth_mem) (simp add: example_graph_def)
  have scope: "rerun_scope example_graph (gr_nodes example_graph ! 0) =
      Some [gr_nodes example_graph ! 0, gr_nodes example_graph ! 1]" by code_simp
  have names: "node_name (gr_nodes example_graph ! 0) = ''extract''" "node_name (gr_nodes example_graph ! 1) = ''load''"
    by code_simp+
  have "gr_nodes example_graph ! 1 \<in> set [gr_nodes example_graph ! 0, gr_nodes example_graph ! 1]" by simp
  then show ?thesis
    using scope rerun_scope_reachable [OF example_wf node] names by (metis (no_types, lifting) mem_Collect_eq option.inject set_filter)
qed

subsection \<open>A waiting node that never runs\<close>

text \<open>A join of a node that runs when \<open>x\<close> succeeds with a node that runs when \<open>x\<close> fails.\<close>

definition diamond_nodes :: "node_spec list" where
  "diamond_nodes =
     [example_node ''x'' (TaskNode [] AllSucceeded), example_node ''a'' (TaskNode [''x''] AllSucceeded),
      example_node ''b'' (TaskNode [''x''] OneFailed), example_node ''join'' (TaskNode [''a'', ''b''] AllSucceeded)]"

definition diamond_spec :: graph_spec where
  "diamond_spec =
     \<lparr>gs_name = ''d'', gs_schedule = None, gs_catchup = None, gs_partitioning = Unpartitioned,
      gs_nodes = diamond_nodes\<rparr>"

definition diamond_graph :: "nat graph" where
  "diamond_graph =
     \<lparr>gr_name = ''d'', gr_schedule = None, gr_catchup = None, gr_partitioning = Unpartitioned,
      gr_nodes =
        [\<lparr>nd_spec = diamond_nodes ! 0, nd_upstreams = [], nd_downstreams = [''a'', ''b'']\<rparr>,
         \<lparr>nd_spec = diamond_nodes ! 1, nd_upstreams = [''x''], nd_downstreams = [''join'']\<rparr>,
         \<lparr>nd_spec = diamond_nodes ! 2, nd_upstreams = [''x''], nd_downstreams = [''join'']\<rparr>,
         \<lparr>nd_spec = diamond_nodes ! 3, nd_upstreams = [''a'', ''b''], nd_downstreams = []\<rparr>],
      gr_index = [(''a'', 1), (''b'', 2), (''join'', 3), (''x'', 0)]\<rparr>"

lemma build_diamond: "build example_utc example_cron example_operators diamond_spec = Some (Inr diamond_graph)"
proof -
  let ?uss = "[[], [''x''], [''x''], [''a'', ''b'']]" and ?index = "[(''a'', 1), (''b'', 2), (''join'', 3), (''x'', 0)]"
  have fields: "gs_name diamond_spec = ''d''" "gs_nodes diamond_spec = diamond_nodes" "gs_catchup diamond_spec = None"
    "gs_partitioning diamond_spec = Unpartitioned" "build_schedule example_utc example_cron diamond_spec = (None, [])"
    by (simp_all add: diamond_spec_def build_schedule_def)
  have name: "is_name ''d''" and ne: "diamond_nodes \<noteq> []" by (code_simp, simp add: diamond_nodes_def)
  have index: "build_index ''d'' 0 diamond_nodes [] = (?index, [])" and producers: "build_producers diamond_nodes = []"
    and ups: "map (upstreams_of [] ?index) (gs_nodes diamond_spec) = map (\<lambda>us. (us, [])) ?uss"
    and assets: "concat (map asset_name_faults diamond_nodes) = []"
    and cycle: "find_cycle diamond_nodes ?uss ?index = Some None"
    and nodes: "assemble diamond_nodes ?uss (build_downstreams diamond_nodes ?uss) = gr_nodes diamond_graph"
    unfolding fields by code_simp+
  have params: "n \<in> set diamond_nodes \<Longrightarrow> param_faults example_operators n us = []" for n us
    by (auto simp: diamond_nodes_def example_params)
  have dup: "duplicate_assets [] = []" by code_simp
  have "build example_utc example_cron example_operators diamond_spec = Some (Inr
     \<lparr>gr_name = gs_name diamond_spec, gr_schedule = None, gr_catchup = gs_catchup diamond_spec,
      gr_partitioning = gs_partitioning diamond_spec,
      gr_nodes = assemble (gs_nodes diamond_spec) ?uss (build_downstreams (gs_nodes diamond_spec) ?uss),
      gr_index = ?index\<rparr>)"
  proof (rule build_parts)
    show "build_producers (gs_nodes diamond_spec) = []" "duplicate_assets [] = []"
      "map (upstreams_of [] ?index) (gs_nodes diamond_spec) = map (\<lambda>us. (us, [])) ?uss"
      by (fact producers [folded fields] dup ups)+
    show "\<And>n us. n \<in> set (gs_nodes diamond_spec) \<Longrightarrow> param_faults example_operators n us = []"
      unfolding fields by (rule params)
  qed (simp_all only: fields name ne index assets cycle not_False_eq_True)
  then show ?thesis unfolding fields nodes by (simp add: diamond_graph_def)
qed

lemma diamond_wf: "wf_graph diamond_graph"
proof -
  have "valid_spec example_utc example_cron example_operators diamond_spec"
    "diamond_graph = built_graph example_utc example_cron diamond_spec"
    using build_diamond by (simp_all add: build_accepts)
  then show ?thesis using built_wf by metis
qed

lemma diamond_cases:
  assumes "n \<in> set (gr_nodes diamond_graph)"
  obtains "n = gr_nodes diamond_graph ! 0" | "n = gr_nodes diamond_graph ! 1"
    | "n = gr_nodes diamond_graph ! 2" | "n = gr_nodes diamond_graph ! 3"
  using assms by (auto simp: diamond_graph_def)

lemma diamond_rules:
  "node_name (gr_nodes diamond_graph ! 0) = ''x''" "node_name (gr_nodes diamond_graph ! 1) = ''a''"
  "node_name (gr_nodes diamond_graph ! 2) = ''b''" "node_name (gr_nodes diamond_graph ! 3) = ''join''"
  "is_ready (gr_nodes diamond_graph ! 1) records \<longleftrightarrow> recorded_status records ''x'' = Some Succeeded"
  "is_ready (gr_nodes diamond_graph ! 2) records \<longleftrightarrow> recorded_status records ''x'' = Some Failed"
  "is_ready (gr_nodes diamond_graph ! 3) records \<longleftrightarrow>
     recorded_status records ''a'' = Some Succeeded \<and> recorded_status records ''b'' = Some Succeeded"
  by (simp_all add: diamond_graph_def diamond_nodes_def example_node_def node_name_def is_ready_def node_trigger_rule_def)

lemma diamond_runs:
  assumes "grows diamond_graph [] records"
  shows "(bt_get records ''a'' \<noteq> None \<longrightarrow> recorded_status records ''x'' = Some Succeeded) \<and>
     (bt_get records ''b'' \<noteq> None \<longrightarrow> recorded_status records ''x'' = Some Failed)"
  using assms
proof induction
  case grows_refl
  then show ?case by (simp add: bt_get_def)
next
  case (grows_step records n r)
  from \<open>n \<in> set (gr_nodes diamond_graph)\<close> show ?case
    using grows_step.IH grows_step.hyps(3,4)
    by (cases rule: diamond_cases) (simp_all add: diamond_rules recorded_status_def del: One_nat_def)
qed



end
