(* ===== verification/Memory.thy ===== *)
theory Memory
  imports World
begin

section \<open>An instance: the services in memory\<close>

text \<open>
  The laws of the services hold of a store in memory whose every call succeeds, whatever the
  interference is. The witnesses of the properties run on it. A stored value is the record itself.
\<close>

record 'b memory =
  mem_kv :: "(bytes, 'b) btree"
  mem_submits :: "(string \<times> 'b run_spec) list"
  mem_expiry :: "(nat \<times> bytes) list"
  mem_objects :: "(string, bytes) btree"

definition memory_obs :: "'b memory \<Rightarrow> 'b obs" where
  "memory_obs m =
     \<lparr>ob_kv = bt_get (mem_kv m), ob_submits = mem_submits m, ob_expiry = set (mem_expiry m),
      ob_objects = bt_get (mem_objects m)\<rparr>"

fun memory_effect :: "'b effect \<Rightarrow> 'b memory \<Rightarrow> 'b memory" where
  "memory_effect (PutEffect k v) m = m\<lparr>mem_kv := bt_insert k v (mem_kv m)\<rparr>"
| "memory_effect (DeleteEffect k) m = m\<lparr>mem_kv := bt_remove k (mem_kv m)\<rparr>"
| "memory_effect (ExpiryEffect t suffix) m = m\<lparr>mem_expiry := (t, suffix) # mem_expiry m\<rparr>"

definition memory_submit :: "string \<Rightarrow> 'b run_spec \<Rightarrow> ('b memory, workflow_error, bool) io" where
  "memory_submit pool spec m =
     (if list_ex (\<lambda>(p, s). rs_run_id s = rs_run_id spec) (mem_submits m) then (Inr False, m)
      else (Inr True, fold memory_effect (rs_effects spec) (m\<lparr>mem_submits := mem_submits m @ [(pool, spec)]\<rparr>)))"

definition memory_expired :: "nat \<times> bytes \<Rightarrow> 'b expired \<Rightarrow> 'b memory \<Rightarrow> 'b memory" where
  "memory_expired entry x m =
     (let m' = m\<lparr>mem_expiry := removeAll entry (mem_expiry m)\<rparr>
      in case x of
        ExpiredKeep \<Rightarrow> m
      | ExpiredDelete es \<Rightarrow> fold memory_effect es m'
      | ExpiredDeleteIf k e es \<Rightarrow> if bt_get (mem_kv m) k = e then fold memory_effect es m' else m)"

definition memory_backend :: "string list \<Rightarrow> nat \<Rightarrow> ('b memory, 'b) backend" where
  "memory_backend pools now =
     \<lparr>kv_get = (\<lambda>k m. (Inr (bt_get (mem_kv m) k), m)),
      kv_entries = (\<lambda>p m.
        (Inr (map (\<lambda>k. (k, the (bt_get (mem_kv m) k))) (filter (\<lambda>k. strip_prefix p k \<noteq> None) (bt_keys (mem_kv m)))), m)),
      kv_put = (\<lambda>k v m. (Inr (), memory_effect (PutEffect k v) m)),
      kv_compare_put = (\<lambda>k e v m.
        if bt_get (mem_kv m) k = e then (Inr True, memory_effect (PutEffect k v) m) else (Inr False, m)),
      kv_compare_commit = (\<lambda>k e es m.
        if bt_get (mem_kv m) k = e then (Inr True, fold memory_effect es m) else (Inr False, m)),
      commit_effects = (\<lambda>es m. (Inr (), fold memory_effect es m)),
      clock_now = (\<lambda>m. (now, m)),
      pool_exists = (\<lambda>p. p \<in> set pools),
      wf_submit = memory_submit,
      wf_status = (\<lambda>p i m. (Inr (if list_ex (\<lambda>(p, s). rs_run_id s = i) (mem_submits m) then Some RunLive else None), m)),
      wf_cancel = (\<lambda>p i reason m.
        (Inr (if list_ex (\<lambda>(p, s). rs_run_id s = i) (mem_submits m) then CancelRequested else CancelNotActive), m)),
      wf_group_cancel = (\<lambda>p i reason m. (Inr (), m)),
      wf_group_forget = (\<lambda>p i m. (Inr (), m)),
      expiry_due = (\<lambda>t age m. (Inr (filter (\<lambda>(at, suffix). at + age \<le> t) (mem_expiry m)), m)),
      expiry_apply = (\<lambda>entry x m. (Inr (), memory_expired entry x m)),
      object_get = (\<lambda>p m. (case bt_get (mem_objects m) p of None \<Rightarrow> Inl ObjectNotFound | Some v \<Rightarrow> Inr v, m)),
      object_put = (\<lambda>p v m. (Inr (), m\<lparr>mem_objects := bt_insert p v (mem_objects m)\<rparr>)),
      object_delete = (\<lambda>p m. (Inr (), m\<lparr>mem_objects := bt_remove p (mem_objects m)\<rparr>)),
      object_list = (\<lambda>p m.
        (Inr (map (\<lambda>l. (l, Some (last_segment l)))
           (filter (direct_child p) (remdups (bt_keys (mem_objects m))))), m))\<rparr>"

lemma memory_effect_obs: "memory_obs (memory_effect e m) = apply_effect e (memory_obs m)"
  by (cases e) (simp_all add: memory_obs_def)

lemma memory_effects_obs: "memory_obs (fold memory_effect es m) = apply_effects es (memory_obs m)"
  by (induction es arbitrary: m) (simp_all add: memory_effect_obs)

lemma memory_obs_fields [simp]:
  "ob_kv (memory_obs m) = bt_get (mem_kv m)" "ob_submits (memory_obs m) = mem_submits m"
  "ob_expiry (memory_obs m) = set (mem_expiry m)" "ob_objects (memory_obs m) = bt_get (mem_objects m)"
  by (simp_all add: memory_obs_def)

lemma submits_idle:
  assumes "\<And>w. m w = (Inr (\<not> known (obs w)), if known (obs w) then w else f' w)" and "\<And>w. obs (f' w) = f (obs w)"
  shows "submits R obs known f m"
  unfolding submits_def
proof (intro allI impI)
  fix w r w'
  assume "m w = (r, w')"
  then show "\<exists>o1. R\<^sup>*\<^sup>* (obs w) o1 \<and> (case r of Inl e \<Rightarrow> R\<^sup>*\<^sup>* o1 (obs w') \<or> R\<^sup>*\<^sup>* (f o1) (obs w')
      | Inr True \<Rightarrow> R\<^sup>*\<^sup>* (f o1) (obs w') | Inr False \<Rightarrow> known o1 \<and> R\<^sup>*\<^sup>* o1 (obs w'))"
    using assms by (intro exI [of _ "obs w"]) (auto split: bool.split if_splits)
qed

lemma memory_submit_obs: "submits R memory_obs (run_submitted (rs_run_id spec)) (apply_submit p spec) (memory_submit p spec)"
proof (rule submits_idle)
  have put: "memory_obs (m\<lparr>mem_submits := xs\<rparr>) = (memory_obs m)\<lparr>ob_submits := xs\<rparr>" for m :: "'a memory" and xs
    by (simp add: memory_obs_def)
  let ?f = "\<lambda>m. fold memory_effect (rs_effects spec) (m\<lparr>mem_submits := mem_submits m @ [(p, spec)]\<rparr>)"
  fix w :: "'a memory"
  have "run_submitted (rs_run_id spec) (memory_obs w) \<longleftrightarrow> list_ex (\<lambda>(p, s). rs_run_id s = rs_run_id spec) (mem_submits w)"
    by (auto simp: run_submitted_def list_ex_iff)
  then show "memory_submit p spec w =
      (Inr (\<not> run_submitted (rs_run_id spec) (memory_obs w)), if run_submitted (rs_run_id spec) (memory_obs w) then w else ?f w)"
    by (simp add: memory_submit_def)
  show "memory_obs (?f w) = apply_submit p spec (memory_obs w)"
    by (simp add: put apply_submit_def memory_effects_obs)
qed

lemma memory_expired_obs: "expires R memory_obs entry x (\<lambda>m. (Inr (), memory_expired entry x m))"
proof -
  have put: "memory_obs (m\<lparr>mem_expiry := removeAll entry (mem_expiry m)\<rparr>) =
      (memory_obs m)\<lparr>ob_expiry := ob_expiry (memory_obs m) - {entry}\<rparr>" for m :: "'a memory"
    by (simp add: memory_obs_def)
  have eq: "memory_obs (memory_expired entry x m) =
      (if expired_cond x (memory_obs m) then apply_expired entry x (memory_obs m) else memory_obs m)" for m :: "'a memory"
    by (cases x) (simp_all add: put memory_expired_def apply_expired_def expired_cond_def memory_effects_obs)
  show ?thesis
    unfolding expires_def
  proof (intro allI impI)
    fix w r w'
    assume "(Inr (), memory_expired entry x w) = (r, w')"
    then show "\<exists>o1. R\<^sup>*\<^sup>* (memory_obs w) o1 \<and>
        (R\<^sup>*\<^sup>* o1 (memory_obs w') \<and> (\<not> expired_cond x o1 \<or> (\<exists>e. r = Inl e)) \<or>
         expired_cond x o1 \<and> R\<^sup>*\<^sup>* (apply_expired entry x o1) (memory_obs w'))"
      using eq [of w] by (intro exI [of _ "memory_obs w"]) (auto split: if_splits)
  qed
qed

lemma memory_entries:
  fixes m :: "(bytes, 'b) btree"
  shows "(k, v) \<in> set (map (\<lambda>k. (k, the (bt_get m k))) (filter P (bt_keys m))) \<longleftrightarrow> bt_get m k = Some v \<and> P k"
proof -
  have "k \<in> set (bt_keys m) \<longleftrightarrow> bt_get m k \<noteq> None" using bt.set_keys [of m] by (simp add: domIff)
  then show ?thesis by (auto simp del: not_None_eq)
qed

lemma reads_idle: "(\<And>w. obs (snd (m w)) = obs w) \<Longrightarrow> reads R obs m"
  unfolding reads_def by (rule later.keepsI) (metis later_def rtranclp.rtrancl_refl snd_conv)

lemma reads_value_idle:
  "(\<And>w. obs (snd (m w)) = obs w) \<Longrightarrow> (\<And>w v. fst (m w) = Inr v \<Longrightarrow> P (obs w) v) \<Longrightarrow> reads_value R obs P m"
  unfolding reads_value_def using reads_idle [of obs m R] by (metis fst_conv rtranclp.rtrancl_refl snd_conv)

lemma memory_list:
  fixes m :: "'b memory" and p :: string
  defines "es \<equiv> map (\<lambda>l. (l, Some (last_segment l)))
      (filter (direct_child p) (remdups (bt_keys (mem_objects m))))"
  shows "distinct (map fst es) \<and> (\<forall>(l, f) \<in> set es. f = Some (last_segment l)) \<and>
     (\<forall>l. l \<in> fst ` set es \<longleftrightarrow> bt_get (mem_objects m) l \<noteq> None \<and> direct_child p l)"
proof (intro conjI allI)
  have "map fst es = filter (direct_child p) (remdups (bt_keys (mem_objects m)))"
    unfolding es_def by (simp add: comp_def)
  then show "distinct (map fst es)" by simp
  fix l
  have "l \<in> set (bt_keys (mem_objects m)) \<longleftrightarrow> bt_get (mem_objects m) l \<noteq> None"
    using bt.set_keys [of "mem_objects m"] by (simp add: domIff)
  then show "l \<in> fst ` set es \<longleftrightarrow> bt_get (mem_objects m) l \<noteq> None \<and> direct_child p l"
    unfolding es_def by (simp add: image_image conj_commute)
qed (simp add: es_def)

lemma memory_objects:
  "memory_obs (m\<lparr>mem_objects := objects\<rparr>) = (memory_obs m)\<lparr>ob_objects := bt_get objects\<rparr>"
  by (simp add: memory_obs_def)

lemma writes_idle: "(\<And>w. obs (snd (m w)) = f (obs w)) \<Longrightarrow> writes R obs f m"
  unfolding writes_def
proof (intro allI impI)
  fix w r w'
  assume "\<And>w. obs (snd (m w)) = f (obs w)" and "m w = (r, w')"
  then have "obs w' = f (obs w)" by (metis snd_conv)
  then show "\<exists>o1. R\<^sup>*\<^sup>* (obs w) o1 \<and> (case r of Inl e \<Rightarrow> R\<^sup>*\<^sup>* o1 (obs w') \<or> R\<^sup>*\<^sup>* (f o1) (obs w')
      | Inr u \<Rightarrow> R\<^sup>*\<^sup>* (f o1) (obs w'))"
    by (intro exI [of _ "obs w"]) (simp split: sum.split)
qed

lemma writes_if_idle:
  assumes "\<And>w. m w = (Inr (cond (obs w)), if cond (obs w) then f' w else w)" and "\<And>w. obs (f' w) = f (obs w)"
  shows "writes_if R obs cond f m"
  unfolding writes_if_def
proof (intro allI impI)
  fix w r w'
  assume "m w = (r, w')"
  then show "\<exists>o1. R\<^sup>*\<^sup>* (obs w) o1 \<and> (case r of Inl e \<Rightarrow> R\<^sup>*\<^sup>* o1 (obs w') \<or> cond o1 \<and> R\<^sup>*\<^sup>* (f o1) (obs w')
      | Inr True \<Rightarrow> cond o1 \<and> R\<^sup>*\<^sup>* (f o1) (obs w') | Inr False \<Rightarrow> \<not> cond o1 \<and> R\<^sup>*\<^sup>* o1 (obs w'))"
    using assms by (intro exI [of _ "obs w"]) (auto split: bool.split if_splits)
qed

lemma memory_entry:
  fixes m :: "'b memory" and p :: string
  defines "es \<equiv> map (\<lambda>k. (k, the (bt_get (mem_kv m) k))) (filter (\<lambda>k. strip_prefix p k \<noteq> None) (bt_keys (mem_kv m)))"
  shows "(k, v) \<in> set es \<longleftrightarrow> ob_kv (memory_obs m) k = Some v \<and> strip_prefix p k \<noteq> None"
  unfolding es_def memory_obs_fields by (rule memory_entries)

lemma memory_backend_ok: "backend_ok R (memory_backend pools now) memory_obs"
  unfolding backend_ok_def memory_backend_def backend.simps
proof (intro conjI allI impI memory_submit_obs memory_expired_obs)
  fix p
  show "reads_value R memory_obs
      (\<lambda>o1 es. distinct (map fst es) \<and> (\<forall>(l, f) \<in> set es. f = Some (last_segment l)) \<and>
         (\<forall>l. l \<in> fst ` set es \<longleftrightarrow> ob_objects o1 l \<noteq> None \<and> direct_child p l))
      (\<lambda>m. (Inr (map (\<lambda>l. (l, Some (last_segment l)))
         (filter (direct_child p) (remdups (bt_keys (mem_objects m))))), m))"
  proof (rule reads_value_idle)
    fix w :: "'a memory" and v
    let ?es = "map (\<lambda>l. (l, Some (last_segment l)))
        (filter (direct_child p) (remdups (bt_keys (mem_objects w))))"
    assume "fst (Inr ?es, w) = Inr v"
    then have v: "v = ?es" by simp
    show "distinct (map fst v) \<and> (\<forall>(l, f) \<in> set v. f = Some (last_segment l)) \<and>
        (\<forall>l. l \<in> fst ` set v \<longleftrightarrow> ob_objects (memory_obs w) l \<noteq> None \<and> direct_child p l)"
      unfolding memory_obs_fields v by (rule memory_list)
  qed simp
next
  fix p w es w'
  assume "(Inr (map (\<lambda>k. (k, the (bt_get (mem_kv w) k))) (filter (\<lambda>k. strip_prefix p k \<noteq> None) (bt_keys (mem_kv w)))), w) =
      ((Inr es, w') :: (lib_error + (bytes \<times> 'a) list) \<times> 'a memory)"
  then have es: "es = map (\<lambda>k. (k, the (bt_get (mem_kv w) k))) (filter (\<lambda>k. strip_prefix p k \<noteq> None) (bt_keys (mem_kv w)))"
    by auto
  show "\<forall>(k, v) \<in> set es. \<exists>o1. R\<^sup>*\<^sup>* (memory_obs w) o1 \<and> ob_kv o1 k = Some v \<and> strip_prefix p k \<noteq> None"
    unfolding es using memory_entry [of _ _ w p] by blast
  fix k v
  assume "strip_prefix p k \<noteq> None" and "\<forall>o1. R\<^sup>*\<^sup>* (memory_obs w) o1 \<longrightarrow> ob_kv o1 k = Some v"
  then show "(k, v) \<in> set es"
    unfolding es using memory_entry [of k v w p] by blast
next
  fix p
  show "reads_value R memory_obs (\<lambda>o1 r. object_result r (ob_objects o1 p))
     (io_try (\<lambda>m. (case bt_get (mem_objects m) p of None \<Rightarrow> Inl ObjectNotFound | Some v \<Rightarrow> Inr v, m)) :: (_, lib_error, _) io)"
    by (rule reads_value_idle) (auto simp: io_try_def object_result_def split: option.splits)
next
  fix k e v
  show "writes_if R memory_obs (\<lambda>o1. ob_kv o1 k = e) (apply_effect (PutEffect k v))
     (\<lambda>m. if bt_get (mem_kv m) k = e then (Inr True, memory_effect (PutEffect k v) m) else (Inr False, m))"
    by (rule writes_if_idle [where f' = "memory_effect (PutEffect k v)"]) (simp_all only: memory_obs_fields memory_effect_obs split: if_split, simp)
next
  fix k e es
  show "writes_if R memory_obs (\<lambda>o1. ob_kv o1 k = e) (apply_effects es)
     (\<lambda>m. if bt_get (mem_kv m) k = e then (Inr True, fold memory_effect es m) else (Inr False, m))"
    by (rule writes_if_idle [where f' = "fold memory_effect es"]) (simp_all add: memory_effects_obs)
next
  fix i
  show "reads_value R memory_obs (\<lambda>o1 v. v = Some RunLive \<longrightarrow> run_submitted i o1)
     (\<lambda>m. (Inr (if list_ex (\<lambda>(p, s). rs_run_id s = i) (mem_submits m) then Some RunLive else None), m))"
    by (rule reads_value_idle) (auto simp: run_submitted_def list_ex_iff)
next
  fix w
  show "later R memory_obs w (snd (now, w))" by (simp add: later_def)
qed (rule reads_value_idle reads_idle writes_idle;
    simp add: memory_effect_obs memory_effects_obs memory_objects del: memory_effect.simps apply_effect.simps)+

text \<open>A store of the records themselves.\<close>

datatype stored =
    StoredRun graph_run_record | StoredNode node_record | StoredGraph graph_record
  | StoredRequest request_record | StoredInput task_input | StoredEvent event | StoredPayload request

definition stored_codecs :: "stored codecs" where
  "stored_codecs =
     \<lparr>enc_run = StoredRun, dec_run = (\<lambda>b. case b of StoredRun r \<Rightarrow> Inr r | _ \<Rightarrow> Inl ''not a run''),
      enc_node = StoredNode, dec_node = (\<lambda>b. case b of StoredNode r \<Rightarrow> Inr r | _ \<Rightarrow> Inl ''not a node''),
      enc_graph = StoredGraph, dec_graph = (\<lambda>b. case b of StoredGraph r \<Rightarrow> Inr r | _ \<Rightarrow> Inl ''not a graph''),
      enc_request = StoredRequest, dec_request = (\<lambda>b. case b of StoredRequest r \<Rightarrow> Inr r | _ \<Rightarrow> Inl ''not a request record''),
      enc_input = StoredInput, dec_input = (\<lambda>b. case b of StoredInput r \<Rightarrow> Inr r | _ \<Rightarrow> Inl ''not an input''),
      enc_event = StoredEvent, dec_event = (\<lambda>b. case b of StoredEvent r \<Rightarrow> Inr r | _ \<Rightarrow> Inl ''not an event''),
      enc_payload = StoredPayload, dec_payload = (\<lambda>b. case b of StoredPayload r \<Rightarrow> Inr r | _ \<Rightarrow> Inl ''not a request'')\<rparr>"

lemma stored_codecs_ok: "codecs_ok stored_codecs"
  by (simp add: codecs_ok_def stored_codecs_def)

end
