(* ===== verification/Scheduler.thy ===== *)
theory Scheduler
  imports Definition_Store Readiness
begin

section \<open>The scheduler (\<open>scheduler.rs\<close>)\<close>

text \<open>
  The operations of the scheduler, on the process and its environment. The one error that is not
  an error value of the source is \<open>Panicked\<close>: an \<open>expect\<close>, an index or a loop of the readiness rule
  that fails or does not end; the theory \<open>Scheduler_Safety\<close> shows that no operation returns it.
  Counts are natural numbers and a rerun count wraps around at its width.
\<close>

datatype scheduler_error =
    QueueError lib_error
  | WorkflowError workflow_error
  | ObjectStoreError lib_error
  | RecordError bytes string
  | DefinitionError definition_error
  | UnknownDefinition string
  | UnknownGraph string
  | NoPartition string
  | UnknownPool string string
  | UnknownGraphRun string partition
  | UnknownGraphNode string string
  | Contended string partition
  | Panicked

definition scheduler_error_of :: "read_error \<Rightarrow> scheduler_error" where
  "scheduler_error_of e = (case e of ReadQueue q \<Rightarrow> QueueError q | ReadRecord key message \<Rightarrow> RecordError key message)"

definition is_permanent :: "scheduler_error \<Rightarrow> bool" where
  "is_permanent e =
     (case e of
       QueueError q \<Rightarrow> le_permanent q
     | WorkflowError w \<Rightarrow> we_permanent w
     | RecordError key message \<Rightarrow> True
     | UnknownGraph g \<Rightarrow> True
     | UnknownGraphRun g p \<Rightarrow> True
     | UnknownGraphNode g n \<Rightarrow> True
     | NoPartition g \<Rightarrow> True
     | ObjectStoreError q \<Rightarrow> False
     | DefinitionError d \<Rightarrow> False
     | UnknownDefinition h \<Rightarrow> False
     | UnknownPool n p \<Rightarrow> False
     | Contended g p \<Rightarrow> False
     | Panicked \<Rightarrow> False)"

record start_outcome =
  so_started :: bool
  so_submitted :: "string list"

datatype rerun_outcome = RerunSubmitted string | RerunActive string | RerunNoRecord | RerunNotReady

record reconcile_report =
  rep_active_runs :: nat
  rep_submitted :: nat
  rep_settled :: nat
  rep_cancelled :: nat

definition graph_run_cancelled :: string where
  "graph_run_cancelled = ''the graph run is cancelled''"

text \<open>The calls, with the conversion of their errors.\<close>

definition queue_io :: "('w, lib_error, 'a) io \<Rightarrow> (('w, 'x) process, scheduler_error, 'a) io" where
  "queue_io m = io_map_error QueueError (world_io m)"

definition read_io :: "('w, read_error, 'a) io \<Rightarrow> (('w, 'x) process, scheduler_error, 'a) io" where
  "read_io m = io_map_error scheduler_error_of (world_io m)"

definition workflow_io :: "('w, workflow_error, 'a) io \<Rightarrow> (('w, 'x) process, scheduler_error, 'a) io" where
  "workflow_io m = io_map_error WorkflowError (world_io m)"

definition clock_io :: "('w, 'b, 'x, 'r) env \<Rightarrow> (('w, 'x) process, 'e, nat) io" where
  "clock_io en s = (let (t, w) = clock_now (en_backend en) (st_world s) in (Inr t, s\<lparr>st_world := w\<rparr>))"

definition panics :: "'a option \<Rightarrow> ('s, scheduler_error, 'a) io" where
  "panics v = io_of_sum (case v of None \<Rightarrow> Inl Panicked | Some a \<Rightarrow> Inr a)"

subsection \<open>Reading\<close>

definition read_graph_record ::
  "('w, 'b, 'x, 'r) env \<Rightarrow> string \<Rightarrow> (('w, 'x) process, scheduler_error, graph_record option) io" where
  "read_graph_record en name = read_io (read_record (en_backend en) (dec_graph (en_codecs en)) (graph_key name))"

definition scheduler_graph ::
  "('w, 'b, 'x, 'r) env \<Rightarrow> string \<Rightarrow> (('w, 'x) process, scheduler_error, 'x graph) io" where
  "scheduler_graph en hash =
     io_bind (io_map_error DefinitionError (definition_get en hash)) (\<lambda>v.
       case v of None \<Rightarrow> io_fail (UnknownDefinition hash) | Some g \<Rightarrow> io_return g)"

definition graph_run ::
  "('w, 'b, 'x, 'r) env \<Rightarrow> bytes \<Rightarrow> (('w, 'x) process, scheduler_error, (graph_run_record \<times> 'b) option) io" where
  "graph_run en key =
     io_bind (queue_io (kv_get (en_backend en) key)) (\<lambda>v.
       case v of
         None \<Rightarrow> io_return None
       | Some bs \<Rightarrow>
           io_bind (io_map_error scheduler_error_of (io_of_sum (parse_record (dec_run (en_codecs en)) key bs)))
             (\<lambda>r. io_return (Some (r, bs))))"

definition read_node_record ::
  "('w, 'b, 'x, 'r) env \<Rightarrow> 'x graph \<Rightarrow> partition \<Rightarrow> node \<Rightarrow>
   (('w, 'x) process, scheduler_error, node_record option) io" where
  "read_node_record en g p n =
     read_io (read_record (en_backend en) (dec_node (en_codecs en)) (node_record_key (gr_name g) p n))"

definition read_node_records ::
  "('w, 'b, 'x, 'r) env \<Rightarrow> 'x graph \<Rightarrow> partition \<Rightarrow> (('w, 'x) process, scheduler_error, records) io" where
  "read_node_records en g p =
     io_fold (\<lambda>n records.
       io_bind (read_node_record en g p n) (\<lambda>v.
         io_return (case v of None \<Rightarrow> records | Some r \<Rightarrow> bt_insert (node_name n) r records)))
       (gr_nodes g) []"

definition upstream_records :: "node \<Rightarrow> records \<Rightarrow> records" where
  "upstream_records n records =
     fold (\<lambda>u acc. case bt_get records u of None \<Rightarrow> acc | Some r \<Rightarrow> bt_insert u r acc) (nd_upstreams n) []"

definition identity :: "'x graph \<Rightarrow> string \<Rightarrow> partition \<Rightarrow> node \<Rightarrow> u32 \<Rightarrow> task_identity" where
  "identity g hash p n rerun =
     \<lparr>ti_graph = gr_name g, ti_partition = p, ti_node = node_name n, ti_asset = node_asset n,
      ti_definition = hash, ti_rerun = rerun\<rparr>"

subsection \<open>Submitting a node\<close>

definition submit_spec ::
  "('w, 'b, 'x, 'r) env \<Rightarrow> node \<Rightarrow> task_identity \<Rightarrow> records \<Rightarrow> 'b effect list \<Rightarrow> 'b run_spec" where
  "submit_spec en n i upstreams effects =
     \<lparr>rs_run_id = identity_run_id i,
      rs_input = enc_input (en_codecs en) (task_input_new (en_params_json en) n upstreams),
      rs_headers = headers i, rs_max_attempts = Some (node_retries n + 1), rs_effects = effects\<rparr>"

definition submit_node ::
  "('w, 'b, 'x, 'r) env \<Rightarrow> node \<Rightarrow> task_identity \<Rightarrow> records \<Rightarrow> (string \<Rightarrow> 'b effect list) \<Rightarrow>
   (('w, 'x) process, scheduler_error, string \<times> bool) io" where
  "submit_node en n i upstreams effects =
     (if \<not> pool_exists (en_backend en) (node_pool n) then io_fail (UnknownPool (node_name n) (node_pool n))
      else
        let rid = identity_run_id i
        in io_bind (workflow_io (wf_submit (en_backend en) (node_pool n)
              (submit_spec en n i upstreams (effects rid)))) (\<lambda>new. io_return (rid, new)))"

subsection \<open>Settling a graph run\<close>

definition run_is_active ::
  "('w, 'b, 'x, 'r) env \<Rightarrow> node \<Rightarrow> string \<Rightarrow> (('w, 'x) process, scheduler_error, bool) io" where
  "run_is_active en n rid =
     (if \<not> pool_exists (en_backend en) (node_pool n) then io_return False
      else io_bind (workflow_io (wf_status (en_backend en) (node_pool n) rid)) (\<lambda>status.
        io_return (status = Some RunLive)))"

text \<open>The commit of a settled record with its expiry index entry, against the bytes read.\<close>

definition settle_effects ::
  "('w, 'b, 'x, 'r) env \<Rightarrow> string \<Rightarrow> partition \<Rightarrow> nat \<Rightarrow> graph_run_record \<Rightarrow> 'b effect list" where
  "settle_effects en name p t settled =
     [PutEffect (graph_run_key name p) (enc_run (en_codecs en) (settled\<lparr>run_settled_at_ms := Some t\<rparr>)),
      ExpiryEffect t (expiring_suffix (ExpiringRun name p))]"

definition commit_settled ::
  "('w, 'b, 'x, 'r) env \<Rightarrow> string \<Rightarrow> partition \<Rightarrow> 'b \<Rightarrow> graph_run_record \<Rightarrow>
   (('w, 'x) process, scheduler_error, bool) io" where
  "commit_settled en name p expected settled =
     io_bind (clock_io en) (\<lambda>t.
       queue_io (kv_compare_commit (en_backend en) (graph_run_key name p) (Some expected)
         (settle_effects en name p t settled)))"

text \<open>Whether the run of an unrecorded task instance is active: the loop of \<open>settle\<close>.\<close>

fun any_active ::
  "('w, 'b, 'x, 'r) env \<Rightarrow> 'x graph \<Rightarrow> partition \<Rightarrow> graph_run_record \<Rightarrow> records \<Rightarrow> node list \<Rightarrow>
   (('w, 'x) process, scheduler_error, bool) io" where
  "any_active en g p run records [] = io_return False"
| "any_active en g p run records (n # ns) =
     (case unrecorded_run_id g p run n records of
       None \<Rightarrow> any_active en g p run records ns
     | Some rid \<Rightarrow> io_bind (run_is_active en n rid) (\<lambda>active.
         if active then io_return True else any_active en g p run records ns))"

definition settled_record :: "graph_run_record \<Rightarrow> graph_run_state \<Rightarrow> records \<Rightarrow> graph_run_record" where
  "settled_record run state records =
     run\<lparr>run_state := state,
       run_expected_reruns := filter (\<lambda>(name, expected).
         case bt_get records name of None \<Rightarrow> True | Some r \<Rightarrow> rec_rerun r < expected) (run_expected_reruns run)\<rparr>"

definition settle ::
  "('w, 'b, 'x, 'r) env \<Rightarrow> 'x graph \<Rightarrow> partition \<Rightarrow> graph_run_record \<Rightarrow> 'b \<Rightarrow> records \<Rightarrow> states \<Rightarrow>
   (('w, 'x) process, scheduler_error, bool) io" where
  "settle en g p run bs records states =
     (case settled_state states of
       None \<Rightarrow> io_return False
     | Some state \<Rightarrow>
         io_bind (any_active en g p run records (gr_nodes g)) (\<lambda>active.
           if active then io_return False
           else commit_settled en (gr_name g) p bs (settled_record run state records)))"

subsection \<open>Advancing a graph run\<close>

definition next_rerun :: "records \<Rightarrow> string \<Rightarrow> u32" where
  "next_rerun records name = (case bt_get records name of None \<Rightarrow> 0 | Some r \<Rightarrow> rec_rerun r + 1)"

definition submit_candidate ::
  "('w, 'b, 'x, 'r) env \<Rightarrow> 'x graph \<Rightarrow> partition \<Rightarrow> graph_run_record \<Rightarrow> records \<Rightarrow> states \<Rightarrow> node \<Rightarrow> nat \<Rightarrow>
   (('w, 'x) process, scheduler_error, nat) io" where
  "submit_candidate en g p run records states n submitted =
     io_bind (panics (bt_get states (node_name n))) (\<lambda>state.
       if state \<noteq> NodeReady then io_return submitted
       else
         io_bind (submit_node en n
             (identity g (run_definition run) p n (next_rerun records (node_name n)))
             (upstream_records n (current_records run records)) (\<lambda>rid. [])) (\<lambda>(rid, new).
           io_return (if new then submitted + 1 else submitted)))"

definition advance ::
  "('w, 'b, 'x, 'r) env \<Rightarrow> 'x graph \<Rightarrow> partition \<Rightarrow> graph_run_record \<Rightarrow> 'b \<Rightarrow> node list \<Rightarrow>
   (('w, 'x) process, scheduler_error, nat \<times> bool) io" where
  "advance en g p run bs candidates =
     io_bind (read_node_records en g p) (\<lambda>records.
       io_bind (panics (node_states g (current_records run records))) (\<lambda>states.
         io_bind (io_fold (submit_candidate en g p run records states) candidates 0) (\<lambda>submitted.
           io_bind (settle en g p run bs records states) (\<lambda>settled.
             io_return (submitted, settled)))))"

subsection \<open>Cancelling\<close>

definition cancel_node ::
  "('w, 'b, 'x, 'r) env \<Rightarrow> 'x graph \<Rightarrow> partition \<Rightarrow> graph_run_record \<Rightarrow> records \<Rightarrow> node \<Rightarrow> nat \<Rightarrow>
   (('w, 'x) process, scheduler_error, nat) io" where
  "cancel_node en g p run records n cancelled =
     (case unrecorded_run_id g p run n records of
       None \<Rightarrow> io_return cancelled
     | Some rid \<Rightarrow>
         if \<not> pool_exists (en_backend en) (node_pool n) then io_return cancelled
         else
           io_bind (workflow_io (wf_cancel (en_backend en) (node_pool n) rid (Some graph_run_cancelled))) (\<lambda>outcome.
             let cancelled' = (if outcome \<noteq> CancelNotActive then cancelled + 1 else cancelled)
             in if node_each n \<noteq> None
                then io_bind (workflow_io (wf_group_cancel (en_backend en) (node_pool n)
                    (group_id (gr_name g) p (node_name n)) (Some graph_run_cancelled))) (\<lambda>u. io_return cancelled')
                else io_return cancelled'))"

definition cancel_active_runs ::
  "('w, 'b, 'x, 'r) env \<Rightarrow> 'x graph \<Rightarrow> partition \<Rightarrow> graph_run_record \<Rightarrow> (('w, 'x) process, scheduler_error, nat) io" where
  "cancel_active_runs en g p run =
     io_bind (read_node_records en g p) (\<lambda>records.
       io_fold (cancel_node en g p run records) (gr_nodes g) 0)"

definition forget_groups ::
  "('w, 'b, 'x, 'r) env \<Rightarrow> 'x graph \<Rightarrow> partition \<Rightarrow> (('w, 'x) process, scheduler_error, unit) io" where
  "forget_groups en g p =
     io_fold (\<lambda>n u.
       if pool_exists (en_backend en) (node_pool n)
       then workflow_io (wf_group_forget (en_backend en) (node_pool n) (group_id (gr_name g) p (node_name n)))
       else io_return ())
       (filter (\<lambda>n. node_each n \<noteq> None) (gr_nodes g)) ()"

definition cancel_run ::
  "('w, 'b, 'x, 'r) env \<Rightarrow> string \<Rightarrow> partition \<Rightarrow> (('w, 'x) process, scheduler_error, bool) io" where
  "cancel_run en name p =
     io_bind (graph_run en (graph_run_key name p)) (\<lambda>v.
       case v of
         None \<Rightarrow> io_return False
       | Some (run, bs) \<Rightarrow>
           if run_state run \<noteq> RunActive then io_return False
           else
             io_bind (commit_settled en name p bs (run\<lparr>run_state := RunCancelled\<rparr>)) (\<lambda>written.
               if \<not> written then io_return False
               else
                 io_bind (scheduler_graph en (run_definition run)) (\<lambda>g.
                   io_bind (cancel_active_runs en g p run) (\<lambda>n. io_return True))))"

subsection \<open>Starting graph runs\<close>

definition new_run_record :: "string \<Rightarrow> nat \<Rightarrow> graph_run_record" where
  "new_run_record hash t =
     \<lparr>run_definition = hash, run_requested_at_ms = t, run_state = RunActive, run_settled_at_ms = None,
      run_expected_reruns = []\<rparr>"

definition start_run ::
  "('w, 'b, 'x, 'r) env \<Rightarrow> string \<Rightarrow> partition \<Rightarrow> (('w, 'x) process, scheduler_error, start_outcome) io" where
  "start_run en hash p =
     io_bind (scheduler_graph en hash) (\<lambda>g.
       io_bind (clock_io en) (\<lambda>t.
         io_bind (queue_io (kv_compare_put (en_backend en) (graph_run_key (gr_name g) p) None
             (enc_run (en_codecs en) (new_run_record hash t)))) (\<lambda>written.
           if \<not> written then io_return \<lparr>so_started = False, so_submitted = []\<rparr>
           else
             io_bind (io_fold (\<lambda>n submitted.
                 io_bind (submit_node en n (identity g hash p n 0) [] (\<lambda>rid. [])) (\<lambda>(rid, new).
                   io_return (submitted @ [rid]))) (graph_roots g) []) (\<lambda>submitted.
               io_return \<lparr>so_started = True, so_submitted = submitted\<rparr>))))"

definition adopted :: "('w, 'b, 'x, 'r) env \<Rightarrow> string \<Rightarrow> (('w, 'x) process, scheduler_error, graph_record) io" where
  "adopted en name =
     io_bind (read_graph_record en name) (\<lambda>v.
       case v of None \<Rightarrow> io_fail (UnknownGraph name) | Some r \<Rightarrow> io_return r)"

definition start_adopted ::
  "('w, 'b, 'x, 'r) env \<Rightarrow> graph_record \<Rightarrow> partition list \<Rightarrow> (('w, 'x) process, scheduler_error, partition list) io" where
  "start_adopted en r ps =
     io_fold (\<lambda>p started.
       io_bind (start_run en (adopted_definition r) p) (\<lambda>out.
         io_return (if so_started out then started @ [p] else started))) ps []"

definition start_runs ::
  "('w, 'b, 'x, 'r) env \<Rightarrow> string \<Rightarrow> partition list \<Rightarrow> (('w, 'x) process, scheduler_error, partition list) io" where
  "start_runs en name ps = io_bind (adopted en name) (\<lambda>r. start_adopted en r ps)"

definition handle_trigger ::
  "('w, 'b, 'x, 'r) env \<Rightarrow> string \<Rightarrow> nat option \<Rightarrow> (('w, 'x) process, scheduler_error, partition option) io" where
  "handle_trigger en name interval_start_ms =
     io_bind (adopted en name) (\<lambda>r.
       io_bind (scheduler_graph en (adopted_definition r)) (\<lambda>g.
         case Option.bind interval_start_ms (of_time (en_utc en) (gr_partitioning g)) of
           None \<Rightarrow> io_fail (NoPartition name)
         | Some p \<Rightarrow> io_bind (start_adopted en r [p]) (\<lambda>started.
             io_return (case started of [] \<Rightarrow> None | q # qs \<Rightarrow> Some q))))"

subsection \<open>Rerunning a node\<close>

definition rerun_expected :: "graph_run_record \<Rightarrow> records \<Rightarrow> node list \<Rightarrow> graph_run_record" where
  "rerun_expected active records scope =
     active\<lparr>run_expected_reruns :=
       fold (\<lambda>n expected. case bt_get records (node_name n) of
           None \<Rightarrow> expected
         | Some r \<Rightarrow> bt_insert (node_name n) (rec_rerun r + 1) expected) scope (run_expected_reruns active)\<rparr>"

definition rerun_active ::
  "'x graph \<Rightarrow> node \<Rightarrow> graph_run_record \<Rightarrow> node_record \<Rightarrow> records \<Rightarrow> graph_run_record option" where
  "rerun_active g n run r records =
     (let active = run\<lparr>run_state := RunActive, run_settled_at_ms := None\<rparr>
      in if rec_status r = Succeeded \<and> is_current run (node_name n) r
         then map_option (rerun_expected active records) (rerun_scope g n)
         else Some active)"

definition rerun_with ::
  "('w, 'b, 'x, 'r) env \<Rightarrow> string \<Rightarrow> partition \<Rightarrow> string \<Rightarrow> (string \<Rightarrow> 'b effect list) \<Rightarrow>
   (('w, 'x) process, scheduler_error, rerun_outcome) io" where
  "rerun_with en name p node effects =
     io_bind (graph_run en (graph_run_key name p)) (\<lambda>v.
       case v of
         None \<Rightarrow> io_fail (UnknownGraphRun name p)
       | Some (run, bs) \<Rightarrow>
           io_bind (scheduler_graph en (run_definition run)) (\<lambda>g.
             case graph_node g node of
               None \<Rightarrow> io_fail (UnknownGraphNode name node)
             | Some n \<Rightarrow>
                 io_bind (read_node_records en g p) (\<lambda>records.
                   case bt_get records (node_name n) of
                     None \<Rightarrow> io_return RerunNoRecord
                   | Some r \<Rightarrow>
                       io_bind (panics (rerun_active g n run r records)) (\<lambda>active.
                         let current = current_records active records
                         in if \<not> is_ready n current then io_return RerunNotReady
                         else
                           io_bind (if active \<noteq> run
                               then queue_io (kv_compare_put (en_backend en) (graph_run_key name p) (Some bs)
                                 (enc_run (en_codecs en) active))
                               else io_return True) (\<lambda>written.
                             if \<not> written then io_fail (Contended name p)
                             else
                               io_bind (submit_node en n
                                   (identity g (rec_definition r) p n (rec_rerun r + 1))
                                   (upstream_records n current) effects) (\<lambda>(rid, new).
                                 io_return (if new then RerunSubmitted rid else RerunActive rid)))))))"

definition rerun ::
  "('w, 'b, 'x, 'r) env \<Rightarrow> string \<Rightarrow> partition \<Rightarrow> string \<Rightarrow> (('w, 'x) process, scheduler_error, rerun_outcome) io" where
  "rerun en name p node = rerun_with en name p node (\<lambda>rid. [])"

subsection \<open>Events and the reconciler\<close>

definition handle_event ::
  "('w, 'b, 'x, 'r) env \<Rightarrow> event \<Rightarrow> (('w, 'x) process, scheduler_error, unit) io" where
  "handle_event en ev =
     io_bind (graph_run en (graph_run_key (ev_graph ev) (ev_partition ev))) (\<lambda>v.
       case v of
         None \<Rightarrow> io_return ()
       | Some (run, bs) \<Rightarrow>
           if run_state run \<noteq> RunActive then io_return ()
           else
             io_bind (scheduler_graph en (run_definition run)) (\<lambda>g.
               case graph_node g (ev_node ev) of
                 None \<Rightarrow> io_return ()
               | Some n \<Rightarrow>
                   io_bind (panics (those (map (graph_node g) (nd_downstreams n)))) (\<lambda>downstreams.
                     io_bind (advance en g (ev_partition ev) run bs downstreams) (\<lambda>x. io_return ()))))"

definition reconcile_entry ::
  "('w, 'b, 'x, 'r) env \<Rightarrow> bytes \<times> 'b \<times> graph_run_record \<Rightarrow> reconcile_report \<Rightarrow>
   (('w, 'x) process, scheduler_error, reconcile_report) io" where
  "reconcile_entry en e report =
     (let (key, bs, run) = e
      in case parse_graph_run_key key of
        None \<Rightarrow> io_return report
      | Some (name, p) \<Rightarrow>
          io_bind (io_try (definition_get en (run_definition run))) (\<lambda>got.
            case got of
              Inl err \<Rightarrow> io_return report
            | Inr None \<Rightarrow> io_return report
            | Inr (Some g) \<Rightarrow>
                (case run_state run of
                  RunActive \<Rightarrow>
                    io_bind (advance en g p run bs (gr_nodes g)) (\<lambda>(submitted, settled).
                      io_return (report\<lparr>rep_active_runs := rep_active_runs report + 1,
                        rep_submitted := rep_submitted report + submitted,
                        rep_settled := rep_settled report + (if settled then 1 else 0)\<rparr>))
                | RunCancelled \<Rightarrow>
                    io_bind (cancel_active_runs en g p run) (\<lambda>n.
                      io_return (report\<lparr>rep_cancelled := rep_cancelled report + n\<rparr>))
                | RunComplete \<Rightarrow> io_return report
                | RunFailed \<Rightarrow> io_return report)))"

definition reconcile ::
  "('w, 'b, 'x, 'r) env \<Rightarrow> (('w, 'x) process, scheduler_error, reconcile_report) io" where
  "reconcile en =
     io_bind (queue_io (scan_records (en_backend en) (dec_run (en_codecs en)) graph_runs_prefix)) (\<lambda>runs.
       io_fold (reconcile_entry en) runs
         \<lparr>rep_active_runs = 0, rep_submitted = 0, rep_settled = 0, rep_cancelled = 0\<rparr>)"

subsection \<open>The workers\<close>

text \<open>A job of a queue, as the workers read it, and the failure of a worker.\<close>

record 'b job =
  job_id :: string
  job_headers :: "string \<Rightarrow> string option"
  job_payload :: 'b

datatype worker_error = Permanent scheduler_error | PermanentText string | Retried scheduler_error

definition worker_error_of :: "scheduler_error \<Rightarrow> worker_error" where
  "worker_error_of e = (if is_permanent e then Permanent e else Retried e)"

definition previous_fire_ms_header :: string where
  "previous_fire_ms_header = ''cron.previous_fire_ms''"

definition firing_headers :: "string \<Rightarrow> string \<Rightarrow> string option" where
  "firing_headers name = [header_graph \<mapsto> name]"

definition process_trigger ::
  "('w, 'b, 'x, 'r) env \<Rightarrow> 'b job \<Rightarrow> (('w, 'x) process, worker_error, unit) io" where
  "process_trigger en job =
     (case job_headers job header_graph of
       None \<Rightarrow> io_fail (PermanentText (''the job does not have the `'' @ header_graph @ ''` header''))
     | Some name \<Rightarrow>
         io_bind (io_map_error worker_error_of
             (handle_trigger en name
               (Option.bind (job_headers job previous_fire_ms_header) (parse_unsigned u64_max)))) (\<lambda>p. io_return ()))"

definition process_event ::
  "('w, 'b, 'x, 'r) env \<Rightarrow> 'b job \<Rightarrow> (('w, 'x) process, worker_error, unit) io" where
  "process_event en job =
     io_bind (io_map_error (\<lambda>e. PermanentText (''the payload is not an event: '' @ e))
         (io_of_sum (dec_event (en_codecs en) (job_payload job)))) (\<lambda>ev.
       io_map_error worker_error_of (handle_event en ev))"

end
