(* ===== verification/Scheduler_Safety.thy ===== *)
theory Scheduler_Safety
  imports Scheduler
begin

section \<open>What the scheduler writes\<close>

text \<open>
  \<open>store_step\<close> is one write to the store by any worker of the system, with its condition at the
  moment it is applied: a run is created where there is none, an active run is settled with its
  expiry entry, a run is made active again, and so on. Every operation of the scheduler, with
  other workers doing such steps between its calls, does such steps and nothing else, keeps the
  cache of definitions and does not panic. \<open>expiry_inv\<close> is an invariant of the steps, so it holds
  in every reachable store.
\<close>

subsection \<open>The steps\<close>

definition request_effects :: "('w, 'b, 'x, 'r) env \<Rightarrow> request_id \<Rightarrow> request_record \<Rightarrow> 'b effect list" where
  "request_effects en i r =
     [PutEffect (request_key i) (enc_request (en_codecs en) r),
      ExpiryEffect (rr_handled_at_ms r) (expiring_suffix (ExpiringRequest i))]"

definition entry_live :: "('w, 'b, 'x, 'r) env \<Rightarrow> 'b obs \<Rightarrow> nat \<times> bytes \<Rightarrow> bool" where
  "entry_live en o1 e \<longleftrightarrow>
     (\<exists>g p bs run. expiring_parse (snd e) = Some (ExpiringRun g p) \<and> ob_kv o1 (graph_run_key g p) = Some bs \<and>
        dec_run (en_codecs en) bs = Inr run \<and> run_settled_at_ms run = Some (fst e)) \<or>
     (\<exists>i bs r. expiring_parse (snd e) = Some (ExpiringRequest i) \<and> ob_kv o1 (request_key i) = Some bs \<and>
        dec_request (en_codecs en) bs = Inr r \<and> rr_handled_at_ms r = fst e)"

inductive store_step :: "('w, 'b, 'x, 'r) env \<Rightarrow> 'b obs \<Rightarrow> 'b obs \<Rightarrow> bool" for en where
  step_start:
    "ob_kv o1 (graph_run_key g p) = None \<Longrightarrow>
     store_step en o1
       (apply_effect (PutEffect (graph_run_key g p) (enc_run (en_codecs en) (new_run_record hash t))) o1)"
| step_settle:
    "ob_kv o1 (graph_run_key g p) = Some bs \<Longrightarrow> dec_run (en_codecs en) bs = Inr run \<Longrightarrow>
     run_state run = RunActive \<Longrightarrow> run_definition settled = run_definition run \<Longrightarrow>
     run_state settled \<noteq> RunActive \<Longrightarrow>
     store_step en o1 (apply_effects (settle_effects en g p t settled) o1)"
| step_reactivate:
    "ob_kv o1 (graph_run_key g p) = Some bs \<Longrightarrow> dec_run (en_codecs en) bs = Inr run \<Longrightarrow>
     run_state active = RunActive \<Longrightarrow> run_settled_at_ms active = None \<Longrightarrow>
     run_definition active = run_definition run \<Longrightarrow>
     store_step en o1 (apply_effect (PutEffect (graph_run_key g p) (enc_run (en_codecs en) active)) o1)"
| step_submit:
    "rs_effects spec = [] \<or> (\<exists>i r. rs_effects spec = request_effects en i r) \<Longrightarrow>
     store_step en o1 (apply_submit pool spec o1)"
| step_request: "store_step en o1 (apply_effects (request_effects en i r) o1)"
| step_node: "store_step en o1 (apply_effect (PutEffect (record_key g p n a) (enc_node (en_codecs en) r)) o1)"
| step_adopt: "store_step en o1 (apply_effect (PutEffect (graph_key g) (enc_graph (en_codecs en) r)) o1)"
| step_expire_run:
    "store_step en o1 (apply_effects (map DeleteEffect (graph_run_key g p # keys))
       (o1\<lparr>ob_expiry := ob_expiry o1 - {(t, expiring_suffix (ExpiringRun g p))}\<rparr>))"
  if "ob_kv o1 (graph_run_key g p) = Some bs" and "dec_run (en_codecs en) bs = Inr run"
    and "run_settled_at_ms run = Some t" and "\<forall>k \<in> set keys. \<exists>h q n a. k = record_key h q n a"
| step_expire_request:
    "store_step en o1 (apply_effects [DeleteEffect (request_key i)]
       (o1\<lparr>ob_expiry := ob_expiry o1 - {(t, expiring_suffix (ExpiringRequest i))}\<rparr>))"
| step_discard: "\<not> entry_live en o1 e \<Longrightarrow> store_step en o1 (o1\<lparr>ob_expiry := ob_expiry o1 - {e}\<rparr>)"
| step_objects: "store_step en o1 (o1\<lparr>ob_objects := objects\<rparr>)"

subsection \<open>The invariant of the expiry index\<close>

text \<open>
  An active run has no settle time, and a settled run and a request record have an entry of the
  expiry index at their time, so that the retention pass finds them.
\<close>

definition run_indexed :: "graph_run_record \<Rightarrow> bytes \<Rightarrow> (nat \<times> bytes) set \<Rightarrow> bool" where
  "run_indexed run suffix entries \<longleftrightarrow>
     (if run_state run = RunActive then run_settled_at_ms run = None
      else \<exists>t. run_settled_at_ms run = Some t \<and> (t, suffix) \<in> entries)"

definition expiry_inv :: "('w, 'b, 'x, 'r) env \<Rightarrow> 'b obs \<Rightarrow> bool" where
  "expiry_inv en o1 \<longleftrightarrow>
     (\<forall>g p bs run. is_name g \<longrightarrow> partition_ok p \<longrightarrow> ob_kv o1 (graph_run_key g p) = Some bs \<longrightarrow> dec_run (en_codecs en) bs = Inr run \<longrightarrow>
        run_indexed run (expiring_suffix (ExpiringRun g p)) (ob_expiry o1)) \<and>
     (\<forall>i bs r. request_id_ok i \<longrightarrow> ob_kv o1 (request_key i) = Some bs \<longrightarrow> dec_request (en_codecs en) bs = Inr r \<longrightarrow>
        (rr_handled_at_ms r, expiring_suffix (ExpiringRequest i)) \<in> ob_expiry o1)"

lemma run_key_suffix: "graph_run_key g p = kv_prefix @ expiring_suffix (ExpiringRun g p)"
  by (simp add: graph_run_key_def graph_runs_prefix_def kv_prefix_def expiring_suffix_def)

lemma request_key_suffix: "request_key i = kv_prefix @ expiring_suffix (ExpiringRequest i)"
  by (simp add: request_key_def requests_prefix_def kv_prefix_def expiring_suffix_def)

lemma request_key_record_key: "request_key i \<noteq> record_key g p n a"
  by (cases a) (simp_all add: record_key_def request_key_def requests_prefix_def asset_key_def task_key_def kv_prefix_def)

lemma graph_key_request_key: "graph_key g \<noteq> request_key i"
  by (simp add: graph_key_def graphs_prefix_def request_key_def requests_prefix_def)

lemmas keys_distinct = run_key_record_key run_key_record_key [symmetric] request_key_run_key
  request_key_run_key [symmetric] graph_key_run_key graph_key_run_key [symmetric]
  request_key_record_key request_key_record_key [symmetric] graph_key_request_key graph_key_request_key [symmetric]

lemma suffix_eq_iff:
  "expiring_suffix (ExpiringRun g p) = expiring_suffix (ExpiringRun h q) \<longleftrightarrow> graph_run_key g p = graph_run_key h q"
  "expiring_suffix (ExpiringRequest i) = expiring_suffix (ExpiringRequest j) \<longleftrightarrow> i = j"
  "expiring_suffix (ExpiringRun g p) \<noteq> expiring_suffix (ExpiringRequest i)"
  "expiring_suffix (ExpiringRequest i) \<noteq> expiring_suffix (ExpiringRun g p)"
  using request_key_eq_iff [of i j] by (simp_all add: run_key_suffix request_key_suffix expiring_suffix_def)

lemma entry_live_run:
  "is_name g \<Longrightarrow> partition_ok p \<Longrightarrow> entry_live en o1 (t, expiring_suffix (ExpiringRun g p)) \<longleftrightarrow>
     (\<exists>bs run. ob_kv o1 (graph_run_key g p) = Some bs \<and> dec_run (en_codecs en) bs = Inr run \<and>
        run_settled_at_ms run = Some t)"
  using expiry_suffixes.parse_render [of "ExpiringRun g p"] by (auto simp: entry_live_def)

lemma entry_live_request:
  "request_id_ok i \<Longrightarrow> entry_live en o1 (t, expiring_suffix (ExpiringRequest i)) \<longleftrightarrow>
     (\<exists>bs r. ob_kv o1 (request_key i) = Some bs \<and> dec_request (en_codecs en) bs = Inr r \<and> rr_handled_at_ms r = t)"
  using expiry_suffixes.parse_render [of "ExpiringRequest i"] by (auto simp: entry_live_def)

text \<open>A suffix that parses is the suffix of its value.\<close>

lemma expiring_parse_Some: "expiring_parse suffix = Some e \<Longrightarrow> expiring_suffix e = suffix"
  by (auto simp: expiring_parse_def parse_graph_partition_def expiring_suffix_def split_once_iff
      dest!: from_utf8_Some request_id_new_ok partition_new_ok split: option.splits sum.splits if_splits)

lemma entry_live_removed_run:
  "ob_kv o1 (graph_run_key g p) = None \<Longrightarrow> \<not> entry_live en o1 (t, expiring_suffix (ExpiringRun g p))"
proof
  assume none: "ob_kv o1 (graph_run_key g p) = None" and "entry_live en o1 (t, expiring_suffix (ExpiringRun g p))"
  then consider h q where "expiring_parse (expiring_suffix (ExpiringRun g p)) = Some (ExpiringRun h q)"
      "ob_kv o1 (graph_run_key h q) \<noteq> None"
    | i where "expiring_parse (expiring_suffix (ExpiringRun g p)) = Some (ExpiringRequest i)"
    by (auto simp: entry_live_def)
  then show False
    using none by cases (drule expiring_parse_Some, auto simp: suffix_eq_iff)+
qed

lemma entry_live_removed_request:
  "ob_kv o1 (request_key i) = None \<Longrightarrow> \<not> entry_live en o1 (t, expiring_suffix (ExpiringRequest i))"
  using expiring_parse_Some [of "expiring_suffix (ExpiringRequest i)"] by (auto simp: entry_live_def suffix_eq_iff)

lemma deletes_kv:
  "ob_kv (apply_effects (map DeleteEffect ks) o1) k = (if k \<in> set ks then None else ob_kv o1 k)"
  "ob_expiry (apply_effects (map DeleteEffect ks) o1) = ob_expiry o1"
  by (induction ks arbitrary: o1) auto

text \<open>A step keeps the invariant when the values it writes are indexed and the entries of the other
  values stay.\<close>

lemma expiry_invI:
  assumes inv: "expiry_inv en o1"
    and run: "\<And>g p bs r. ob_kv o2 (graph_run_key g p) = Some bs \<Longrightarrow> dec_run (en_codecs en) bs = Inr r \<Longrightarrow>
        ob_kv o1 (graph_run_key g p) = Some bs \<or> run_indexed r (expiring_suffix (ExpiringRun g p)) (ob_expiry o2)"
    and request: "\<And>i bs r. ob_kv o2 (request_key i) = Some bs \<Longrightarrow> dec_request (en_codecs en) bs = Inr r \<Longrightarrow>
        ob_kv o1 (request_key i) = Some bs \<or>
        (rr_handled_at_ms r, expiring_suffix (ExpiringRequest i)) \<in> ob_expiry o2"
    and gone: "\<And>e. e \<in> ob_expiry o1 \<Longrightarrow> e \<notin> ob_expiry o2 \<Longrightarrow> \<not> entry_live en o2 e"
  shows "expiry_inv en o2"
  unfolding expiry_inv_def
proof (intro conjI allI impI)
  fix g p bs r
  assume ok: "is_name g" "partition_ok p"
    and at: "ob_kv o2 (graph_run_key g p) = Some bs" "dec_run (en_codecs en) bs = Inr r"
  show "run_indexed r (expiring_suffix (ExpiringRun g p)) (ob_expiry o2)"
    using run [OF at]
  proof
    assume "ob_kv o1 (graph_run_key g p) = Some bs"
    then have "run_indexed r (expiring_suffix (ExpiringRun g p)) (ob_expiry o1)"
      using inv at(2) ok by (simp add: expiry_inv_def)
    moreover have "(t, expiring_suffix (ExpiringRun g p)) \<in> ob_expiry o2"
      if "(t, expiring_suffix (ExpiringRun g p)) \<in> ob_expiry o1" "run_settled_at_ms r = Some t" for t
      using gone [OF that(1)] at that(2) entry_live_run [OF ok] by blast
    ultimately show ?thesis by (auto simp: run_indexed_def split: if_splits)
  qed
next
  fix i bs r
  assume ok: "request_id_ok i" and at: "ob_kv o2 (request_key i) = Some bs" "dec_request (en_codecs en) bs = Inr r"
  show "(rr_handled_at_ms r, expiring_suffix (ExpiringRequest i)) \<in> ob_expiry o2"
    using request [OF at]
  proof
    assume "ob_kv o1 (request_key i) = Some bs"
    then have "(rr_handled_at_ms r, expiring_suffix (ExpiringRequest i)) \<in> ob_expiry o1"
      using inv at(2) ok by (simp add: expiry_inv_def)
    then show ?thesis using gone at entry_live_request [OF ok] by blast
  qed
qed

lemma request_indexed:
  assumes "codecs_ok (en_codecs en)" and "expiry_inv en o1"
  shows "expiry_inv en (apply_effects (request_effects en i r) o1)"
  by (rule expiry_invI [OF assms(2)])
    (use assms(1) in \<open>auto simp: request_effects_def codecs_ok_def keys_distinct request_key_eq_iff split: if_splits\<close>)

lemma expiry_inv_submits: "expiry_inv en (o1\<lparr>ob_submits := xs\<rparr>) \<longleftrightarrow> expiry_inv en o1"
  by (simp add: expiry_inv_def)

lemma expiry_inv_step:
  assumes codecs: "codecs_ok (en_codecs en)" and "store_step en o1 o2" and inv: "expiry_inv en o1"
  shows "expiry_inv en o2"
  using assms(2)
proof cases
  case (step_start g p hash t)
  show ?thesis
    by (rule expiry_invI [OF inv])
      (use codecs in \<open>auto simp: step_start codecs_ok_def keys_distinct run_indexed_def new_run_record_def split: if_splits\<close>)
next
  case (step_settle g p bs run settled t)
  show ?thesis
    by (rule expiry_invI [OF inv])
      (use codecs step_settle(6) in \<open>auto simp: step_settle(1) settle_effects_def codecs_ok_def keys_distinct suffix_eq_iff
        run_indexed_def split: if_splits\<close>)
next
  case (step_reactivate g p bs run active)
  show ?thesis
    by (rule expiry_invI [OF inv])
      (use codecs step_reactivate(4,5) in \<open>auto simp: step_reactivate(1) codecs_ok_def keys_distinct run_indexed_def split: if_splits\<close>)
next
  case (step_submit spec pool)
  then show ?thesis
    using inv request_indexed [OF codecs] by (auto simp: apply_submit_def expiry_inv_submits)
next
  case (step_request i r)
  then show ?thesis using inv request_indexed [OF codecs] by simp
next
  case (step_node g p n a r)
  show ?thesis by (rule expiry_invI [OF inv]) (auto simp: step_node keys_distinct split: if_splits)
next
  case (step_adopt g r)
  show ?thesis by (rule expiry_invI [OF inv]) (auto simp: step_adopt keys_distinct split: if_splits)
next
  case (step_expire_run g p bs run t keys)
  have kv: "ob_kv o2 k = (if k \<in> set (graph_run_key g p # keys) then None else ob_kv o1 k)" for k
    by (simp only: step_expire_run(1) deletes_kv) simp
  have expiry: "ob_expiry o2 = ob_expiry o1 - {(t, expiring_suffix (ExpiringRun g p))}"
    by (simp only: step_expire_run(1) deletes_kv) simp
  show ?thesis
    by (rule expiry_invI [OF inv]) (auto simp: kv expiry intro!: entry_live_removed_run split: if_splits)
next
  case (step_expire_request i t)
  show ?thesis
    by (rule expiry_invI [OF inv])
      (auto simp: step_expire_request intro!: entry_live_removed_request split: if_splits)
next
  case (step_discard e)
  show ?thesis
    by (rule expiry_invI [OF inv]) (use step_discard(2) in \<open>auto simp: step_discard(1) entry_live_def\<close>)
next
  case (step_objects objects)
  show ?thesis by (rule expiry_invI [OF inv]) (auto simp: step_objects)
qed

end
