(* ===== verification/Scheduler_Contract.thy ===== *)
theory Scheduler_Contract
  imports Scheduler_Safety Readiness_Correct
begin

section \<open>The contract of the scheduler's operations\<close>

text \<open>
  \<open>keeps_contract en obs m Q\<close>: from a process whose cache holds what its hashes name, \<open>m\<close> leaves such
  a process, its writes are steps of \<open>store_step\<close>, its value satisfies \<open>Q\<close> and its error is not a
  panic. Every operation has a lemma of this form, from those of its calls.
\<close>

subsection \<open>The results of the calls\<close>

lemma queue_io_Inr: "queue_io m s = (Inr a, s') \<longleftrightarrow> (\<exists>w. m (st_world s) = (Inr a, w) \<and> s' = s\<lparr>st_world := w\<rparr>)"
  by (simp add: queue_io_def world_io_result)

lemma workflow_io_Inr: "workflow_io m s = (Inr a, s') \<longleftrightarrow> (\<exists>w. m (st_world s) = (Inr a, w) \<and> s' = s\<lparr>st_world := w\<rparr>)"
  by (simp add: workflow_io_def world_io_result)

lemma read_io_Inr: "read_io m s = (Inr a, s') \<longleftrightarrow> (\<exists>w. m (st_world s) = (Inr a, w) \<and> s' = s\<lparr>st_world := w\<rparr>)"
  by (simp add: read_io_def world_io_result)

lemma clock_io_result:
  "clock_io en s = (r, s') \<longleftrightarrow>
     r = Inr (fst (clock_now (en_backend en) (st_world s))) \<and>
     s' = s\<lparr>st_world := snd (clock_now (en_backend en) (st_world s))\<rparr>"
  by (auto simp: clock_io_def Let_def split: prod.splits)

lemma parse_record_Inr [simp]:
  "parse_record dec k bs = Inr r \<longleftrightarrow> dec bs = Inr r" "Inr r = parse_record dec k bs \<longleftrightarrow> dec bs = Inr r"
  by (auto simp: parse_record_def split: sum.split)

lemma panics_Inr [simp]: "panics v s = (Inr a, s') \<longleftrightarrow> v = Some a \<and> s' = s"
  by (auto simp: panics_def split: option.splits)

lemma graph_run_Inr:
  "graph_run en key s = (Inr v, s') \<longleftrightarrow>
     (\<exists>b w. kv_get (en_backend en) key (st_world s) = (Inr b, w) \<and> s' = s\<lparr>st_world := w\<rparr> \<and>
        (case b of None \<Rightarrow> v = None | Some bs \<Rightarrow> \<exists>r. dec_run (en_codecs en) bs = Inr r \<and> v = Some (r, bs)))"
proof -
  have "(case b of None \<Rightarrow> io_return None | Some bs \<Rightarrow>
      io_bind (io_map_error scheduler_error_of (io_of_sum (parse_record (dec_run (en_codecs en)) key bs)))
        (\<lambda>r. io_return (Some (r, bs)))) s1 = (Inr v, s') \<longleftrightarrow>
     s' = s1 \<and> (case b of None \<Rightarrow> v = None | Some bs \<Rightarrow> \<exists>r. dec_run (en_codecs en) bs = Inr r \<and> v = Some (r, bs))"
    for b s1
    by (cases b) (auto simp: io_bind_Inr dest: sym)
  then show ?thesis unfolding graph_run_def io_bind_Inr queue_io_Inr by auto
qed

lemmas io_results = io_bind_Inr queue_io_Inr workflow_io_Inr read_io_Inr clock_io_result graph_run_Inr

subsection \<open>The contract\<close>

definition store_later :: "('w, 'b, 'x, 'r) env \<Rightarrow> ('w \<Rightarrow> 'b obs) \<Rightarrow> ('w, 'x) process \<Rightarrow> ('w, 'x) process \<Rightarrow> bool" where
  "store_later en obs s s' \<longleftrightarrow> later (store_step en) obs (st_world s) (st_world s')"

interpretation sched: io_contract "store_later en obs" "cache_ok en" for en obs
  by standard (auto simp: store_later_def later_def)

definition keeps_contract ::
  "('w, 'b, 'x, 'r) env \<Rightarrow> ('w \<Rightarrow> 'b obs) \<Rightarrow> (('w, 'x) process, scheduler_error, 'a) io \<Rightarrow> ('a \<Rightarrow> bool) \<Rightarrow> bool" where
  "keeps_contract en obs m Q \<longleftrightarrow> io_meets (cache_ok en) (store_later en obs) m Q (\<lambda>e. e \<noteq> Panicked)"

text \<open>An environment whose services obey the laws, with other workers doing steps of the store.\<close>

definition env_ok :: "('w, 'b, 'x, 'r) env \<Rightarrow> ('w \<Rightarrow> 'b obs) \<Rightarrow> bool" where
  "env_ok en obs \<longleftrightarrow> backend_ok (store_step en) (en_backend en) obs \<and> codecs_ok (en_codecs en)"

lemma env_ok_backend: "env_ok en obs \<Longrightarrow> backend_ok (store_step en) (en_backend en) obs"
  by (simp add: env_ok_def)

lemma contract_bind:
  "keeps_contract en obs m P \<Longrightarrow> (\<And>a. P a \<Longrightarrow> keeps_contract en obs (f a) Q) \<Longrightarrow> keeps_contract en obs (io_bind m f) Q"
  unfolding keeps_contract_def by (rule sched.meets_bind)

lemma contract_return: "Q a \<Longrightarrow> keeps_contract en obs (io_return a) Q"
  unfolding keeps_contract_def by (rule sched.meets_return)

lemma contract_fail: "e \<noteq> Panicked \<Longrightarrow> keeps_contract en obs (io_fail e) Q"
  unfolding keeps_contract_def by (rule sched.meets_fail)

lemma contract_fold:
  "(\<And>a b. a \<in> set as \<Longrightarrow> P b \<Longrightarrow> keeps_contract en obs (f a b) P) \<Longrightarrow> P b \<Longrightarrow>
     keeps_contract en obs (io_fold f as b) P"
  unfolding keeps_contract_def by (rule sched.meets_fold)

lemma contract_weaken: "keeps_contract en obs m P \<Longrightarrow> (\<And>a. P a \<Longrightarrow> Q a) \<Longrightarrow> keeps_contract en obs m Q"
  unfolding keeps_contract_def by (rule sched.meets_weaken)

lemma contract_True: "keeps_contract en obs m P \<Longrightarrow> keeps_contract en obs m (\<lambda>a. True)"
  by (rule contract_weaken) simp_all

lemma contract_value:
  "keeps_contract en obs m P \<Longrightarrow> (\<And>s a s'. m s = (Inr a, s') \<Longrightarrow> Q a) \<Longrightarrow> keeps_contract en obs m Q"
  unfolding keeps_contract_def by (rule sched.meetsI) (blast dest: sched.meetsE)+

lemma contract_panics: "(\<And>a. v = Some a \<Longrightarrow> Q a) \<Longrightarrow> v \<noteq> None \<Longrightarrow> keeps_contract en obs (panics v) Q"
  unfolding keeps_contract_def panics_def by (rule sched.meets_of_sum) (auto split: option.split)

lemma contract_of_sum:
  "(\<And>e. r = Inl e \<Longrightarrow> f e \<noteq> Panicked) \<Longrightarrow> (\<And>a. r = Inr a \<Longrightarrow> Q a) \<Longrightarrow>
     keeps_contract en obs (io_map_error f (io_of_sum r)) Q"
  unfolding keeps_contract_def
  by (rule sched.meets_map_error, rule sched.meets_of_sum) (auto split: sum.split)

text \<open>A call of a service keeps the contract when its writes are steps of the store.\<close>

lemma contract_world:
  assumes "reads (store_step en) obs m" and "\<And>e. f e \<noteq> Panicked"
  shows "keeps_contract en obs (io_map_error f (world_io m)) (\<lambda>a. True)"
  unfolding keeps_contract_def
proof (intro sched.meets_map_error sched.meetsI conjI)
  fix s r s'
  assume I: "cache_ok en s"
  {
    fix r
    assume "world_io m s = (r, s')"
    then obtain w where w: "m (st_world s) = (r, w)" "s' = s\<lparr>st_world := w\<rparr>" by (auto simp: world_io_result)
    have "later (store_step en) obs (st_world s) w"
      using assms(1) w(1) unfolding reads_def by (rule later.keepsD)
    then have "cache_ok en s' \<and> store_later en obs s s'" using I w(2) by (simp add: store_later_def)
  }
  note step = this
  show "cache_ok en s'" "store_later en obs s s'" if "world_io m s = (Inl e, s')" for e
    using step [OF that] by simp_all
  show "cache_ok en s'" "store_later en obs s s'" if "world_io m s = (Inr a, s')" for a
    using step [OF that] by simp_all
qed (rule assms(2), simp)

lemma contract_queue: "reads (store_step en) obs m \<Longrightarrow> keeps_contract en obs (queue_io m) (\<lambda>a. True)"
  unfolding queue_io_def by (rule contract_world) simp_all

lemma contract_workflow: "reads (store_step en) obs m \<Longrightarrow> keeps_contract en obs (workflow_io m) (\<lambda>a. True)"
  unfolding workflow_io_def by (rule contract_world) simp_all

lemma scheduler_error_of_Panicked [simp]: "scheduler_error_of e \<noteq> Panicked"
  by (simp add: scheduler_error_of_def split: read_error.split)

lemma contract_read: "reads (store_step en) obs m \<Longrightarrow> keeps_contract en obs (read_io m) (\<lambda>a. True)"
  unfolding read_io_def by (rule contract_world) simp_all

lemma contract_clock: "env_ok en obs \<Longrightarrow> keeps_contract en obs (clock_io en) (\<lambda>t. True)"
  unfolding keeps_contract_def
proof (rule sched.meetsI)
  fix s a s'
  assume "env_ok en obs" "cache_ok en s" "clock_io en s = (Inr a, s')"
  then show "cache_ok en s' \<and> store_later en obs s s' \<and> True"
    using backend_clock [OF env_ok_backend, of en obs "st_world s"]
    by (auto simp: clock_io_def Let_def store_later_def split: prod.splits)
qed (auto simp: clock_io_def Let_def split: prod.splits)

subsection \<open>Reading\<close>

lemma reads_record: "backend_ok R be obs \<Longrightarrow> reads R obs (read_record be dec key)"
  unfolding read_record_def
  by (auto intro!: reads_intros backend_reads split: option.split)

lemma reads_scan: "backend_ok R be obs \<Longrightarrow> reads R obs (scan_records be dec p)"
  unfolding scan_records_def by (intro reads_intros backend_reads)

lemma contract_graph_record: "env_ok en obs \<Longrightarrow> keeps_contract en obs (read_graph_record en name) (\<lambda>v. True)"
  unfolding read_graph_record_def by (intro contract_read reads_record env_ok_backend)

lemma meets_definition_get:
  assumes "env_ok en obs"
  shows "io_meets (cache_ok en) (store_later en obs) (definition_get en hash)
      (\<lambda>v. \<forall>g. v = Some g \<longrightarrow> wf_graph g \<and> named_graph g) (\<lambda>e. True)"
proof (rule sched.meetsI)
  have step: "cache_ok en s' \<and> store_later en obs s s'"
    if "cache_ok en s" "definition_get en hash s = (r, s')" for s r s'
    using quiet.keepsD [OF quiet_definition_get [OF env_ok_backend [OF assms]] that(2)] that(1)
    by (simp add: quiet_def store_later_def)
  fix s a s'
  show "cache_ok en s' \<and> store_later en obs s s' \<and> True"
    if "cache_ok en s" "definition_get en hash s = (Inl e, s')" for e
    using step [OF that] by simp
  show "cache_ok en s' \<and> store_later en obs s s' \<and> (\<forall>g. a = Some g \<longrightarrow> wf_graph g \<and> named_graph g)"
    if "cache_ok en s" "definition_get en hash s = (Inr a, s')"
    using step [OF that] that definition_get_wf [of en s hash] by blast
qed

lemma contract_scheduler_graph:
  assumes "env_ok en obs"
  shows "keeps_contract en obs (scheduler_graph en hash) (\<lambda>g. wf_graph g \<and> named_graph g)"
proof -
  have "io_meets (cache_ok en) (store_later en obs) (definition_get en hash)
      (\<lambda>v. \<forall>g. v = Some g \<longrightarrow> wf_graph g \<and> named_graph g) (\<lambda>e. DefinitionError e \<noteq> Panicked)"
    by (rule sched.meets_weaken [OF meets_definition_get [OF assms]]) simp_all
  then show ?thesis
    unfolding scheduler_graph_def
    by (intro contract_bind [where P = "\<lambda>v. \<forall>g. v = Some g \<longrightarrow> wf_graph g \<and> named_graph g"])
      (auto simp: keeps_contract_def intro!: sched.meets_map_error sched.meets_return sched.meets_fail split: option.split)
qed

lemma contract_graph_run:
  assumes "env_ok en obs"
  shows "keeps_contract en obs (graph_run en key)
     (\<lambda>v. \<forall>run bs. v = Some (run, bs) \<longrightarrow> dec_run (en_codecs en) bs = Inr run)"
  unfolding graph_run_def
proof (rule contract_bind [OF contract_queue [OF backend_reads(1) [OF env_ok_backend [OF assms]]]])
  fix v :: "'b option"
  show "keeps_contract en obs (case v of None \<Rightarrow> io_return None | Some bs \<Rightarrow>
      io_bind (io_map_error scheduler_error_of (io_of_sum (parse_record (dec_run (en_codecs en)) key bs)))
        (\<lambda>r. io_return (Some (r, bs))))
     (\<lambda>v. \<forall>run bs. v = Some (run, bs) \<longrightarrow> dec_run (en_codecs en) bs = Inr run)"
  proof (cases v)
    case None
    then show ?thesis by (simp add: contract_return)
  next
    case (Some bs)
    have "keeps_contract en obs (io_map_error scheduler_error_of (io_of_sum (parse_record (dec_run (en_codecs en)) key bs)))
        (\<lambda>r. dec_run (en_codecs en) bs = Inr r)"
      by (rule contract_of_sum) (auto simp: parse_record_def split: sum.splits)
    then show ?thesis by (simp add: Some) (rule contract_bind, assumption, simp add: contract_return)
  qed
qed

text \<open>The records read are an ordered map.\<close>

lemma contract_node_records:
  assumes "env_ok en obs"
  shows "keeps_contract en obs (read_node_records en g p) bt_wf"
  unfolding read_node_records_def read_node_record_def
  by (rule contract_fold)
    (auto intro!: contract_bind contract_return contract_read [THEN contract_True] reads_record env_ok_backend [OF assms]
      bt_insert_wf split: option.split)

subsection \<open>Submitting and settling\<close>

lemma store_step_star: "store_step en o1 o2 \<Longrightarrow> (store_step en)\<^sup>*\<^sup>* o1 o2"
  by (rule r_into_rtranclp)

lemma below_refl: "store_step en \<le> (store_step en)\<^sup>*\<^sup>*"
  by auto

lemma contract_submit:
  assumes "env_ok en obs" and "\<And>rid. effects rid = [] \<or> (\<exists>i r. effects rid = request_effects en i r)"
  shows "keeps_contract en obs (submit_node en n i upstreams effects) (\<lambda>x. True)"
proof -
  have "reads (store_step en) obs (wf_submit (en_backend en) pool (submit_spec en n i upstreams (effects rid)))" for pool rid
    by (rule submits_step [OF backend_writes(5) [OF env_ok_backend [OF assms(1)]] below_refl], rule store_step_star,
        rule step_submit) (use assms(2) in \<open>simp add: submit_spec_def\<close>)
  then show ?thesis
    unfolding submit_node_def Let_def
    by (auto intro!: contract_fail contract_bind contract_return contract_workflow)
qed

lemma contract_active: "env_ok en obs \<Longrightarrow> keeps_contract en obs (run_is_active en n rid) (\<lambda>b. True)"
  unfolding run_is_active_def
  by (auto intro!: contract_bind contract_return contract_workflow backend_reads env_ok_backend)

lemma contract_any_active: "env_ok en obs \<Longrightarrow> keeps_contract en obs (any_active en g p run records ns) (\<lambda>b. True)"
  by (induction ns)
    (auto intro!: contract_return contract_bind [OF contract_active] split: option.split)

lemma contract_commit_settled:
  assumes "env_ok en obs" and "dec_run (en_codecs en) bs = Inr run" and "run_state run = RunActive"
    and "run_definition settled = run_definition run" and "run_state settled \<noteq> RunActive"
  shows "keeps_contract en obs (commit_settled en name p bs settled) (\<lambda>b. True)"
  unfolding commit_settled_def
  by (intro contract_bind [OF contract_clock] contract_queue assms(1)
      writes_if_step [OF backend_writes(3) [OF env_ok_backend [OF assms(1)]] below_refl] store_step_star)
    (rule step_settle; use assms in simp)

lemma contract_settle:
  assumes "env_ok en obs" and "dec_run (en_codecs en) bs = Inr run" and "run_state run = RunActive"
  shows "keeps_contract en obs (settle en g p run bs records states) (\<lambda>b. True)"
proof -
  have "keeps_contract en obs (commit_settled en (gr_name g) p bs (settled_record run state records)) (\<lambda>b. True)"
    if "settled_state states = Some state" for state
    by (rule contract_commit_settled [OF assms])
      (use that in \<open>auto simp: settled_record_def settled_state_def split: if_splits\<close>)
  then show ?thesis
    unfolding settle_def
    by (auto intro!: contract_return contract_bind [OF contract_any_active [OF assms(1)]] split: option.split)
qed

lemma contract_candidate:
  assumes "env_ok en obs" and "bt_get states (node_name n) \<noteq> None"
  shows "keeps_contract en obs (submit_candidate en g p run records states n k) (\<lambda>k. True)"
  unfolding submit_candidate_def
  by (rule contract_bind [OF contract_panics [where Q = "\<lambda>a. True"]])
    (use assms in \<open>auto intro!: contract_return contract_bind [OF contract_submit]\<close>)

lemma contract_advance:
  assumes "env_ok en obs" and "dec_run (en_codecs en) bs = Inr run" and "run_state run = RunActive"
    and g: "wf_graph g" and "set candidates \<subseteq> set (gr_nodes g)"
  shows "keeps_contract en obs (advance en g p run bs candidates) (\<lambda>x. True)"
  unfolding advance_def
proof (rule contract_bind [OF contract_node_records [OF assms(1)]])
  fix records :: records
  let ?states = "node_states g (current_records run records)"
  have total: "?states \<noteq> None" using node_states_total [OF g] by blast
  show "keeps_contract en obs (io_bind (panics ?states) (\<lambda>states.
      io_bind (io_fold (submit_candidate en g p run records states) candidates 0) (\<lambda>submitted.
        io_bind (settle en g p run bs records states) (\<lambda>settled. io_return (submitted, settled))))) (\<lambda>x. True)"
  proof (rule contract_bind [OF contract_panics [where Q = "\<lambda>states. ?states = Some states", OF _ total]])
    fix states
    assume states: "?states = Some states"
    have "bt_get states (node_name n) \<noteq> None" if "n \<in> set candidates" for n
    proof -
      have "node_name n \<in> dom (bt_get states)"
        unfolding node_states_dom(1) [OF g states] graph_names_def using that assms(5) by auto
      then show ?thesis by (simp add: domIff)
    qed
    then have "keeps_contract en obs (io_fold (submit_candidate en g p run records states) candidates 0) (\<lambda>k. True)"
      by (intro contract_fold contract_candidate assms(1)) simp_all
    then show "keeps_contract en obs (io_bind (io_fold (submit_candidate en g p run records states) candidates 0) (\<lambda>submitted.
        io_bind (settle en g p run bs records states) (\<lambda>settled. io_return (submitted, settled)))) (\<lambda>x. True)"
      by (intro contract_bind [where P = "\<lambda>k. True"] contract_bind [OF contract_settle] contract_return assms TrueI)
  qed simp
qed

subsection \<open>Cancelling, starting and rerunning\<close>

lemma contract_cancel_active: "env_ok en obs \<Longrightarrow> keeps_contract en obs (cancel_active_runs en g p run) (\<lambda>n. True)"
proof -
  assume ok: "env_ok en obs"
  have "keeps_contract en obs (cancel_node en g p run records n k) (\<lambda>n. True)" for records n k
    unfolding cancel_node_def Let_def
    by (auto intro!: contract_return contract_bind contract_workflow backend_reads env_ok_backend [OF ok] split: option.split)
  then show ?thesis
    unfolding cancel_active_runs_def
    by (intro contract_bind [OF contract_node_records [OF ok]] contract_fold TrueI)
qed

lemma contract_forget: "env_ok en obs \<Longrightarrow> keeps_contract en obs (forget_groups en g p) (\<lambda>u. True)"
  unfolding forget_groups_def
  by (rule contract_fold) (auto intro!: contract_return contract_workflow backend_reads env_ok_backend)

lemma contract_cancel_run:
  assumes "env_ok en obs"
  shows "keeps_contract en obs (cancel_run en name p) (\<lambda>b. True)"
  unfolding cancel_run_def
  by (rule contract_bind [OF contract_graph_run [OF assms]])
    (auto intro!: contract_return contract_bind [OF contract_commit_settled [OF assms]]
      contract_bind [OF contract_scheduler_graph [OF assms]] contract_bind [OF contract_cancel_active [OF assms]]
      split: option.split)

lemma contract_start_run:
  assumes "env_ok en obs"
  shows "keeps_contract en obs (start_run en hash p) (\<lambda>out. True)"
proof -
  have put: "reads (store_step en) obs (kv_compare_put (en_backend en) (graph_run_key name p) None
      (enc_run (en_codecs en) (new_run_record hash t)))" for name t
    by (rule writes_if_step [OF backend_writes(2) [OF env_ok_backend [OF assms]] below_refl], rule store_step_star,
        rule step_start)
  show ?thesis
    unfolding start_run_def
    by (rule contract_bind [OF contract_scheduler_graph [OF assms]], rule contract_bind [OF contract_clock [OF assms]],
        rule contract_bind [OF contract_queue [OF put]])
      (auto intro!: contract_return contract_bind [where P = "\<lambda>k. True"] contract_fold contract_submit assms
        split: prod.split)
qed

lemma contract_start_adopted: "env_ok en obs \<Longrightarrow> keeps_contract en obs (start_adopted en r ps) (\<lambda>x. True)"
  unfolding start_adopted_def by (intro contract_fold contract_bind [OF contract_start_run] contract_return TrueI)

lemma contract_adopted: "env_ok en obs \<Longrightarrow> keeps_contract en obs (adopted en name) (\<lambda>x. True)"
  unfolding adopted_def
  by (rule contract_bind [OF contract_graph_record]) (auto intro!: contract_fail contract_return split: option.split)

lemma contract_start_runs: "env_ok en obs \<Longrightarrow> keeps_contract en obs (start_runs en name ps) (\<lambda>x. True)"
  unfolding start_runs_def by (intro contract_bind [OF contract_adopted] contract_start_adopted)

lemma contract_trigger: "env_ok en obs \<Longrightarrow> keeps_contract en obs (handle_trigger en name t) (\<lambda>x. True)"
  unfolding handle_trigger_def
  by (rule contract_bind [OF contract_adopted], assumption, rule contract_bind [OF contract_scheduler_graph], assumption)
    (auto intro!: contract_fail contract_bind [OF contract_start_adopted] contract_return split: option.split)

lemma rerun_active_fields:
  "rerun_active g n run r records = Some active \<Longrightarrow>
     run_state active = RunActive \<and> run_settled_at_ms active = None \<and> run_definition active = run_definition run"
  by (auto simp: rerun_active_def rerun_expected_def Let_def split: if_splits)

lemma contract_rerun:
  assumes ok: "env_ok en obs" and "\<And>rid. effects rid = [] \<or> (\<exists>i r. effects rid = request_effects en i r)"
  shows "keeps_contract en obs (rerun_with en name p node effects) (\<lambda>x. True)"
  unfolding rerun_with_def
proof (rule contract_bind [OF contract_graph_run [OF ok]])
  fix v
  assume v: "\<forall>run bs. v = Some (run, bs) \<longrightarrow> dec_run (en_codecs en) bs = Inr run"
  show "keeps_contract en obs (case v of None \<Rightarrow> io_fail (UnknownGraphRun name p) | Some (run, bs) \<Rightarrow>
      io_bind (scheduler_graph en (run_definition run)) (\<lambda>g.
        case graph_node g node of None \<Rightarrow> io_fail (UnknownGraphNode name node) | Some n \<Rightarrow>
          io_bind (read_node_records en g p) (\<lambda>records.
            case bt_get records (node_name n) of None \<Rightarrow> io_return RerunNoRecord | Some r \<Rightarrow>
              io_bind (panics (rerun_active g n run r records)) (\<lambda>active.
                let current = current_records active records
                in if \<not> is_ready n current then io_return RerunNotReady
                else io_bind (if active \<noteq> run
                    then queue_io (kv_compare_put (en_backend en) (graph_run_key name p) (Some bs)
                      (enc_run (en_codecs en) active)) else io_return True) (\<lambda>written.
                  if \<not> written then io_fail (Contended name p)
                  else io_bind (submit_node en n (identity g (rec_definition r) p n (rec_rerun r + 1))
                      (upstream_records n current) effects) (\<lambda>(rid, new).
                    io_return (if new then RerunSubmitted rid else RerunActive rid))))))) (\<lambda>x. True)"
  proof (cases v)
    case None
    then show ?thesis by (simp add: contract_fail)
  next
    case (Some rb)
    obtain run bs where rb: "rb = (run, bs)" by (cases rb)
    have dec: "dec_run (en_codecs en) bs = Inr run" using v Some rb by simp
    have put: "reads (store_step en) obs (kv_compare_put (en_backend en) (graph_run_key name p) (Some bs)
        (enc_run (en_codecs en) active))"
      if "run_state active = RunActive \<and> run_settled_at_ms active = None \<and> run_definition active = run_definition run" for active
      by (rule writes_if_step [OF backend_writes(2) [OF env_ok_backend [OF ok]] below_refl], rule store_step_star,
          rule step_reactivate) (use dec that in simp_all)
    have scope: "rerun_active g n run r records \<noteq> None" if "wf_graph g" "n \<in> set (gr_nodes g)" for g n r records
      using rerun_scope_reach [OF that] by (auto simp: rerun_active_def Let_def)
    have step: "keeps_contract en obs (io_bind (panics (rerun_active g n run r records)) (\<lambda>active.
                let current = current_records active records
                in if \<not> is_ready n current then io_return RerunNotReady
                else io_bind (if active \<noteq> run
                    then queue_io (kv_compare_put (en_backend en) (graph_run_key name p) (Some bs)
                      (enc_run (en_codecs en) active)) else io_return True) (\<lambda>written.
                  if \<not> written then io_fail (Contended name p)
                  else io_bind (submit_node en n (identity g (rec_definition r) p n (rec_rerun r + 1))
                      (upstream_records n current) effects) (\<lambda>(rid, new).
                    io_return (if new then RerunSubmitted rid else RerunActive rid))))) (\<lambda>x. True)"
      if "wf_graph g" "n \<in> set (gr_nodes g)" for g n r records
      by (rule contract_bind [OF contract_panics [where Q = "\<lambda>active. rerun_active g n run r records = Some active",
            OF _ scope [OF that]]])
        (auto simp: Let_def intro!: contract_return contract_fail contract_bind [where P = "\<lambda>k. True"]
          contract_queue put [OF rerun_active_fields] contract_submit assms split: prod.split)
    show ?thesis
      unfolding Some rb option.case prod.case
      by (rule contract_bind [OF contract_scheduler_graph [OF ok]])
        (auto intro!: contract_fail contract_return contract_bind [OF contract_node_records [OF ok]] step
          simp: graph_node_iff split: option.split)
  qed
qed

subsection \<open>Events and the reconciler\<close>

lemma downstream_nodes:
  assumes "wf_graph g" "n \<in> set (gr_nodes g)"
  obtains ds where "those (map (graph_node g) (nd_downstreams n)) = Some ds" "set ds \<subseteq> set (gr_nodes g)"
proof -
  have "graph_node g d \<noteq> None" if "d \<in> set (nd_downstreams n)" for d
    using wf_graph_downstream [OF assms] that graph_node_iff [OF assms(1)] by force
  then obtain ds where ds: "those (map (graph_node g) (nd_downstreams n)) = Some ds"
    using those_map_ex [of "graph_node g" "nd_downstreams n"] by auto
  have "set ds \<subseteq> set (gr_nodes g)"
  proof
    fix d
    assume "d \<in> set ds"
    then have "Some d \<in> set (map (graph_node g) (nd_downstreams n))" using ds by (simp add: those_eq_Some)
    then show "d \<in> set (gr_nodes g)" using graph_node_iff [OF assms(1)] by force
  qed
  then show thesis using ds that by blast
qed

lemma contract_event:
  assumes ok: "env_ok en obs"
  shows "keeps_contract en obs (handle_event en ev) (\<lambda>u. True)"
proof -
  have step: "keeps_contract en obs (io_bind (panics (those (map (graph_node g) (nd_downstreams n)))) (\<lambda>downstreams.
      io_bind (advance en g (ev_partition ev) run bs downstreams) (\<lambda>x. io_return ()))) (\<lambda>u. True)"
    if active: "dec_run (en_codecs en) bs = Inr run" "run_state run = RunActive" and g: "wf_graph g" and n: "n \<in> set (gr_nodes g)"
    for bs run g n
  proof -
    obtain ds where ds: "those (map (graph_node g) (nd_downstreams n)) = Some ds" "set ds \<subseteq> set (gr_nodes g)"
      using downstream_nodes [OF g n] by blast
    show ?thesis
      by (rule contract_bind [OF contract_panics [where Q = "\<lambda>xs. xs = ds"]])
        (auto simp: ds(1) intro!: contract_bind [OF contract_advance [OF ok active g ds(2)]] contract_return)
  qed
  show ?thesis
    unfolding handle_event_def
    by (rule contract_bind [OF contract_graph_run [OF ok]])
      (auto intro!: contract_return contract_bind [OF contract_scheduler_graph [OF ok]] step
        simp: graph_node_iff split: option.split)
qed

lemma contract_entry:
  assumes ok: "env_ok en obs" and "dec_run (en_codecs en) bs = Inr run"
  shows "keeps_contract en obs (reconcile_entry en (key, bs, run) report) (\<lambda>r. True)"
proof -
  have got: "keeps_contract en obs (io_try (definition_get en hash))
      (\<lambda>r. \<forall>g. r = Inr (Some g) \<longrightarrow> wf_graph g \<and> named_graph g)" for hash
    unfolding keeps_contract_def
    by (rule sched.meets_weaken [OF sched.meets_try [OF meets_definition_get [OF ok]]]) auto
  have "keeps_contract en obs (case run_state run of
      RunActive \<Rightarrow>
        io_bind (advance en g p run bs (gr_nodes g)) (\<lambda>(submitted, settled).
          io_return (report\<lparr>rep_active_runs := rep_active_runs report + 1,
            rep_submitted := rep_submitted report + submitted,
            rep_settled := rep_settled report + (if settled then 1 else 0)\<rparr>))
    | RunCancelled \<Rightarrow>
        io_bind (cancel_active_runs en g p run) (\<lambda>n.
          io_return (report\<lparr>rep_cancelled := rep_cancelled report + n\<rparr>))
    | RunComplete \<Rightarrow> io_return report
    | RunFailed \<Rightarrow> io_return report) (\<lambda>r. True)" if "wf_graph g" for g p
    by (cases "run_state run")
      (auto intro!: contract_return contract_bind [OF contract_advance [OF assms _ that subset_refl]]
        contract_bind [OF contract_cancel_active [OF ok]])
  then show ?thesis
    unfolding reconcile_entry_def Let_def prod.case
    by (auto intro!: contract_return contract_bind [OF got] split: option.split sum.split)
qed

lemma contract_reconcile:
  assumes ok: "env_ok en obs"
  shows "keeps_contract en obs (reconcile en) (\<lambda>r. True)"
proof -
  have scan: "keeps_contract en obs (queue_io (scan_records (en_backend en) (dec_run (en_codecs en)) graph_runs_prefix))
      (\<lambda>runs. \<forall>(key, bs, run) \<in> set runs. dec_run (en_codecs en) bs = Inr run)"
    by (rule contract_value [OF contract_queue [OF reads_scan [OF env_ok_backend [OF ok]]]])
      (auto simp: queue_io_def world_io_result scan_records_def io_bind_Inr parsed_entries_def
        parse_record_def List.map_filter_def split: sum.splits)
  show ?thesis
    unfolding reconcile_def
    by (rule contract_bind [OF scan], rule contract_fold) (auto intro: contract_entry [OF ok])
qed

end
