(* ===== verification/Requests.thy ===== *)
theory Requests
  imports Scheduler_Contract
begin

section \<open>Requests (\<open>request.rs\<close>)\<close>

text \<open>
  The worker of the requests queue. A request is applied once: its record is read first and
  written with the outcome, and the record of a rerun commits with the submit.
\<close>

definition requests_queue :: string where "requests_queue = ''swale-requests''"

text \<open>The inbox entry of a request: its id, the id of its job and its payload.\<close>

record 'b inbox_entry =
  ie_queue :: string
  ie_id :: string
  ie_payload :: 'b
  ie_job_id :: "string option"

definition request_send :: "'b codecs \<Rightarrow> request \<Rightarrow> request_id \<Rightarrow> 'b inbox_entry" where
  "request_send c req i =
     \<lparr>ie_queue = requests_queue, ie_id = request_id_text i, ie_payload = enc_payload c req,
      ie_job_id = Some (request_id_text i)\<rparr>"

text \<open>The text of a permanent error; a request with another error is not refused.\<close>

definition permanent_text :: "scheduler_error \<Rightarrow> string" where
  "permanent_text e =
     (case e of
       QueueError q \<Rightarrow> le_text q
     | WorkflowError w \<Rightarrow> we_text w
     | RecordError key message \<Rightarrow> ''record `'' @ key @ ''` is not a record: '' @ message
     | UnknownGraph g \<Rightarrow> ''graph `'' @ g @ ''` does not have an adopted definition''
     | NoPartition g \<Rightarrow> ''the trigger of graph `'' @ g @ ''` does not determine a partition''
     | UnknownGraphRun g p \<Rightarrow> ''graph `'' @ g @ ''` does not have a run for partition `'' @ as_str p @ ''`''
     | UnknownGraphNode g n \<Rightarrow> ''graph `'' @ g @ ''` does not have a node `'' @ n @ ''`''
     | _ \<Rightarrow> [])"

definition refusal :: "scheduler_error \<Rightarrow> scheduler_error + string" where
  "refusal e = (if is_permanent e then Inr (permanent_text e) else Inl e)"

definition request_record_of :: "request \<Rightarrow> nat \<Rightarrow> request_outcome \<Rightarrow> request_record" where
  "request_record_of req t outcome = \<lparr>rr_request = req, rr_handled_at_ms = t, rr_outcome = outcome\<rparr>"

definition commit_request ::
  "('w, 'b, 'x, 'r) env \<Rightarrow> request_id \<Rightarrow> request_record \<Rightarrow> (('w, 'x) process, scheduler_error, request_record) io" where
  "commit_request en i r =
     io_bind (queue_io (commit_effects (en_backend en) (request_effects en i r))) (\<lambda>u. io_return r)"

definition rerun_refusal :: "string \<Rightarrow> rerun_outcome \<Rightarrow> string" where
  "rerun_refusal node outcome =
     (case outcome of
       RerunActive rid \<Rightarrow> ''the rerun `'' @ rid @ ''` is active''
     | RerunNoRecord \<Rightarrow> ''node `'' @ node @ ''` does not have a record''
     | RerunNotReady \<Rightarrow> ''node `'' @ node @ ''` is not ready: its upstreams do not satisfy its trigger rule''
     | RerunSubmitted rid \<Rightarrow> [])"

definition apply_request ::
  "('w, 'b, 'x, 'r) env \<Rightarrow> request_id \<Rightarrow> request \<Rightarrow> nat \<Rightarrow> (('w, 'x) process, scheduler_error, request_record) io" where
  "apply_request en i req t =
     (let record = request_record_of req t;
          refuse = (\<lambda>reason. commit_request en i (record (RefusedOutcome reason)))
      in case req of
        StartRequest g ps \<Rightarrow>
          io_bind (io_try (start_runs en g ps)) (\<lambda>out.
            case out of
              Inr started \<Rightarrow> commit_request en i (record (StartedOutcome started))
            | Inl e \<Rightarrow> io_bind (io_of_sum (refusal e)) refuse)
      | RerunRequest g p node \<Rightarrow>
          io_bind (io_try (rerun_with en g p node (\<lambda>rid. request_effects en i (record (RerunOutcome rid))))) (\<lambda>out.
            case out of
              Inr (RerunSubmitted rid) \<Rightarrow> io_return (record (RerunOutcome rid))
            | Inr other \<Rightarrow> refuse (rerun_refusal node other)
            | Inl e \<Rightarrow> io_bind (io_of_sum (refusal e)) refuse)
      | CancelRequest g p \<Rightarrow>
          io_bind (cancel_run en g p) (\<lambda>cancelled.
            if cancelled then commit_request en i (record CancelledOutcome)
            else refuse (''graph `'' @ g @ ''` does not have an active run for partition `'' @ as_str p @ ''`'')))"

definition handle_request ::
  "('w, 'b, 'x, 'r) env \<Rightarrow> request_id \<Rightarrow> request \<Rightarrow> (('w, 'x) process, scheduler_error, request_record) io" where
  "handle_request en i req =
     io_bind (read_io (read_record (en_backend en) (dec_request (en_codecs en)) (request_key i))) (\<lambda>v.
       case v of
         Some r \<Rightarrow> io_return r
       | None \<Rightarrow> io_bind (clock_io en) (\<lambda>t. apply_request en i req t))"

definition process_request ::
  "('w, 'b, 'x, 'r) env \<Rightarrow> 'b job \<Rightarrow> (('w, 'x) process, worker_error, unit) io" where
  "process_request en job =
     (case request_id_new (job_id job) of
       Inl (InvalidRequestId t) \<Rightarrow>
         io_fail (PermanentText (''`'' @ t @ ''` is not a request id: `[A-Za-z0-9_-]` of one to 64 bytes''))
     | Inr i \<Rightarrow>
         io_bind (io_map_error (\<lambda>e. PermanentText (''the payload is not a request: '' @ e))
             (io_of_sum (dec_payload (en_codecs en) (job_payload job)))) (\<lambda>req.
           io_bind (io_map_error worker_error_of (handle_request en i req)) (\<lambda>r. io_return ())))"

subsection \<open>The contract\<close>

lemma contract_try:
  "keeps_contract en obs m Q \<Longrightarrow> keeps_contract en obs (io_try m) (\<lambda>r. r \<noteq> Inl Panicked)"
  unfolding keeps_contract_def
proof (rule sched.meetsI)
  fix s r s'
  assume m: "io_meets (cache_ok en) (store_later en obs) m Q (\<lambda>e. e \<noteq> Panicked)" "cache_ok en s"
    and "io_try m s = (Inr r, s')"
  then have "m s = (r, s')" by simp
  then show "cache_ok en s' \<and> store_later en obs s s' \<and> r \<noteq> Inl Panicked"
    using sched.meetsE [OF m] by (cases r) simp_all
qed simp

lemma contract_commit_request:
  assumes "env_ok en obs"
  shows "keeps_contract en obs (commit_request en i r) (\<lambda>r. True)"
  unfolding commit_request_def
  by (intro contract_bind [OF contract_queue] contract_return TrueI
      writes_step [OF backend_writes(4) [OF env_ok_backend [OF assms]] below_refl] store_step_star step_request)

lemma refusal_io:
  "io_of_sum (refusal e) = (if is_permanent e then io_return (permanent_text e) else io_fail e)"
  by (simp add: refusal_def io_of_sum_def io_return_def io_fail_def fun_eq_iff)

lemma contract_refuse:
  assumes "env_ok en obs" and "e \<noteq> Panicked"
  shows "keeps_contract en obs (io_bind (io_of_sum (refusal e)) (\<lambda>reason. commit_request en i (f reason))) (\<lambda>r. True)"
  unfolding refusal_io
  by (cases "is_permanent e") (simp_all add: contract_commit_request [OF assms(1)] contract_fail [OF assms(2)])

lemma contract_apply_request:
  assumes ok: "env_ok en obs"
  shows "keeps_contract en obs (apply_request en i req t) (\<lambda>r. True)"
proof (cases req)
  case (StartRequest g ps)
  show ?thesis
    unfolding apply_request_def Let_def StartRequest request.case
    by (rule contract_bind [OF contract_try [OF contract_start_runs [OF ok]]])
      (auto intro!: contract_commit_request contract_refuse ok split: sum.split)
next
  case (RerunRequest g p node)
  have rerun: "keeps_contract en obs (rerun_with en g p node (\<lambda>rid. request_effects en i (f rid))) (\<lambda>x. True)" for f
    by (rule contract_rerun [OF ok]) blast
  show ?thesis
    unfolding apply_request_def Let_def RerunRequest request.case
    by (rule contract_bind [OF contract_try [OF rerun]])
      (auto intro!: contract_return contract_commit_request contract_refuse ok split: sum.split rerun_outcome.split)
next
  case (CancelRequest g p)
  show ?thesis
    unfolding apply_request_def Let_def CancelRequest request.case
    by (rule contract_bind [OF contract_cancel_run [OF ok]]) (auto intro!: contract_commit_request ok)
qed

lemma contract_request:
  assumes ok: "env_ok en obs"
  shows "keeps_contract en obs (handle_request en i req) (\<lambda>r. True)"
  unfolding handle_request_def
  by (rule contract_bind [OF contract_read [OF reads_record [OF env_ok_backend [OF ok]]]])
    (auto intro!: contract_return contract_bind [OF contract_clock [OF ok]] contract_apply_request [OF ok] split: option.split)

end
