(* ===== verification/Retention.thy ===== *)
theory Retention
  imports Scheduler_Contract
begin

section \<open>Retention (\<open>retention.rs\<close>)\<close>

text \<open>
  One pass over the due entries of the expiry index. The index is \<open>taquba\<close>'s: it lists the due
  entries and commits the verdict on each before the next. The first failure ends the removals
  and is returned at the end. The atomic counters and the lock of the failure are the state of
  the loop.
\<close>

record expire_report =
  ex_runs :: nat
  ex_requests :: nat

definition stale :: "'b expired" where
  "stale = ExpiredDelete []"

definition expire_run ::
  "('w, 'b, 'x, 'r) env \<Rightarrow> nat \<Rightarrow> string \<Rightarrow> partition \<Rightarrow> (('w, 'x) process, scheduler_error, 'b expired) io" where
  "expire_run en t name p =
     io_bind (graph_run en (graph_run_key name p)) (\<lambda>v.
       case v of
         None \<Rightarrow> io_return stale
       | Some (run, bs) \<Rightarrow>
           if run_settled_at_ms run \<noteq> Some t then io_return stale
           else
             io_bind (io_try (definition_get en (run_definition run))) (\<lambda>got.
               case got of
                 Inl err \<Rightarrow> io_return ExpiredKeep
               | Inr None \<Rightarrow> io_return ExpiredKeep
               | Inr (Some g) \<Rightarrow>
                   io_bind (forget_groups en g p) (\<lambda>u.
                     io_return (ExpiredDeleteIf (graph_run_key name p) (Some bs)
                       (DeleteEffect (graph_run_key name p) #
                        map (\<lambda>n. DeleteEffect (node_record_key name p n)) (gr_nodes g))))))"

definition expire_request ::
  "('w, 'b, 'x, 'r) env \<Rightarrow> nat \<Rightarrow> request_id \<Rightarrow> (('w, 'x) process, scheduler_error, 'b expired) io" where
  "expire_request en t i =
     io_bind (queue_io (kv_get (en_backend en) (request_key i))) (\<lambda>v.
       case v of
         None \<Rightarrow> io_return stale
       | Some bs \<Rightarrow>
           io_bind (io_map_error scheduler_error_of
               (io_of_sum (parse_record (dec_request (en_codecs en)) (request_key i) bs))) (\<lambda>r.
             if rr_handled_at_ms r \<noteq> t then io_return stale
             else io_return (ExpiredDeleteIf (request_key i) (Some bs) [DeleteEffect (request_key i)])))"

text \<open>The verdict on an entry, with the counts and the failure of the pass.\<close>

definition count_expired :: "'b expired \<Rightarrow> nat \<Rightarrow> nat" where
  "count_expired x n = (case x of ExpiredDeleteIf k e es \<Rightarrow> n + 1 | _ \<Rightarrow> n)"

definition expire_verdict ::
  "('w, 'b, 'x, 'r) env \<Rightarrow> nat \<times> bytes \<Rightarrow> expire_report \<times> scheduler_error option \<Rightarrow>
   (('w, 'x) process, scheduler_error, 'b expired \<times> expire_report \<times> scheduler_error option) io" where
  "expire_verdict en entry st =
     (let (report, failure) = st
      in if failure \<noteq> None then io_return (ExpiredKeep, st)
         else case expiring_parse (snd entry) of
           None \<Rightarrow> io_return (ExpiredDelete [], st)
         | Some (ExpiringRun name p) \<Rightarrow>
             io_bind (io_try (expire_run en (fst entry) name p)) (\<lambda>r.
               io_return (case r of
                 Inr x \<Rightarrow> (x, report\<lparr>ex_runs := count_expired x (ex_runs report)\<rparr>, None)
               | Inl e \<Rightarrow> (ExpiredKeep, report, Some e)))
         | Some (ExpiringRequest i) \<Rightarrow>
             io_bind (io_try (expire_request en (fst entry) i)) (\<lambda>r.
               io_return (case r of
                 Inr x \<Rightarrow> (x, report\<lparr>ex_requests := count_expired x (ex_requests report)\<rparr>, None)
               | Inl e \<Rightarrow> (ExpiredKeep, report, Some e))))"

definition expire ::
  "('w, 'b, 'x, 'r) env \<Rightarrow> nat \<Rightarrow> (('w, 'x) process, scheduler_error, expire_report) io" where
  "expire en retention =
     io_bind (clock_io en) (\<lambda>now.
       io_bind (queue_io (expiry_due (en_backend en) now retention)) (\<lambda>entries.
         io_bind (io_fold (\<lambda>entry st.
             io_bind (expire_verdict en entry st) (\<lambda>(x, st').
               io_bind (queue_io (expiry_apply (en_backend en) entry x)) (\<lambda>u. io_return st')))
             entries (\<lparr>ex_runs = 0, ex_requests = 0\<rparr>, None)) (\<lambda>(report, failure).
           case failure of Some e \<Rightarrow> io_fail e | None \<Rightarrow> io_return report)))"

subsection \<open>A pass removes what is due and nothing else\<close>

text \<open>
  The pass by itself: the verdict on an entry is that of the store it is committed to. An entry is
  discarded only when no record is at its time, and a record is removed with its entry.
\<close>

definition verdict_ok :: "('w, 'b, 'x, 'r) env \<Rightarrow> nat \<times> bytes \<Rightarrow> 'b obs \<Rightarrow> 'b expired \<Rightarrow> bool" where
  "verdict_ok en entry o1 x \<longleftrightarrow>
     (case x of
       ExpiredKeep \<Rightarrow> True
     | ExpiredDelete es \<Rightarrow> es = [] \<and> \<not> entry_live en o1 entry
     | ExpiredDeleteIf k e es \<Rightarrow>
         (\<exists>g p bs run nodes. snd entry = expiring_suffix (ExpiringRun g p) \<and> k = graph_run_key g p \<and> e = Some bs \<and>
            dec_run (en_codecs en) bs = Inr run \<and> run_settled_at_ms run = Some (fst entry) \<and>
            es = map DeleteEffect (k # map (node_record_key g p) nodes)) \<or>
         (\<exists>i bs r. snd entry = expiring_suffix (ExpiringRequest i) \<and> k = request_key i \<and> e = Some bs \<and>
            dec_request (en_codecs en) bs = Inr r \<and> rr_handled_at_ms r = fst entry \<and> es = [DeleteEffect k]))"

lemma verdict_step:
  assumes "verdict_ok en entry o1 x" and "expired_cond x o1"
  shows "(store_step en)\<^sup>*\<^sup>* o1 (apply_expired entry x o1)"
proof (cases x)
  case ExpiredKeep
  then show ?thesis by (simp add: apply_expired_def)
next
  case (ExpiredDelete es)
  then show ?thesis
    using assms step_discard [of en o1 entry] by (auto simp: verdict_ok_def apply_expired_def)
next
  case (ExpiredDeleteIf k e es)
  with assms consider g p bs run nodes where "snd entry = expiring_suffix (ExpiringRun g p)"
      "ob_kv o1 (graph_run_key g p) = Some bs" "dec_run (en_codecs en) bs = Inr run" "run_settled_at_ms run = Some (fst entry)"
      "es = map DeleteEffect (graph_run_key g p # map (node_record_key g p) nodes)"
    | i where "snd entry = expiring_suffix (ExpiringRequest i)" "es = [DeleteEffect (request_key i)]"
    by (auto simp: verdict_ok_def expired_cond_def)
  then show ?thesis
  proof cases
    case 1
    have "\<forall>k \<in> set (map (node_record_key g p) nodes). \<exists>h q n a. k = record_key h q n a"
      by (auto simp: node_record_key_def)
    then have "store_step en o1 (apply_effects (map DeleteEffect (graph_run_key g p # map (node_record_key g p) nodes))
        (o1\<lparr>ob_expiry := ob_expiry o1 - {(fst entry, expiring_suffix (ExpiringRun g p))}\<rparr>))"
      by (rule step_expire_run [OF 1(2-4)])
    then show ?thesis
      using 1(1,5) by (cases entry) (simp add: ExpiredDeleteIf apply_expired_def del: list.map apply_effects_simps)
  next
    case 2
    then show ?thesis
      using step_expire_request [of en o1 i "fst entry"]
      by (cases entry) (simp add: ExpiredDeleteIf apply_expired_def del: apply_effects_simps)
  qed
qed

lemma quiet_alone: "io_keeps (quiet en alone obs) m \<Longrightarrow> m s = (r, s') \<Longrightarrow> obs (st_world s') = obs (st_world s)"
  by (auto simp: io_keeps_def quiet_def later_def)

lemma quiet_cache: "io_keeps (quiet en R obs) m \<Longrightarrow> m s = (r, s') \<Longrightarrow> cache_ok en s \<Longrightarrow> cache_ok en s'"
  by (auto simp: io_keeps_def quiet_def)

lemma quiet_graph_run: "backend_ok R (en_backend en) obs \<Longrightarrow> io_keeps (quiet en R obs) (graph_run en key)"
  unfolding graph_run_def queue_io_def
  by (auto intro!: quiet.keeps_intros quiet_world_io backend_reads split: option.split)

lemma quiet_clock: "backend_ok R (en_backend en) obs \<Longrightarrow> io_keeps (quiet en R obs) (clock_io en)"
  using backend_clock [of R "en_backend en" obs]
  by (auto simp: io_keeps_def quiet_def clock_io_def Let_def split: prod.splits) (metis snd_conv)

lemma quiet_forget: "backend_ok R (en_backend en) obs \<Longrightarrow> io_keeps (quiet en R obs) (forget_groups en g p)"
  unfolding forget_groups_def workflow_io_def
  by (auto intro!: quiet.keeps_intros quiet_world_io backend_reads)

lemma quiet_expire_run: "backend_ok R (en_backend en) obs \<Longrightarrow> io_keeps (quiet en R obs) (expire_run en t g p)"
  unfolding expire_run_def
  by (auto intro!: quiet.keeps_intros quiet_graph_run quiet_definition_get quiet_forget split: option.split sum.split)

lemma quiet_expire_request: "backend_ok R (en_backend en) obs \<Longrightarrow> io_keeps (quiet en R obs) (expire_request en t i)"
  unfolding expire_request_def queue_io_def
  by (auto intro!: quiet.keeps_intros quiet_world_io backend_reads split: option.split)

lemma quiet_verdict: "backend_ok R (en_backend en) obs \<Longrightarrow> io_keeps (quiet en R obs) (expire_verdict en entry st)"
  unfolding expire_verdict_def Let_def
  by (auto intro!: quiet.keeps_intros quiet_expire_run quiet_expire_request split: option.split expiring.split prod.split)

text \<open>A read of a run by itself returns what is stored.\<close>

lemma graph_run_alone:
  assumes "backend_ok alone (en_backend en) obs" and "graph_run en key s = (Inr v, s')"
  shows "obs (st_world s') = obs (st_world s) \<and>
     (case v of None \<Rightarrow> ob_kv (obs (st_world s)) key = None
      | Some (run, bs) \<Rightarrow> ob_kv (obs (st_world s)) key = Some bs \<and> dec_run (en_codecs en) bs = Inr run)"
  using assms(2) alone_value [OF backend_kv_get [OF assms(1)]] unfolding graph_run_Inr
  by (fastforce split: option.splits)

lemma run_not_live:
  assumes "expiring_parse suffix = Some (ExpiringRun g p)"
    and "\<forall>bs run. ob_kv o1 (graph_run_key g p) = Some bs \<longrightarrow> dec_run (en_codecs en) bs = Inr run \<longrightarrow>
      run_settled_at_ms run \<noteq> Some t"
  shows "\<not> entry_live en o1 (t, suffix)"
  using assms by (auto simp: entry_live_def)

lemma expire_run_verdict:
  fixes en :: "('w, 'b, 'x, 'r) env"
  assumes ok: "backend_ok alone (en_backend en) obs" and parse: "expiring_parse suffix = Some (ExpiringRun g p)"
    and run: "expire_run en t g p s = (Inr x, s')"
  shows "verdict_ok en (t, suffix) (obs (st_world s)) x"
proof -
  from run obtain v s1 where v: "graph_run en (graph_run_key g p) s = (Inr v, s1)"
    and rest: "(case v of None \<Rightarrow> io_return stale
       | Some (run, bs) \<Rightarrow>
           if run_settled_at_ms run \<noteq> Some t then io_return stale
           else
             io_bind (io_try (definition_get en (run_definition run))) (\<lambda>got.
               case got of
                 Inl err \<Rightarrow> io_return ExpiredKeep
               | Inr None \<Rightarrow> io_return ExpiredKeep
               | Inr (Some g') \<Rightarrow>
                   io_bind (forget_groups en g' p) (\<lambda>u.
                     io_return (ExpiredDeleteIf (graph_run_key g p) (Some bs)
                       (DeleteEffect (graph_run_key g p) #
                        map (\<lambda>n. DeleteEffect (node_record_key g p n)) (gr_nodes g')))))) s1 = (Inr x, s')"
    unfolding expire_run_def io_bind_Inr by blast
  note read = graph_run_alone [OF ok v]
  show ?thesis
  proof (cases v)
    case None
    then show ?thesis
      using rest read run_not_live [OF parse, of "obs (st_world s)" en t] by (simp add: stale_def verdict_ok_def)
  next
    case (Some rb)
    obtain run bs where rb: "rb = (run, bs)" by (cases rb)
    show ?thesis
    proof (cases "run_settled_at_ms run = Some t")
      case False
      then have "x = stale" using rest by (simp add: Some rb)
      then show ?thesis
        using False read run_not_live [OF parse, of "obs (st_world s)" en t] by (simp add: Some rb stale_def verdict_ok_def)
    next
      case True
      then obtain got :: "definition_error + 'x graph option" and s2 where
        got: "(case got of
                 Inl err \<Rightarrow> io_return ExpiredKeep
               | Inr None \<Rightarrow> io_return ExpiredKeep
               | Inr (Some g') \<Rightarrow>
                   io_bind (forget_groups en g' p) (\<lambda>u.
                     io_return (ExpiredDeleteIf (graph_run_key g p) (Some bs)
                       (DeleteEffect (graph_run_key g p) #
                        map (\<lambda>n. DeleteEffect (node_record_key g p n)) (gr_nodes g'))))) s2 = (Inr x, s')"
        using rest unfolding Some rb by (auto simp: io_bind_Inr simp del: io_try_result)
      consider "x = ExpiredKeep" | g' :: "'x graph" where "x = ExpiredDeleteIf (graph_run_key g p) (Some bs)
          (map DeleteEffect (graph_run_key g p # map (node_record_key g p) (gr_nodes g')))"
        using got by (auto simp: io_bind_Inr comp_def split: sum.splits option.splits)
      then show ?thesis
        using True read expiring_parse_Some [OF parse] by cases (auto simp: Some rb verdict_ok_def)
    qed
  qed
qed

lemma expire_request_verdict:
  assumes ok: "backend_ok alone (en_backend en) obs" and parse: "expiring_parse suffix = Some (ExpiringRequest i)"
    and run: "expire_request en t i s = (Inr x, s')"
  shows "verdict_ok en (t, suffix) (obs (st_world s)) x"
proof -
  from run obtain v w where get: "kv_get (en_backend en) (request_key i) (st_world s) = (Inr v, w)"
    and rest: "(case v of None \<Rightarrow> io_return stale | Some bs \<Rightarrow>
           io_bind (io_map_error scheduler_error_of
               (io_of_sum (parse_record (dec_request (en_codecs en)) (request_key i) bs))) (\<lambda>r.
             if rr_handled_at_ms r \<noteq> t then io_return stale
             else io_return (ExpiredDeleteIf (request_key i) (Some bs) [DeleteEffect (request_key i)])))
         (s\<lparr>st_world := w\<rparr>) = (Inr x, s')"
    unfolding expire_request_def io_bind_Inr queue_io_Inr by blast
  have x: "x = stale \<and> (v = None \<or> (\<exists>bs r. v = Some bs \<and> dec_request (en_codecs en) bs = Inr r \<and> rr_handled_at_ms r \<noteq> t)) \<or>
      (\<exists>bs r. v = Some bs \<and> dec_request (en_codecs en) bs = Inr r \<and> rr_handled_at_ms r = t \<and>
         x = ExpiredDeleteIf (request_key i) (Some bs) [DeleteEffect (request_key i)])"
    using rest by (cases v) (auto simp: io_bind_Inr split: if_splits dest: sym)
  have "ob_kv (obs (st_world s)) (request_key i) = v"
    using alone_value [OF backend_kv_get [OF ok] get] by blast
  then show ?thesis
    using x parse expiring_parse_Some [OF parse] by (auto simp: stale_def verdict_ok_def entry_live_def)
qed

lemma verdict_alone:
  assumes ok: "backend_ok alone (en_backend en) obs" and v: "expire_verdict en entry st s = (Inr (x, st'), s')"
  shows "verdict_ok en entry (obs (st_world s')) x"
proof -
  have same: "obs (st_world s') = obs (st_world s)" by (rule quiet_alone [OF quiet_verdict [OF ok] v])
  obtain report failure where st: "st = (report, failure)" by (cases st)
  obtain t suffix where entry: "entry = (t, suffix)" by (cases entry)
  show ?thesis
  proof (cases "failure = None \<and> expiring_parse suffix \<noteq> None")
    case False
    then have "x = ExpiredKeep \<or> x = ExpiredDelete [] \<and> expiring_parse suffix = None"
      using v by (cases failure; cases "expiring_parse suffix") (auto simp: expire_verdict_def st entry)
    then show ?thesis by (auto simp: verdict_ok_def entry_live_def entry)
  next
    case True
    then obtain e where e: "expiring_parse suffix = Some e" by blast
    show ?thesis
    proof (cases e)
      case (ExpiringRun g p)
      then have "x = ExpiredKeep \<or> (\<exists>s1. expire_run en t g p s = (Inr x, s1))"
        using v True e by (cases "expire_run en t g p s"; cases "fst (expire_run en t g p s)")
          (auto simp: expire_verdict_def st entry io_bind_Inr)
      then show ?thesis
        using expire_run_verdict [OF ok] e ExpiringRun by (auto simp: entry same verdict_ok_def)
    next
      case (ExpiringRequest i)
      then have "x = ExpiredKeep \<or> (\<exists>s1. expire_request en t i s = (Inr x, s1))"
        using v True e by (cases "expire_request en t i s"; cases "fst (expire_request en t i s)")
          (auto simp: expire_verdict_def st entry io_bind_Inr)
      then show ?thesis
        using expire_request_verdict [OF ok] e ExpiringRequest by (auto simp: entry same verdict_ok_def)
    qed
  qed
qed

definition pass_later :: "('w, 'b, 'x, 'r) env \<Rightarrow> ('w \<Rightarrow> 'b obs) \<Rightarrow> ('w, 'x) process \<Rightarrow> ('w, 'x) process \<Rightarrow> bool" where
  "pass_later en obs s s' \<longleftrightarrow> (store_step en)\<^sup>*\<^sup>* (obs (st_world s)) (obs (st_world s'))"

interpretation pass: io_preorder "pass_later en obs" for en obs
  by standard (auto simp: pass_later_def)

lemma quiet_pass: "io_keeps (quiet en alone obs) m \<Longrightarrow> io_keeps (pass_later en obs) m"
  by (auto simp: io_keeps_def quiet_def later_def pass_later_def)

lemma pass_entry:
  assumes ok: "backend_ok alone (en_backend en) obs"
  shows "io_keeps (pass_later en obs) (io_bind (expire_verdict en entry st) (\<lambda>(x, st').
     io_bind (queue_io (expiry_apply (en_backend en) entry x)) (\<lambda>u. io_return st')))"
proof (rule pass.keepsI)
  fix s r s'
  assume "io_bind (expire_verdict en entry st) (\<lambda>(x, st').
     io_bind (queue_io (expiry_apply (en_backend en) entry x)) (\<lambda>u. io_return st')) s = (r, s')"
  then show "pass_later en obs s s'"
  proof (cases rule: io_bind_cases)
    case (error e)
    then show ?thesis using pass.keepsD [OF quiet_pass [OF quiet_verdict [OF ok]]] by blast
  next
    case (ok a s1)
    obtain x st' where a: "a = (x, st')" by (cases a)
    have first: "pass_later en obs s s1"
      using pass.keepsD [OF quiet_pass [OF quiet_verdict [OF assms]]] ok(1) by blast
    obtain q w where q: "expiry_apply (en_backend en) entry x (st_world s1) = (q, w)" and s': "st_world s' = w"
      using ok(2) by (auto simp: a queue_io_def world_io_result io_map_error_result elim!: io_bind_cases)
    have v: "verdict_ok en entry (obs (st_world s1)) x" using verdict_alone [OF assms] ok(1) a by blast
    have "obs w = obs (st_world s1) \<or>
        expired_cond x (obs (st_world s1)) \<and> obs w = apply_expired entry x (obs (st_world s1))"
      using backend_expires [OF assms, of entry x] q unfolding expires_def by (auto 0 3)
    then have "pass_later en obs s1 s'"
      using verdict_step [OF v] s' by (auto simp: pass_later_def)
    then show ?thesis using first pass.R_trans by blast
  qed
qed

lemma expire_steps:
  assumes ok: "backend_ok alone (en_backend en) obs"
  shows "io_keeps (pass_later en obs) (expire en retention)"
  unfolding expire_def queue_io_def [of "expiry_due _ _ _"]
  by (rule pass.keeps_bind [OF quiet_pass [OF quiet_clock [OF ok]]],
      rule pass.keeps_bind [OF quiet_pass [OF quiet.keeps_map_error [OF quiet_world_io [OF backend_reads(9) [OF ok]]]]],
      rule pass.keeps_bind [OF pass.keeps_fold [OF pass_entry [OF ok]]])
    (auto intro!: pass.keeps_intros split: option.split)

end
