(* ===== verification/Utf8_Text.thy ===== *)
theory Utf8_Text
  imports Text_Util
begin

section \<open>Lossy UTF-8 text\<close>

text \<open>
  \<open>String::from_utf8_lossy\<close>, which puts the replacement character in place of every maximal part
  that is not UTF-8, and \<open>str::floor_char_boundary\<close>, with the lemmas that a cut at a character
  boundary keeps the text valid and that a boundary is at most three bytes before an index.
\<close>

definition utf8_second :: "nat \<Rightarrow> char \<Rightarrow> bool" where
  "utf8_second v b \<longleftrightarrow>
     (if v = 224 then 160 \<le> byte_val b \<and> byte_val b \<le> 191
      else if v = 237 then 128 \<le> byte_val b \<and> byte_val b \<le> 159
      else if v = 240 then 144 \<le> byte_val b \<and> byte_val b \<le> 191
      else if v = 244 then 128 \<le> byte_val b \<and> byte_val b \<le> 143
      else utf8_cont b)"

text \<open>Whether the text starts with a character, and the length of it or of the part that is replaced.\<close>

definition utf8_step :: "char \<Rightarrow> bytes \<Rightarrow> bool \<times> nat" where
  "utf8_step a s =
     (let v = byte_val a in
      if v < 128 then (True, 1)
      else if 194 \<le> v \<and> v \<le> 223 then
        (case s of b # t \<Rightarrow> if utf8_cont b then (True, 2) else (False, 1) | [] \<Rightarrow> (False, 1))
      else if 224 \<le> v \<and> v \<le> 239 then
        (case s of
          b # c # t \<Rightarrow> if \<not> utf8_second v b then (False, 1) else if utf8_cont c then (True, 3) else (False, 2)
        | [b] \<Rightarrow> (False, if utf8_second v b then 2 else 1)
        | [] \<Rightarrow> (False, 1))
      else if 240 \<le> v \<and> v \<le> 244 then
        (case s of
          b # c # d # t \<Rightarrow>
            if \<not> utf8_second v b then (False, 1) else if \<not> utf8_cont c then (False, 2)
            else if utf8_cont d then (True, 4) else (False, 3)
        | [b, c] \<Rightarrow> (False, if \<not> utf8_second v b then 1 else if utf8_cont c then 3 else 2)
        | [b] \<Rightarrow> (False, if utf8_second v b then 2 else 1)
        | [] \<Rightarrow> (False, 1))
      else (False, 1))"

definition replacement_character :: bytes where
  "replacement_character = [CHR 0xEF, CHR 0xBF, CHR 0xBD]"

fun utf8_lossy :: "bytes \<Rightarrow> string" where
  "utf8_lossy [] = []"
| "utf8_lossy (a # s) =
     (let (ok, n) = utf8_step a s
      in (if ok then a # take (n - 1) s else replacement_character) @ utf8_lossy (drop (n - 1) s))"

fun floor_char_boundary :: "string \<Rightarrow> nat \<Rightarrow> nat" where
  "floor_char_boundary t 0 = 0"
| "floor_char_boundary t (Suc i) =
     (if length t \<le> Suc i then length t
      else if utf8_cont (t ! Suc i) then floor_char_boundary t i
      else Suc i)"

subsection \<open>The text is valid\<close>

lemma utf8_class:
  fixes v :: nat
  obtains (one) "v < 128" | (two) "\<not> v < 128" "194 \<le> v \<and> v \<le> 223"
    | (three) "\<not> v < 128" "\<not> (194 \<le> v \<and> v \<le> 223)" "224 \<le> v \<and> v \<le> 239"
    | (four) "\<not> v < 128" "\<not> (194 \<le> v \<and> v \<le> 223)" "\<not> (224 \<le> v \<and> v \<le> 239)" "240 \<le> v \<and> v \<le> 244"
    | (none) "\<not> v < 128" "\<not> (194 \<le> v \<and> v \<le> 223)" "\<not> (224 \<le> v \<and> v \<le> 239)" "\<not> (240 \<le> v \<and> v \<le> 244)"
  by blast

lemma utf8_second_three:
  "224 \<le> v \<and> v \<le> 239 \<Longrightarrow> utf8_second v b \<longleftrightarrow>
     (if v = 224 then 160 \<le> byte_val b \<and> byte_val b \<le> 191
      else if v = 237 then 128 \<le> byte_val b \<and> byte_val b \<le> 159 else utf8_cont b)"
  unfolding utf8_second_def by (rule if_cong, simp, simp, rule if_cong, simp, simp, simp)

lemma utf8_second_four:
  "240 \<le> v \<and> v \<le> 244 \<Longrightarrow> utf8_second v b \<longleftrightarrow>
     (if v = 240 then 144 \<le> byte_val b \<and> byte_val b \<le> 191
      else if v = 244 then 128 \<le> byte_val b \<and> byte_val b \<le> 143 else utf8_cont b)"
  unfolding utf8_second_def by simp

text \<open>The shape of a valid text that starts with a byte of each class.\<close>

lemma utf8_valid_shape:
  shows "byte_val a < 128 \<Longrightarrow> utf8_valid (a # s) \<longleftrightarrow> utf8_valid s"
    and "194 \<le> byte_val a \<and> byte_val a \<le> 223 \<Longrightarrow>
      utf8_valid (a # s) \<longleftrightarrow> (\<exists>b t. s = b # t \<and> utf8_cont b \<and> utf8_valid t)"
    and "224 \<le> byte_val a \<and> byte_val a \<le> 239 \<Longrightarrow>
      utf8_valid (a # s) \<longleftrightarrow> (\<exists>b c t. s = b # c # t \<and> utf8_second (byte_val a) b \<and> utf8_cont c \<and> utf8_valid t)"
    and "240 \<le> byte_val a \<and> byte_val a \<le> 244 \<Longrightarrow>
      utf8_valid (a # s) \<longleftrightarrow>
        (\<exists>b c d t. s = b # c # d # t \<and> utf8_second (byte_val a) b \<and> utf8_cont c \<and> utf8_cont d \<and> utf8_valid t)"
proof -
  show "byte_val a < 128 \<Longrightarrow> utf8_valid (a # s) \<longleftrightarrow> utf8_valid s" by simp
  show "utf8_valid (a # s) \<longleftrightarrow> (\<exists>b t. s = b # t \<and> utf8_cont b \<and> utf8_valid t)"
    if "194 \<le> byte_val a \<and> byte_val a \<le> 223"
    using that by (cases s) simp_all
  show "utf8_valid (a # s) \<longleftrightarrow> (\<exists>b c t. s = b # c # t \<and> utf8_second (byte_val a) b \<and> utf8_cont c \<and> utf8_valid t)"
    if "224 \<le> byte_val a \<and> byte_val a \<le> 239"
    unfolding utf8_second_three [OF that] using that by (cases s; cases "tl s") simp_all
  show "utf8_valid (a # s) \<longleftrightarrow>
      (\<exists>b c d t. s = b # c # d # t \<and> utf8_second (byte_val a) b \<and> utf8_cont c \<and> utf8_cont d \<and> utf8_valid t)"
    if "240 \<le> byte_val a \<and> byte_val a \<le> 244"
    unfolding utf8_second_four [OF that] using that by (cases s; cases "tl s"; cases "tl (tl s)") simp_all
qed

text \<open>A character is a first byte and continuation bytes, at most three.\<close>

definition utf8_char :: "char \<Rightarrow> bytes \<Rightarrow> bool" where
  "utf8_char a u \<longleftrightarrow>
     \<not> utf8_cont a \<and> list_all (\<lambda>b. utf8_cont b) u \<and> length u \<le> 3 \<and> (\<forall>t. utf8_valid (a # u @ t) = utf8_valid t)"

lemma utf8_second_cont: "utf8_second v b \<Longrightarrow> utf8_cont b"
  by (simp add: utf8_second_def split: if_splits)

lemma utf8_step_char:
  "fst (utf8_step a s) \<Longrightarrow> snd (utf8_step a s) - 1 \<le> length s \<and> utf8_char a (take (snd (utf8_step a s) - 1) s)"
proof (cases "byte_val a" rule: utf8_class)
  case one
  then show ?thesis by (simp add: utf8_step_def utf8_char_def)
next
  case two
  then show "fst (utf8_step a s) \<Longrightarrow> ?thesis"
    by (cases s) (simp_all add: utf8_step_def utf8_char_def split: if_splits)
next
  case three
  then show "fst (utf8_step a s) \<Longrightarrow> ?thesis"
    by (cases s; cases "tl s")
      (auto simp: utf8_step_def utf8_char_def utf8_valid_shape(3) dest: utf8_second_cont simp del: utf8_valid.simps split: if_splits)
next
  case four
  then show "fst (utf8_step a s) \<Longrightarrow> ?thesis"
    by (cases s; cases "tl s"; cases "tl (tl s)")
      (auto simp: utf8_step_def utf8_char_def utf8_valid_shape(4) dest: utf8_second_cont simp del: utf8_valid.simps split: if_splits)
next
  case none
  then show "fst (utf8_step a s) \<Longrightarrow> ?thesis" by (simp add: utf8_step_def)
qed

lemma utf8_step_invalid: "\<not> fst (utf8_step a s) \<Longrightarrow> \<not> utf8_valid (a # s)"
proof (cases "byte_val a" rule: utf8_class)
  case one
  then show "\<not> fst (utf8_step a s) \<Longrightarrow> ?thesis" by (simp add: utf8_step_def)
next
  case two
  then show "\<not> fst (utf8_step a s) \<Longrightarrow> ?thesis"
    by (auto simp: utf8_step_def utf8_valid_shape(2) simp del: utf8_valid.simps)
next
  case three
  then show "\<not> fst (utf8_step a s) \<Longrightarrow> ?thesis"
    by (auto simp: utf8_step_def utf8_valid_shape(3) simp del: utf8_valid.simps)
next
  case four
  then show "\<not> fst (utf8_step a s) \<Longrightarrow> ?thesis"
    by (auto simp: utf8_step_def utf8_valid_shape(4) simp del: utf8_valid.simps)
next
  case none
  then show ?thesis by (simp only: utf8_valid.simps Let_def if_False simp_thms)
qed

lemma utf8_valid_replacement: "utf8_valid (replacement_character @ t) = utf8_valid t"
  by (simp add: replacement_character_def)

lemma utf8_lossy_valid: "utf8_valid (utf8_lossy s)"
proof (induction s rule: utf8_lossy.induct)
  case (2 a s)
  then show ?case
    using utf8_step_char [of a s] utf8_valid_replacement
    by (cases "utf8_step a s") (simp add: utf8_char_def del: utf8_valid.simps)
qed simp

lemma utf8_lossy_id: "utf8_valid s \<Longrightarrow> utf8_lossy s = s"
proof (induction s rule: utf8_lossy.induct)
  case (2 a s)
  obtain ok n where n: "utf8_step a s = (ok, n)" by (cases "utf8_step a s")
  then have ok: "ok" using utf8_step_invalid [of a s] 2(2) by auto
  then have "utf8_char a (take (n - 1) s)" using utf8_step_char [of a s] n by simp
  then have "utf8_valid (drop (n - 1) s)"
    using 2(2) by (simp add: utf8_char_def del: utf8_valid.simps) (metis append_take_drop_id)
  then show ?case using 2(1) [OF n [symmetric] refl] n ok by simp
qed simp

subsection \<open>Character boundaries\<close>

text \<open>A valid text is its characters.\<close>

lemma utf8_valid_char:
  assumes "utf8_valid (a # s)"
  obtains u t where "s = u @ t" and "utf8_char a u" and "utf8_valid t"
proof -
  let ?n = "snd (utf8_step a s) - 1"
  have c: "utf8_char a (take ?n s)" using utf8_step_char utf8_step_invalid assms by blast
  moreover have "utf8_valid (drop ?n s)"
    using c assms by (simp add: utf8_char_def del: utf8_valid.simps) (metis append_take_drop_id)
  ultimately show thesis using that [of "take ?n s" "drop ?n s"] by simp
qed

lemma floor_char_boundary_start:
  "i < length t \<Longrightarrow> list_all (\<lambda>b. utf8_cont b) (take i (tl t)) \<Longrightarrow> floor_char_boundary t i = 0"
proof (induction i)
  case (Suc i)
  have "utf8_cont (t ! Suc i)" "list_all (\<lambda>b. utf8_cont b) (take i (tl t))"
    using Suc.prems by (auto simp: list_all_length nth_tl)
  then show ?case using Suc.IH Suc.prems by simp
qed simp

lemma utf8_valid_first: "utf8_valid t \<Longrightarrow> t \<noteq> [] \<Longrightarrow> \<not> utf8_cont (t ! 0)"
  by (cases t) (auto elim!: utf8_valid_char simp: utf8_char_def simp del: utf8_valid.simps)

lemma floor_char_boundary_at: "i < length t \<Longrightarrow> \<not> utf8_cont (t ! i) \<Longrightarrow> floor_char_boundary t i = i"
  by (cases i) auto

lemma floor_char_boundary_end: "floor_char_boundary t (length t) = length t"
  by (cases t) simp_all

lemma floor_char_boundary_shift:
  "utf8_valid t \<Longrightarrow> k < length t \<Longrightarrow>
     floor_char_boundary (a # u @ t) (Suc (length u) + k) = Suc (length u) + floor_char_boundary t k"
proof (induction k)
  case 0
  have "(a # u @ t) ! Suc (length u) = t ! 0" by (simp add: nth_append)
  then show ?case
    using 0 utf8_valid_first [of t] floor_char_boundary_at [of "Suc (length u)" "a # u @ t"] by (cases t) simp_all
next
  case (Suc k)
  have "(a # u @ t) ! Suc (length u + Suc k) = t ! Suc k" by (simp add: nth_append)
  then show ?case using Suc by simp
qed

text \<open>A cut at a boundary keeps the text valid, and every index is at most three bytes after one.\<close>

lemma floor_char_boundary_valid:
  assumes "utf8_valid t" and "i \<le> length t"
  shows "utf8_valid (drop (floor_char_boundary t i) t) \<and> floor_char_boundary t i \<le> i \<and> i \<le> floor_char_boundary t i + 3"
  using assms
proof (induction "length t" arbitrary: t i rule: less_induct)
  case less
  show ?case
  proof (cases "i = length t \<or> i = 0")
    case True
    then show ?thesis using less.prems by (elim disjE) (simp_all add: floor_char_boundary_end)
  next
    case False
    then obtain a s where "t = a # s" by (cases t) (use less.prems in auto)
    then obtain u t' where t: "t = a # u @ t'" and u: "utf8_char a u" and t': "utf8_valid t'"
      using less.prems utf8_valid_char by blast
    show ?thesis
    proof (cases "i \<le> length u")
      case True
      then have "floor_char_boundary t i = 0"
        using u False less.prems by (intro floor_char_boundary_start) (auto simp: t utf8_char_def list_all_iff dest: in_set_takeD)
      then show ?thesis using True u less.prems by (simp add: utf8_char_def)
    next
      case False
      then obtain k where k: "i = Suc (length u) + k" by (metis Suc_leI add.commute le_Suc_ex not_le)
      then have "k < length t'" using less.prems \<open>\<not> (i = length t \<or> i = 0)\<close> by (simp add: t)
      then show ?thesis
        using less.hyps [OF _ t', of k] floor_char_boundary_shift [OF t', of k a u] by (simp add: t k)
    qed
  qed
qed

end
