(* ===== verification/Hook.thy ===== *)
theory Hook
  imports Scheduler Graph_Examples Utf8_Text
begin

section \<open>The terminal hook (\<open>hook.rs\<close>)\<close>

text \<open>
  What the hook stages with the termination of a task instance: the record of the node and the
  event of the scheduler. The JSON parser, the size of a stored record
  and the cap of a value are \<open>serde\<close>'s and \<open>taquba\<close>'s, the parameters of the record \<open>hook_env\<close>; so is
  whether a staging call is accepted.
\<close>

record run_outcome =
  oc_run_id :: string
  oc_status :: terminal_status
  oc_result :: "bytes option"
  oc_error :: "string option"
  oc_headers :: "string \<Rightarrow> string option"

record hook_env =
  hk_json :: "bytes \<Rightarrow> json option"
  hk_size :: "node_record \<Rightarrow> nat"
  hk_cap :: nat
  hk_put_ok :: "bytes \<Rightarrow> node_record \<Rightarrow> bool"
  hk_enqueue_ok :: "event \<Rightarrow> bool"

definition events_queue :: string where "events_queue = ''swale-events''"

definition output_value :: "hook_env \<Rightarrow> bytes \<Rightarrow> json" where
  "output_value hk bs = (case hk_json hk bs of Some v \<Rightarrow> v | None \<Rightarrow> JString (utf8_lossy bs))"

definition hook_output :: "hook_env \<Rightarrow> run_outcome \<Rightarrow> json option" where
  "hook_output hk outcome =
     (if oc_status outcome = TerminalSucceeded then map_option (output_value hk) (oc_result outcome) else None)"

definition hook_record :: "hook_env \<Rightarrow> nat \<Rightarrow> task_identity \<Rightarrow> run_outcome \<Rightarrow> node_record" where
  "hook_record hk now i outcome =
     (let r = \<lparr>rec_status = record_status_of (oc_status outcome), rec_run_id = oc_run_id outcome,
               rec_definition = ti_definition i, rec_rerun = ti_rerun i, rec_terminated_at_ms = now,
               rec_output = hook_output hk outcome, rec_output_omitted = False, rec_error = oc_error outcome\<rparr>
      in if rec_output r \<noteq> None \<and> hk_cap hk < hk_size hk r
         then r\<lparr>rec_output := None, rec_output_omitted := True\<rparr> else r)"

text \<open>An enqueued event with its dedup key.\<close>

record staged =
  stg_puts :: "(bytes \<times> node_record) list"
  stg_events :: "(string \<times> event \<times> string) list"

definition nothing_staged :: staged where
  "nothing_staged = \<lparr>stg_puts = [], stg_events = []\<rparr>"

definition stage_effects :: "hook_env \<Rightarrow> nat \<Rightarrow> run_outcome \<Rightarrow> staged" where
  "stage_effects hk now outcome =
     (if oc_headers outcome header_group \<noteq> None then nothing_staged
      else case from_headers (oc_headers outcome) of
        Inl e \<Rightarrow> nothing_staged
      | Inr i \<Rightarrow>
          let r = hook_record hk now i outcome;
              ev = \<lparr>ev_graph = ti_graph i, ev_partition = ti_partition i, ev_node = ti_node i,
                    ev_status = rec_status r\<rparr>
          in if \<not> hk_put_ok hk (identity_record_key i) r then nothing_staged
             else \<lparr>stg_puts = [(identity_record_key i, r)],
                   stg_events = (if hk_enqueue_ok hk ev
                     then [(events_queue, ev, ''evt:'' @ oc_run_id outcome)] else [])\<rparr>)"

subsection \<open>The record of a run that the scheduler submitted\<close>

lemma identity_key [simp]:
  "identity_record_key (identity g hash p n r) = node_record_key (gr_name g) p n"
  by (simp add: identity_record_key_def identity_def node_record_key_def)

lemma hook_record_fields [simp]:
  "rec_status (hook_record hk now i outcome) = record_status_of (oc_status outcome)"
  "rec_run_id (hook_record hk now i outcome) = oc_run_id outcome"
  "rec_definition (hook_record hk now i outcome) = ti_definition i"
  "rec_rerun (hook_record hk now i outcome) = ti_rerun i"
  "rec_error (hook_record hk now i outcome) = oc_error outcome"
  by (simp_all add: hook_record_def Let_def)

text \<open>The output of a record is the result of the run, unless the record with it exceeds the
  cap of a stored value: exactly then the output is omitted, and the record says so.\<close>

theorem hook_output_capped:
  "(rec_output (hook_record hk now i outcome) \<noteq> None \<longrightarrow>
      rec_output (hook_record hk now i outcome) = hook_output hk outcome \<and>
      hk_size hk (hook_record hk now i outcome) \<le> hk_cap hk) \<and>
   (rec_output_omitted (hook_record hk now i outcome) \<longleftrightarrow>
      hook_output hk outcome \<noteq> None \<and> rec_output (hook_record hk now i outcome) = None) \<and>
   (rec_output_omitted (hook_record hk now i outcome) \<longleftrightarrow>
      hook_output hk outcome \<noteq> None \<and> hk_cap hk < hk_size hk ((hook_record hk now i outcome)
        \<lparr>rec_output := hook_output hk outcome, rec_output_omitted := False\<rparr>))"
  by (auto simp: hook_record_def Let_def)

definition example_hook :: hook_env where
  "example_hook =
     \<lparr>hk_json = (\<lambda>bs. if bs = ''1'' then Some (JNumber (PosInt 1)) else None),
      hk_size = (\<lambda>r. case rec_output r of Some (JString t) \<Rightarrow> length t | _ \<Rightarrow> 1), hk_cap = 5,
      hk_put_ok = (\<lambda>k r. True), hk_enqueue_ok = (\<lambda>ev. True)\<rparr>"

definition example_outcome :: "task_identity \<Rightarrow> bytes \<Rightarrow> run_outcome" where
  "example_outcome i result =
     \<lparr>oc_run_id = identity_run_id i, oc_status = TerminalSucceeded, oc_result = Some result, oc_error = None,
      oc_headers = headers i\<rparr>"

definition example_identity :: task_identity where
  "example_identity = identity example_graph ''ab'' partition_none (gr_nodes example_graph ! 2) 3"

theorem hook_output_capped_witness:
  "rec_output (hook_record example_hook 7 example_identity (example_outcome example_identity ''1'')) = Some (JNumber (PosInt 1)) \<and>
   hk_size example_hook (hook_record example_hook 7 example_identity (example_outcome example_identity ''1'')) \<le> 5 \<and>
   rec_output_omitted (hook_record example_hook 7 example_identity (example_outcome example_identity ''too long''))"
proof -
  let ?r = "\<lambda>t. hook_record example_hook 7 example_identity (example_outcome example_identity t)"
  have lossy: "utf8_lossy ''too long'' = ''too long''" by (rule utf8_lossy_id) simp
  have out: "rec_output (?r ''1'') = Some (JNumber (PosInt 1))" and long: "rec_output (?r ''too long'') = None"
      "hook_output example_hook (example_outcome example_identity ''too long'') \<noteq> None"
    by (simp_all add: hook_record_def hook_output_def output_value_def example_hook_def example_outcome_def lossy
      del: utf8_lossy.simps)
  have "hk_size example_hook (?r ''1'') \<le> hk_cap example_hook"
    using hook_output_capped [of example_hook 7 example_identity "example_outcome example_identity ''1''"] out by simp
  then show ?thesis
    using out long hook_output_capped [of example_hook 7 example_identity "example_outcome example_identity ''too long''"]
    by (simp add: example_hook_def)
qed



end
