(* ===== verification/Scheduler_Correct.thy ===== *)
theory Scheduler_Correct
  imports Scheduler_Contract
begin

section \<open>What the scheduler's operations do, run by themselves\<close>

text \<open>
  The operations with no other worker in between (\<^term>\<open>alone\<close>), against the records in the store.
  \<open>stored_records\<close> are the records that a run of the graph has in a store, and \<open>ready_now\<close> says that a
  node has no current record there and its trigger rule holds.
\<close>

subsection \<open>The records in the store\<close>

definition stored_record :: "('w, 'b, 'x, 'r) env \<Rightarrow> 'b obs \<Rightarrow> 'x graph \<Rightarrow> partition \<Rightarrow> node \<Rightarrow> node_record option" where
  "stored_record en o1 g p n =
     (case ob_kv o1 (node_record_key (gr_name g) p n) of
       None \<Rightarrow> None
     | Some bs \<Rightarrow> (case dec_node (en_codecs en) bs of Inl e \<Rightarrow> None | Inr r \<Rightarrow> Some r))"

definition stored_records :: "('w, 'b, 'x, 'r) env \<Rightarrow> 'b obs \<Rightarrow> 'x graph \<Rightarrow> partition \<Rightarrow> records" where
  "stored_records en o1 g p =
     fold (\<lambda>n records. case stored_record en o1 g p n of
         None \<Rightarrow> records | Some r \<Rightarrow> bt_insert (node_name n) r records) (gr_nodes g) []"

definition stored_run :: "('w, 'b, 'x, 'r) env \<Rightarrow> 'b obs \<Rightarrow> string \<Rightarrow> partition \<Rightarrow> graph_run_record option" where
  "stored_run en o1 name p =
     (case ob_kv o1 (graph_run_key name p) of
       None \<Rightarrow> None
     | Some bs \<Rightarrow> (case dec_run (en_codecs en) bs of Inl e \<Rightarrow> None | Inr r \<Rightarrow> Some r))"

definition ready_now ::
  "('w, 'b, 'x, 'r) env \<Rightarrow> 'b obs \<Rightarrow> 'x graph \<Rightarrow> partition \<Rightarrow> graph_run_record \<Rightarrow> node \<Rightarrow> bool" where
  "ready_now en o1 g p run n \<longleftrightarrow>
     (let current = current_records run (stored_records en o1 g p)
      in bt_get current (node_name n) = None \<and> is_ready n current)"

lemma stored_records_wf: "bt_wf (stored_records en o1 g p)"
proof -
  have "bt_wf acc \<Longrightarrow> bt_wf (fold (\<lambda>n records. case stored_record en o1 g p n of
         None \<Rightarrow> records | Some r \<Rightarrow> bt_insert (node_name n) r records) ns acc)" for ns acc
    by (induction ns arbitrary: acc) (auto intro: bt_insert_wf split: option.splits)
  then show ?thesis by (simp add: stored_records_def)
qed

text \<open>A process by itself: a world of the laws without interference.\<close>

definition by_itself :: "('w, 'b, 'x, 'r) env \<Rightarrow> ('w \<Rightarrow> 'b obs) \<Rightarrow> bool" where
  "by_itself en obs \<longleftrightarrow> backend_ok alone (en_backend en) obs \<and> codecs_ok (en_codecs en)"

lemma by_itself_backend: "by_itself en obs \<Longrightarrow> backend_ok alone (en_backend en) obs"
  by (simp add: by_itself_def)

lemma quiet_same: "io_keeps (quiet en alone obs) m \<Longrightarrow> m s = (r, s') \<Longrightarrow> obs (st_world s') = obs (st_world s)"
  by (auto simp: io_keeps_def quiet_def later_def)

lemma quiet_reads_queue: "reads R obs m \<Longrightarrow> io_keeps (quiet en R obs) (queue_io m)"
  unfolding queue_io_def by (intro quiet.keeps_map_error quiet_world_io)

lemma quiet_reads_workflow: "reads R obs m \<Longrightarrow> io_keeps (quiet en R obs) (workflow_io m)"
  unfolding workflow_io_def by (intro quiet.keeps_map_error quiet_world_io)

lemma quiet_reads_record: "reads R obs m \<Longrightarrow> io_keeps (quiet en R obs) (read_io m)"
  unfolding read_io_def by (intro quiet.keeps_map_error quiet_world_io)

lemma quiet_records: "backend_ok R (en_backend en) obs \<Longrightarrow> io_keeps (quiet en R obs) (read_node_records en g p)"
  unfolding read_node_records_def read_node_record_def
  by (intro quiet.keeps_intros quiet_reads_record reads_record)

lemma quiet_run: "backend_ok R (en_backend en) obs \<Longrightarrow> io_keeps (quiet en R obs) (graph_run en key)"
  unfolding graph_run_def
  by (auto intro!: quiet.keeps_intros quiet_reads_queue backend_reads split: option.split)

lemma quiet_graph: "backend_ok R (en_backend en) obs \<Longrightarrow> io_keeps (quiet en R obs) (scheduler_graph en hash)"
  unfolding scheduler_graph_def
  by (auto intro!: quiet.keeps_intros quiet_definition_get split: option.split)

lemma quiet_clock_io: "backend_ok R (en_backend en) obs \<Longrightarrow> io_keeps (quiet en R obs) (clock_io en)"
  by (auto simp: io_keeps_def quiet_def clock_io_result backend_clock)

lemma quiet_panics: "io_keeps (quiet en R obs) (panics v)"
  unfolding panics_def by (rule quiet.keeps_of_sum)

lemma quiet_any_active:
  "backend_ok R (en_backend en) obs \<Longrightarrow> io_keeps (quiet en R obs) (any_active en g p run records ns)"
  by (induction ns) (auto simp: run_is_active_def intro!: quiet.keeps_intros quiet_reads_workflow backend_reads split: option.split)

lemma quiet_cancel_active:
  "backend_ok R (en_backend en) obs \<Longrightarrow> io_keeps (quiet en R obs) (cancel_active_runs en g p run)"
  unfolding cancel_active_runs_def cancel_node_def Let_def
  by (auto intro!: quiet.keeps_intros quiet_records quiet_reads_workflow backend_reads split: option.split)

lemma node_record_alone:
  assumes ok: "by_itself en obs" and "read_node_record en g p n s = (Inr v, s')"
  shows "v = stored_record en (obs (st_world s)) g p n"
proof -
  obtain b w where get: "kv_get (en_backend en) (node_record_key (gr_name g) p n) (st_world s) = (Inr b, w)"
    and b: "case b of None \<Rightarrow> v = None | Some bs \<Rightarrow> \<exists>r. dec_node (en_codecs en) bs = Inr r \<and> v = Some r"
    using assms(2) by (fastforce simp: read_node_record_def read_record_def io_results split: option.splits)
  have "b = ob_kv (obs (st_world s)) (node_record_key (gr_name g) p n)"
    using alone_value [OF backend_kv_get [OF by_itself_backend [OF ok]] get] by simp
  then show ?thesis using b by (auto simp: stored_record_def split: option.splits)
qed

lemma node_records_alone:
  assumes ok: "by_itself en obs" and read: "read_node_records en g p s = (Inr records, s')"
  shows "records = stored_records en (obs (st_world s)) g p" and "obs (st_world s') = obs (st_world s)"
proof -
  let ?step = "\<lambda>n records. io_bind (read_node_record en g p n) (\<lambda>v.
         io_return (case v of None \<Rightarrow> records | Some r \<Rightarrow> bt_insert (node_name n) r records))"
  let ?o = "obs (st_world s)"
  have same: "obs (st_world s2) = obs (st_world s1)" if "read_node_record en g p n s1 = (v, s2)" for n v s1 s2
  proof -
    have "io_keeps (quiet en alone obs) (read_node_record en g p n)"
      unfolding read_node_record_def by (intro quiet_reads_record reads_record by_itself_backend [OF ok])
    then show ?thesis using that by (rule quiet_same)
  qed
  have "obs (st_world s1) = ?o \<Longrightarrow> io_fold ?step ns acc s1 = (Inr records, s') \<Longrightarrow>
      records = fold (\<lambda>n records. case stored_record en ?o g p n of
         None \<Rightarrow> records | Some r \<Rightarrow> bt_insert (node_name n) r records) ns acc" for ns acc s1
  proof (induction ns arbitrary: acc s1)
    case (Cons n ns)
    then obtain v s2 where v: "read_node_record en g p n s1 = (Inr v, s2)"
      and rest: "io_fold ?step ns (case v of None \<Rightarrow> acc | Some r \<Rightarrow> bt_insert (node_name n) r acc) s2 = (Inr records, s')"
      by (auto simp: io_bind_Inr)
    then show ?case
      using Cons.IH [OF _ rest] same [OF v] Cons.prems(1) node_record_alone [OF ok v] by simp
  qed simp
  then show "records = stored_records en ?o g p"
    using read by (simp add: read_node_records_def stored_records_def)
  show "obs (st_world s') = ?o" by (rule quiet_same [OF quiet_records [OF by_itself_backend [OF ok]] read])
qed

lemma graph_run_stored:
  assumes ok: "by_itself en obs" and read: "graph_run en (graph_run_key name p) s = (Inr v, s')"
  shows "obs (st_world s') = obs (st_world s) \<and>
     (case v of None \<Rightarrow> stored_run en (obs (st_world s)) name p = None
      | Some (run, bs) \<Rightarrow> stored_run en (obs (st_world s)) name p = Some run \<and>
          ob_kv (obs (st_world s)) (graph_run_key name p) = Some bs \<and> dec_run (en_codecs en) bs = Inr run)"
  using read alone_value [OF backend_kv_get [OF by_itself_backend [OF ok]]] unfolding graph_run_Inr
  by (fastforce simp: stored_run_def split: option.splits)

subsection \<open>Submitting\<close>

text \<open>A program that only submits, with every submit of a set.\<close>

definition submits_only ::
  "('w \<Rightarrow> 'b obs) \<Rightarrow> (string \<times> 'b run_spec) set \<Rightarrow> ('w, 'x) process \<Rightarrow> ('w, 'x) process \<Rightarrow> bool" where
  "submits_only obs A s s' \<longleftrightarrow>
     (\<exists>specs. set specs \<subseteq> A \<and>
        obs (st_world s') = (obs (st_world s))\<lparr>ob_submits := ob_submits (obs (st_world s)) @ specs\<rparr>)"

interpretation submits_only: io_preorder "submits_only obs A" for obs A
proof
  show "submits_only obs A s s" for s :: "('a, 'c) process"
    by (auto simp: submits_only_def intro: exI [of _ "[]"])
  show "submits_only obs A s s''" if ss: "submits_only obs A s s'" "submits_only obs A s' s''" for s s' s'' :: "('a, 'c) process"
  proof -
    obtain xs ys where "set xs \<subseteq> A" "set ys \<subseteq> A"
      "obs (st_world s') = (obs (st_world s))\<lparr>ob_submits := ob_submits (obs (st_world s)) @ xs\<rparr>"
      "obs (st_world s'') = (obs (st_world s'))\<lparr>ob_submits := ob_submits (obs (st_world s')) @ ys\<rparr>"
      using ss by (fastforce simp: submits_only_def)
    then show ?thesis unfolding submits_only_def by (intro exI [of _ "xs @ ys"]) simp
  qed
qed

lemma quiet_submits_only: "io_keeps (quiet en alone obs) m \<Longrightarrow> io_keeps (submits_only obs A) m"
  by (auto simp: io_keeps_def quiet_def later_def submits_only_def intro!: exI [of _ "[]"])

lemma submit_node_alone:
  assumes ok: "by_itself en obs" and m: "submit_node en n i ups effects s = (r, s')"
  defines "o1 \<equiv> obs (st_world s)" and "spec \<equiv> submit_spec en n i ups (effects (identity_run_id i))"
  shows "obs (st_world s') = o1 \<or> obs (st_world s') = apply_submit (node_pool n) spec o1"
    and "r = Inr (rid, new) \<Longrightarrow> rid = identity_run_id i \<and>
      (if new then obs (st_world s') = apply_submit (node_pool n) spec o1
       else run_submitted rid o1 \<and> obs (st_world s') = o1)"
proof -
  have law: "submits alone obs (run_submitted (rs_run_id spec)) (apply_submit (node_pool n) spec)
      (wf_submit (en_backend en) (node_pool n) spec)"
    by (rule backend_writes(5) [OF by_itself_backend [OF ok]])
  show "obs (st_world s') = o1 \<or> obs (st_world s') = apply_submit (node_pool n) spec o1"
  proof (cases "pool_exists (en_backend en) (node_pool n)")
    case False
    then show ?thesis using m by (simp add: submit_node_def o1_def)
  next
    case True
    then obtain q w where "wf_submit (en_backend en) (node_pool n) spec (st_world s) = (q, w)" "st_world s' = w"
      using m by (auto simp: submit_node_def Let_def workflow_io_def world_io_result io_map_error_result spec_def elim!: io_bind_cases)
    then show ?thesis
      using law unfolding submits_def o1_def by (cases q) (fastforce split: bool.splits)+
  qed
  assume "r = Inr (rid, new)"
  then obtain w where w: "wf_submit (en_backend en) (node_pool n) spec (st_world s) = (Inr new, w)" "st_world s' = w"
      "rid = identity_run_id i"
    using m by (auto simp: submit_node_def Let_def workflow_io_Inr io_bind_Inr spec_def split: if_splits)
  then show "rid = identity_run_id i \<and>
      (if new then obs (st_world s') = apply_submit (node_pool n) spec o1
       else run_submitted rid o1 \<and> obs (st_world s') = o1)"
    using alone_submits [OF law w(1)] by (auto simp: o1_def spec_def submit_spec_def)
qed

end
