(* ===== verification/Scheduler_Advance.thy ===== *)
theory Scheduler_Advance
  imports Scheduler_Correct
begin

section \<open>Advancing a graph run, by itself\<close>

text \<open>
  One pass over the candidates of a graph run submits the ready ones and nothing else, and settles
  the run when no node of it is ready or active.
\<close>

subsection \<open>Submitting the candidates\<close>

text \<open>The run spec of a node at its next rerun, from the records in the store.\<close>

definition ready_spec ::
  "('w, 'b, 'x, 'r) env \<Rightarrow> 'b obs \<Rightarrow> 'x graph \<Rightarrow> partition \<Rightarrow> graph_run_record \<Rightarrow> node \<Rightarrow> 'b run_spec" where
  "ready_spec en o1 g p run n =
     (let records = stored_records en o1 g p
      in submit_spec en n (identity g (run_definition run) p n (next_rerun records (node_name n)))
           (upstream_records n (current_records run records)) [])"

lemma submit_spec_effects [simp]: "rs_effects (submit_spec en n i ups es) = es" "rs_run_id (submit_spec en n i ups es) = identity_run_id i"
  by (simp_all add: submit_spec_def)

lemma run_submitted_append [simp]:
  "run_submitted i (o1\<lparr>ob_submits := xs @ ys\<rparr>) \<longleftrightarrow> run_submitted i (o1\<lparr>ob_submits := xs\<rparr>) \<or> (\<exists>(pool, spec) \<in> set ys. rs_run_id spec = i)"
  by (auto simp: run_submitted_def)

lemma run_submitted_same [simp]: "run_submitted i (o1\<lparr>ob_submits := ob_submits o1\<rparr>) \<longleftrightarrow> run_submitted i o1"
  by simp

lemma candidate_alone:
  fixes n :: node
  assumes ok: "by_itself en obs" and state: "bt_get states (node_name n) = Some st"
    and m: "submit_candidate en g p run records states n k s = (r, s')"
  defines "spec \<equiv> submit_spec en n (identity g (run_definition run) p n (next_rerun records (node_name n)))
      (upstream_records n (current_records run records)) []"
  shows "\<exists>specs. set specs \<subseteq> {(node_pool n, spec)} \<and> (st \<noteq> NodeReady \<longrightarrow> specs = []) \<and>
     obs (st_world s') = (obs (st_world s))\<lparr>ob_submits := ob_submits (obs (st_world s)) @ specs\<rparr> \<and>
     (\<forall>j. r = Inr j \<longrightarrow> j = k + length specs \<and> (st = NodeReady \<longrightarrow> run_submitted (rs_run_id spec) (obs (st_world s'))))"
proof (cases "st = NodeReady")
  case False
  then have "s' = s" "r = Inr k"
    using m state by (auto simp: submit_candidate_def panics_def io_bind_def io_of_sum_def io_return_def)
  then show ?thesis using False by (intro exI [of _ "[]"]) simp
next
  case True
  let ?o = "obs (st_world s)" and ?submit = "submit_node en n (identity g (run_definition run) p n (next_rerun records (node_name n)))
      (upstream_records n (current_records run records)) (\<lambda>rid. [])"
  have m': "io_bind ?submit (\<lambda>(rid, new). io_return (if new then k + 1 else k)) s = (r, s')"
    using m state True by (simp add: submit_candidate_def panics_def io_bind_def io_of_sum_def)
  have one: "apply_submit (node_pool n) spec ?o = ?o\<lparr>ob_submits := ob_submits ?o @ [(node_pool n, spec)]\<rparr>"
    by (simp add: apply_submit_def spec_def)
  from m' show ?thesis
  proof (cases rule: io_bind_cases)
    case (error e)
    then consider "obs (st_world s') = ?o" | "obs (st_world s') = apply_submit (node_pool n) spec ?o"
      using submit_node_alone(1) [OF ok error(1)] unfolding spec_def by blast
    then show ?thesis
    proof cases
      case 1
      then show ?thesis using error(2) by (intro exI [of _ "[]"]) simp
    next
      case 2
      then show ?thesis using error(2) True one by (intro exI [of _ "[(node_pool n, spec)]"]) simp
    qed
  next
    case (ok a s1)
    obtain rid new where a: "a = (rid, new)" by (cases a)
    have s': "s' = s1" and r: "r = Inr (if new then k + 1 else k)" using ok(2) by (auto simp: a)
    note sub = submit_node_alone(2) [OF assms(1) ok(1), unfolded a, OF refl, folded spec_def]
    have rid: "rid = rs_run_id spec" using sub by (simp add: spec_def)
    show ?thesis
    proof (cases new)
      case False
      then have q: "run_submitted rid ?o" "obs (st_world s1) = ?o" using sub by auto
      then show ?thesis using q(1) [unfolded rid] q(2) False r by (intro exI [of _ "[]"]) (simp add: s' del: submit_spec_effects)
    next
      case new: True
      then have "obs (st_world s') = ?o\<lparr>ob_submits := ob_submits ?o @ [(node_pool n, spec)]\<rparr>" using sub one s' by simp
      then show ?thesis using r new True by (intro exI [of _ "[(node_pool n, spec)]"]) simp
    qed
  qed
qed

lemma run_submitted_mono:
  assumes "obs (st_world s') = (obs (st_world s))\<lparr>ob_submits := ob_submits (obs (st_world s)) @ specs\<rparr>"
    and "run_submitted i (obs (st_world s))"
  shows "run_submitted i (obs (st_world s'))"
  using assms by simp

lemma candidates_alone:
  fixes ns :: "node list"
  assumes ok: "by_itself en obs" and states: "\<forall>n \<in> set ns. bt_get states (node_name n) = Some (st n)"
    and m: "io_fold (submit_candidate en g p run records states) ns k s = (r, s')"
  defines "spec \<equiv> \<lambda>n. submit_spec en n (identity g (run_definition run) p n (next_rerun records (node_name n)))
      (upstream_records n (current_records run records)) []"
  shows "\<exists>specs. (\<forall>x \<in> set specs. \<exists>n \<in> set ns. st n = NodeReady \<and> x = (node_pool n, spec n)) \<and>
     obs (st_world s') = (obs (st_world s))\<lparr>ob_submits := ob_submits (obs (st_world s)) @ specs\<rparr> \<and>
     (\<forall>j. r = Inr j \<longrightarrow> j = k + length specs \<and>
        (\<forall>n \<in> set ns. st n = NodeReady \<longrightarrow> run_submitted (rs_run_id (spec n)) (obs (st_world s'))))"
  using states m
proof (induction ns arbitrary: k s)
  case Nil
  then show ?case by (intro exI [of _ "[]"]) auto
next
  case (Cons n ns)
  have st: "bt_get states (node_name n) = Some (st n)" using Cons.prems(1) by simp
  from Cons.prems(2) have "io_bind (submit_candidate en g p run records states n k)
      (\<lambda>k'. io_fold (submit_candidate en g p run records states) ns k') s = (r, s')" by simp
  then show ?case
  proof (cases rule: io_bind_cases)
    case (error e)
    from candidate_alone [OF ok st error(1)] obtain xs where "set xs \<subseteq> {(node_pool n, spec n)}" "st n \<noteq> NodeReady \<longrightarrow> xs = []"
      "obs (st_world s') = (obs (st_world s))\<lparr>ob_submits := ob_submits (obs (st_world s)) @ xs\<rparr>"
      unfolding spec_def by blast
    then show ?thesis using error(2) by (intro exI [of _ xs]) (cases "st n = NodeReady"; auto)
  next
    case (ok k' s1)
    from candidate_alone [OF assms(1) st ok(1)] obtain xs where xs: "set xs \<subseteq> {(node_pool n, spec n)}" "st n \<noteq> NodeReady \<longrightarrow> xs = []"
      "obs (st_world s1) = (obs (st_world s))\<lparr>ob_submits := ob_submits (obs (st_world s)) @ xs\<rparr>"
      "k' = k + length xs" "st n = NodeReady \<longrightarrow> run_submitted (rs_run_id (spec n)) (obs (st_world s1))"
      unfolding spec_def by blast
    have "\<forall>n \<in> set ns. bt_get states (node_name n) = Some (st n)" using Cons.prems(1) by simp
    from Cons.IH [OF this ok(2)] obtain ys where
      ys: "\<forall>x \<in> set ys. \<exists>n \<in> set ns. st n = NodeReady \<and> x = (node_pool n, spec n)"
      "obs (st_world s') = (obs (st_world s1))\<lparr>ob_submits := ob_submits (obs (st_world s1)) @ ys\<rparr>"
      "\<forall>j. r = Inr j \<longrightarrow> j = k' + length ys \<and>
        (\<forall>n \<in> set ns. st n = NodeReady \<longrightarrow> run_submitted (rs_run_id (spec n)) (obs (st_world s')))" by blast
    have first: "\<forall>x \<in> set xs. st n = NodeReady \<and> x = (node_pool n, spec n)" using xs(1,2) by (cases "st n = NodeReady") auto
    have sub: "st n = NodeReady \<longrightarrow> run_submitted (rs_run_id (spec n)) (obs (st_world s'))"
      using run_submitted_mono [OF ys(2)] xs(5) by blast
    show ?thesis
    proof (intro exI [of _ "xs @ ys"] conjI)
      show "\<forall>x \<in> set (xs @ ys). \<exists>m \<in> set (n # ns). st m = NodeReady \<and> x = (node_pool m, spec m)"
        using first ys(1) by auto
      show "obs (st_world s') = (obs (st_world s))\<lparr>ob_submits := ob_submits (obs (st_world s)) @ xs @ ys\<rparr>"
        using xs(3) ys(2) by simp
      show "\<forall>j. r = Inr j \<longrightarrow> j = k + length (xs @ ys) \<and>
          (\<forall>m \<in> set (n # ns). st m = NodeReady \<longrightarrow> run_submitted (rs_run_id (spec m)) (obs (st_world s')))"
        using ys(3) xs(4) sub by auto
    qed
  qed
qed

subsection \<open>Settling\<close>

lemma quiet_active: "backend_ok R (en_backend en) obs \<Longrightarrow> io_keeps (quiet en R obs) (run_is_active en n rid)"
  unfolding run_is_active_def by (auto intro!: quiet.keeps_intros quiet_reads_workflow backend_reads)

text \<open>The run of an unrecorded task instance is live in a world that is observed as \<open>o1\<close>.\<close>

definition live_node ::
  "('w, 'b, 'x, 'r) env \<Rightarrow> ('w \<Rightarrow> 'b obs) \<Rightarrow> 'b obs \<Rightarrow> 'x graph \<Rightarrow> partition \<Rightarrow> graph_run_record \<Rightarrow> records \<Rightarrow> node \<Rightarrow> bool" where
  "live_node en obs o1 g p run records n \<longleftrightarrow>
     (\<exists>rid w w'. unrecorded_run_id g p run n records = Some rid \<and> obs w = o1 \<and>
        wf_status (en_backend en) (node_pool n) rid w = (Inr (Some RunLive), w'))"

lemma any_active_True:
  assumes ok: "by_itself en obs"
  shows "any_active en g p run records ns s = (Inr True, s') \<Longrightarrow>
     \<exists>n \<in> set ns. live_node en obs (obs (st_world s)) g p run records n"
proof (induction ns arbitrary: s)
  case (Cons n ns)
  show ?case
  proof (cases "unrecorded_run_id g p run n records")
    case None
    then show ?thesis using Cons by auto
  next
    case (Some rid)
    with Cons.prems obtain b s1 where b: "run_is_active en n rid s = (Inr b, s1)"
      and rest: "(if b then io_return True else any_active en g p run records ns) s1 = (Inr True, s')"
      by (auto simp: io_bind_Inr)
    have same: "obs (st_world s1) = obs (st_world s)" by (rule quiet_same [OF quiet_active [OF by_itself_backend [OF ok]] b])
    show ?thesis
    proof (cases b)
      case True
      then show ?thesis using b Some
        by (auto simp: live_node_def run_is_active_def io_bind_Inr workflow_io_Inr split: if_splits intro!: bexI [of _ n])
    next
      case False
      then show ?thesis using Cons.IH [of s1] rest same by auto
    qed
  qed
qed simp

lemma commit_settled_alone:
  assumes ok: "by_itself en obs" and m: "commit_settled en name p bs settled s = (r, s')"
  defines "o1 \<equiv> obs (st_world s)" and "written \<equiv> \<lambda>t. apply_effects (settle_effects en name p t settled) (obs (st_world s))"
  shows "obs (st_world s') = o1 \<or> ob_kv o1 (graph_run_key name p) = Some bs \<and> (\<exists>t. obs (st_world s') = written t)"
    and "r = Inr b \<Longrightarrow> if b then ob_kv o1 (graph_run_key name p) = Some bs \<and> (\<exists>t. obs (st_world s') = written t)
      else ob_kv o1 (graph_run_key name p) \<noteq> Some bs \<and> obs (st_world s') = o1"
proof -
  obtain t s1 where t: "clock_io en s = (Inr t, s1)"
    and q: "queue_io (kv_compare_commit (en_backend en) (graph_run_key name p) (Some bs) (settle_effects en name p t settled)) s1 = (r, s')"
    using m unfolding commit_settled_def by (elim io_bind_cases) (auto simp: clock_io_result)
  have same: "obs (st_world s1) = o1"
    unfolding o1_def by (rule quiet_same [OF quiet_clock_io [OF by_itself_backend [OF ok]] t])
  obtain q w where qw: "kv_compare_commit (en_backend en) (graph_run_key name p) (Some bs) (settle_effects en name p t settled) (st_world s1) = (q, w)"
    and s': "st_world s' = w" and r: "r = (case q of Inl e \<Rightarrow> Inl (QueueError e) | Inr a \<Rightarrow> Inr a)"
    using q by (auto simp: queue_io_def world_io_result io_map_error_result)
  note law = backend_writes(3) [OF by_itself_backend [OF ok], of "graph_run_key name p" "Some bs" "settle_effects en name p t settled"]
  show "obs (st_world s') = o1 \<or> ob_kv o1 (graph_run_key name p) = Some bs \<and> (\<exists>t. obs (st_world s') = written t)"
    using law qw same s' unfolding writes_if_def o1_def written_def by (cases q) (fastforce split: bool.splits)+
  assume "r = Inr b"
  then have "q = Inr b" using r by (cases q) auto
  then show "if b then ob_kv o1 (graph_run_key name p) = Some bs \<and> (\<exists>t. obs (st_world s') = written t)
      else ob_kv o1 (graph_run_key name p) \<noteq> Some bs \<and> obs (st_world s') = o1"
    using alone_writes_if [OF law, of "st_world s1" b w] qw same s' unfolding o1_def written_def by (cases b) auto
qed

lemma settle_alone:
  assumes ok: "by_itself en obs" and m: "settle en g p run bs records states s = (r, s')"
  defines "o1 \<equiv> obs (st_world s)"
  shows "obs (st_world s') = o1 \<or>
      (\<exists>state t. settled_state states = Some state \<and> ob_kv o1 (graph_run_key (gr_name g) p) = Some bs \<and>
        obs (st_world s') = apply_effects (settle_effects en (gr_name g) p t (settled_record run state records)) o1)"
    and "r = Inr True \<Longrightarrow> \<exists>state t. settled_state states = Some state \<and> ob_kv o1 (graph_run_key (gr_name g) p) = Some bs \<and>
        obs (st_world s') = apply_effects (settle_effects en (gr_name g) p t (settled_record run state records)) o1"
    and "r = Inr False \<Longrightarrow> obs (st_world s') = o1 \<and>
      (settled_state states = None \<or> ob_kv o1 (graph_run_key (gr_name g) p) \<noteq> Some bs \<or>
        (\<exists>n \<in> set (gr_nodes g). live_node en obs (obs (st_world s)) g p run records n))"
proof -
  let ?A = "obs (st_world s') = o1 \<or>
      (\<exists>state t. settled_state states = Some state \<and> ob_kv o1 (graph_run_key (gr_name g) p) = Some bs \<and>
        obs (st_world s') = apply_effects (settle_effects en (gr_name g) p t (settled_record run state records)) o1)"
  let ?B = "r = Inr True \<longrightarrow> (\<exists>state t. settled_state states = Some state \<and> ob_kv o1 (graph_run_key (gr_name g) p) = Some bs \<and>
        obs (st_world s') = apply_effects (settle_effects en (gr_name g) p t (settled_record run state records)) o1)"
  let ?C = "r = Inr False \<longrightarrow> obs (st_world s') = o1 \<and>
      (settled_state states = None \<or> ob_kv o1 (graph_run_key (gr_name g) p) \<noteq> Some bs \<or>
        (\<exists>n \<in> set (gr_nodes g). live_node en obs (obs (st_world s)) g p run records n))"
  have "?A \<and> ?B \<and> ?C"
  proof (cases "settled_state states")
    case None
    then show ?thesis using m by (auto simp: settle_def o1_def)
  next
    case (Some state)
    then have m': "io_bind (any_active en g p run records (gr_nodes g)) (\<lambda>active.
        if active then io_return False
        else commit_settled en (gr_name g) p bs (settled_record run state records)) s = (r, s')"
      using m by (simp add: settle_def)
    then show ?thesis
    proof (cases rule: io_bind_cases)
      case (error e)
      then show ?thesis
        using quiet_same [OF quiet_any_active [OF by_itself_backend [OF ok]] error(1)] by (simp add: o1_def)
    next
      case (ok active s1)
      have same: "obs (st_world s1) = o1"
        unfolding o1_def by (rule quiet_same [OF quiet_any_active [OF by_itself_backend [OF assms(1)]] ok(1)])
      show ?thesis
      proof (cases active)
        case True
        then have "any_active en g p run records (gr_nodes g) s = (Inr True, s1)" using ok(1) by simp
        from any_active_True [OF assms(1) this] show ?thesis using ok(2) same True by auto
      next
        case False
        then have c: "commit_settled en (gr_name g) p bs (settled_record run state records) s1 = (r, s')" using ok(2) by simp
        show ?thesis
          using commit_settled_alone(1) [OF assms(1) c] commit_settled_alone(2) [OF assms(1) c, of True]
            commit_settled_alone(2) [OF assms(1) c, of False] Some unfolding same by auto
      qed
    qed
  qed
  then show ?A and "r = Inr True \<Longrightarrow> \<exists>state t. settled_state states = Some state \<and> ob_kv o1 (graph_run_key (gr_name g) p) = Some bs \<and>
        obs (st_world s') = apply_effects (settle_effects en (gr_name g) p t (settled_record run state records)) o1"
    and "r = Inr False \<Longrightarrow> obs (st_world s') = o1 \<and>
      (settled_state states = None \<or> ob_kv o1 (graph_run_key (gr_name g) p) \<noteq> Some bs \<or>
        (\<exists>n \<in> set (gr_nodes g). live_node en obs (obs (st_world s)) g p run records n))" by simp_all
qed

subsection \<open>A pass over the candidates\<close>

lemma stored_records_get:
  assumes "wf_graph g" and "n \<in> set (gr_nodes g)"
  shows "bt_get (stored_records en o1 g p) (node_name n) = stored_record en o1 g p n"
proof -
  have "bt_get (fold (\<lambda>n records. case stored_record en o1 g p n of
         None \<Rightarrow> records | Some r \<Rightarrow> bt_insert (node_name n) r records) ns acc) (node_name n) =
      (if n \<in> set ns \<and> stored_record en o1 g p n \<noteq> None then stored_record en o1 g p n else bt_get acc (node_name n))"
    if "set ns \<subseteq> set (gr_nodes g)" for ns acc
    using that
  proof (induction ns arbitrary: acc)
    case (Cons m ns)
    have "node_name m = node_name n \<longleftrightarrow> m = n" using graph_node_unique [OF assms(1)] assms(2) Cons.prems by auto
    then show ?case using Cons by (auto split: option.splits)
  qed simp
  from this [of "gr_nodes g" "[]"] show ?thesis using assms(2) by (auto simp: stored_records_def)
qed

lemma ready_now_state:
  assumes "wf_graph g" and "n \<in> set (gr_nodes g)"
    and "node_states g (current_records run (stored_records en o1 g p)) = Some states"
  shows "ready_now en o1 g p run n \<longleftrightarrow> state_at states (node_name n) = NodeReady"
  using state_at_record(5) [OF assms(1,3,2)] by (auto simp: ready_now_def Let_def recorded_status_def)

lemma advance_alone:
  assumes ok: "by_itself en obs" and g: "wf_graph g" and ns: "set ns \<subseteq> set (gr_nodes g)"
    and m: "advance en g p run bs ns s = (Inr (k, settled), s')"
  defines "o1 \<equiv> obs (st_world s)" and "records \<equiv> stored_records en (obs (st_world s)) g p"
  obtains states specs o2 where
    "node_states g (current_records run records) = Some states"
    "\<forall>x \<in> set specs. \<exists>n \<in> set ns. ready_now en o1 g p run n \<and> x = (node_pool n, ready_spec en o1 g p run n)"
    "o2 = o1\<lparr>ob_submits := ob_submits o1 @ specs\<rparr>" "k = length specs"
    "\<forall>n \<in> set ns. ready_now en o1 g p run n \<longrightarrow> run_submitted (rs_run_id (ready_spec en o1 g p run n)) o2"
    "settled \<longrightarrow> (\<exists>state t. settled_state states = Some state \<and> ob_kv o1 (graph_run_key (gr_name g) p) = Some bs \<and>
        obs (st_world s') = apply_effects (settle_effects en (gr_name g) p t (settled_record run state records)) o2)"
    "\<not> settled \<longrightarrow> obs (st_world s') = o2 \<and>
      (settled_state states = None \<or> ob_kv o1 (graph_run_key (gr_name g) p) \<noteq> Some bs \<or>
        (\<exists>n \<in> set (gr_nodes g). live_node en obs o2 g p run records n))"
proof -
  obtain rs s1 states s2 where read0: "read_node_records en g p s = (Inr rs, s1)"
    and states0: "node_states g (current_records run rs) = Some states"
    and fold0: "io_fold (submit_candidate en g p run rs states) ns 0 s1 = (Inr k, s2)"
    and settle0: "settle en g p run bs rs states s2 = (Inr settled, s')"
    using m unfolding advance_def by (auto simp: io_bind_Inr)
  have "rs = records" unfolding records_def by (rule node_records_alone(1) [OF ok read0])
  note read = read0 [unfolded this] and states = states0 [unfolded this] and fold = fold0 [unfolded this]
    and settle = settle0 [unfolded this]
  have s1: "obs (st_world s1) = o1" unfolding o1_def by (rule node_records_alone(2) [OF ok read])
  have state: "\<forall>n \<in> set ns. bt_get states (node_name n) = Some (state_at states (node_name n))"
  proof
    fix n
    assume "n \<in> set ns"
    then obtain st where "bt_get states (node_name n) = Some st" using node_states_eq [OF g states, of n] ns by blast
    then show "bt_get states (node_name n) = Some (state_at states (node_name n))" by (simp add: state_at_def)
  qed
  have ready: "ready_now en o1 g p run n \<longleftrightarrow> state_at states (node_name n) = NodeReady" if "n \<in> set ns" for n
    using ready_now_state [OF g, of n] that ns states unfolding records_def o1_def by blast
  have spec: "submit_spec en n (identity g (run_definition run) p n (next_rerun records (node_name n)))
      (upstream_records n (current_records run records)) [] = ready_spec en o1 g p run n" for n
    by (simp add: ready_spec_def records_def o1_def Let_def)
  from candidates_alone [OF ok state fold] obtain specs where
    specs: "\<forall>x \<in> set specs. \<exists>n \<in> set ns. state_at states (node_name n) = NodeReady \<and> x = (node_pool n, ready_spec en o1 g p run n)"
      "obs (st_world s2) = o1\<lparr>ob_submits := ob_submits o1 @ specs\<rparr>" "k = length specs"
      "\<forall>n \<in> set ns. state_at states (node_name n) = NodeReady \<longrightarrow>
         run_submitted (rs_run_id (ready_spec en o1 g p run n)) (obs (st_world s2))"
    unfolding spec s1 by auto
  have kv: "ob_kv (obs (st_world s2)) = ob_kv o1" by (simp add: specs(2))
  show thesis
  proof (rule that [OF states, of specs "obs (st_world s2)"])
    show "\<forall>x \<in> set specs. \<exists>n \<in> set ns. ready_now en o1 g p run n \<and> x = (node_pool n, ready_spec en o1 g p run n)"
      using specs(1) ready by blast
    show "\<forall>n \<in> set ns. ready_now en o1 g p run n \<longrightarrow> run_submitted (rs_run_id (ready_spec en o1 g p run n)) (obs (st_world s2))"
      using specs(4) ready by blast
    show "settled \<longrightarrow> (\<exists>state t. settled_state states = Some state \<and> ob_kv o1 (graph_run_key (gr_name g) p) = Some bs \<and>
        obs (st_world s') = apply_effects (settle_effects en (gr_name g) p t (settled_record run state records)) (obs (st_world s2)))"
      using settle_alone(2) [OF ok settle] kv by simp
    show "\<not> settled \<longrightarrow> obs (st_world s') = obs (st_world s2) \<and>
      (settled_state states = None \<or> ob_kv o1 (graph_run_key (gr_name g) p) \<noteq> Some bs \<or>
        (\<exists>n \<in> set (gr_nodes g). live_node en obs (obs (st_world s2)) g p run records n))"
      using settle_alone(3) [OF ok settle] kv by simp
  qed (use specs in auto)
qed

lemma settle_effects_obs:
  assumes "codecs_ok (en_codecs en)"
  shows "ob_submits (apply_effects (settle_effects en name p t r) o1) = ob_submits o1"
    and "stored_run en (apply_effects (settle_effects en name p t r) o1) name p = Some (r\<lparr>run_settled_at_ms := Some t\<rparr>)"
    and "ob_expiry (apply_effects (settle_effects en name p t r) o1) = insert (t, expiring_suffix (ExpiringRun name p)) (ob_expiry o1)"
    and "ob_kv (apply_effects (settle_effects en name p t r) o1) =
      (ob_kv o1)(graph_run_key name p \<mapsto> enc_run (en_codecs en) (r\<lparr>run_settled_at_ms := Some t\<rparr>))"
  using assms by (simp_all add: settle_effects_def stored_run_def codecs_ok_def)

lemma run_submitted_submits: "ob_submits o1 = ob_submits o2 \<Longrightarrow> run_submitted i o1 \<longleftrightarrow> run_submitted i o2"
  by (simp add: run_submitted_def)

subsection \<open>The input of a submitted run\<close>

lemma upstream_records_get:
  "bt_get (upstream_records n records) u = (if u \<in> set (nd_upstreams n) then bt_get records u else None)"
proof -
  have "bt_get (fold (\<lambda>u acc. case bt_get records u of None \<Rightarrow> acc | Some r \<Rightarrow> bt_insert u r acc) us acc) u =
      (if u \<in> set us \<and> bt_get records u \<noteq> None then bt_get records u else bt_get acc u)" for us acc
    by (induction us arbitrary: acc) (auto split: option.splits)
  from this [of "nd_upstreams n" "[]"] show ?thesis by (auto simp: upstream_records_def)
qed

lemma upstream_records_wf: "bt_wf (upstream_records n records)"
proof -
  have "bt_wf acc \<Longrightarrow> bt_wf (fold (\<lambda>u acc. case bt_get records u of None \<Rightarrow> acc | Some r \<Rightarrow> bt_insert u r acc) us acc)" for us acc
    by (induction us arbitrary: acc) (auto intro: bt_insert_wf split: option.splits)
  then show ?thesis by (simp add: upstream_records_def)
qed

lemma current_records_get:
  assumes "bt_wf records"
  shows "bt_get (current_records run records) u =
     (case bt_get records u of Some r \<Rightarrow> if is_current run u r then Some r else None | None \<Rightarrow> None)"
  unfolding current_records_def by (simp add: bt_get_filter [OF assms] split: option.split)

lemma scheduler_graph_cases:
  assumes ok: "by_itself en obs" and cache: "cache_ok en s" and m: "scheduler_graph en hash s = (r, s')"
  shows "obs (st_world s') = obs (st_world s) \<and> cache_ok en s' \<and>
     (\<forall>g. r = Inr g \<longrightarrow> (\<exists>t. env_hash en t = hash \<and> env_load en t = Inr g) \<and> wf_graph g)"
proof -
  have keeps: "io_keeps (quiet en alone obs) (scheduler_graph en hash)" by (rule quiet_graph [OF by_itself_backend [OF ok]])
  have "(\<exists>t. env_hash en t = hash \<and> env_load en t = Inr g) \<and> wf_graph g" if "r = Inr g" for g
  proof -
    have "definition_get en hash s = (Inr (Some g), s')"
      using m that unfolding scheduler_graph_def by (auto simp: io_bind_Inr split: option.splits)
    then show ?thesis using definition_get_graph [OF cache] definition_get_wf(1) [OF cache] by blast
  qed
  then show ?thesis
    using quiet_same [OF keeps m] quiet.keepsD [OF keeps m] cache by (auto simp: quiet_def)
qed

lemma cache_ok_queue: "queue_io m s = (r, s') \<Longrightarrow> cache_ok en s \<Longrightarrow> cache_ok en s'"
  by (auto simp: queue_io_def world_io_result io_map_error_result)

lemma cache_ok_run: "graph_run en key s = (Inr v, s') \<Longrightarrow> cache_ok en s \<Longrightarrow> cache_ok en s'"
  by (auto simp: graph_run_Inr)

lemma stored_run_kv: "ob_kv o1 = ob_kv o2 \<Longrightarrow> stored_run en o1 g p = stored_run en o2 g p"
  by (simp add: stored_run_def)

lemma advance_submits:
  assumes "by_itself en obs" and "wf_graph g" and "set ns \<subseteq> set (gr_nodes g)"
    and "advance en g p run bs ns s = (Inr (k, settled), s')"
  shows "\<exists>specs. ob_submits (obs (st_world s')) = ob_submits (obs (st_world s)) @ specs \<and> length specs = k \<and>
     (\<forall>x \<in> set specs. \<exists>n \<in> set ns. ready_now en (obs (st_world s)) g p run n \<and>
        x = (node_pool n, ready_spec en (obs (st_world s)) g p run n)) \<and>
     (\<forall>n \<in> set ns. ready_now en (obs (st_world s)) g p run n \<longrightarrow>
        run_submitted (rs_run_id (ready_spec en (obs (st_world s)) g p run n)) (obs (st_world s')))"
proof -
  have codecs: "codecs_ok (en_codecs en)" using assms(1) by (simp add: by_itself_def)
  obtain states specs o2 where specs:
    "\<forall>x \<in> set specs. \<exists>n \<in> set ns. ready_now en (obs (st_world s)) g p run n \<and>
        x = (node_pool n, ready_spec en (obs (st_world s)) g p run n)"
    "o2 = (obs (st_world s))\<lparr>ob_submits := ob_submits (obs (st_world s)) @ specs\<rparr>" "k = length specs"
    "\<forall>n \<in> set ns. ready_now en (obs (st_world s)) g p run n \<longrightarrow>
        run_submitted (rs_run_id (ready_spec en (obs (st_world s)) g p run n)) o2"
    and fin: "settled \<longrightarrow> (\<exists>state t. settled_state states = Some state \<and>
        obs (st_world s') = apply_effects (settle_effects en (gr_name g) p t
          (settled_record run state (stored_records en (obs (st_world s)) g p))) o2)"
      "\<not> settled \<longrightarrow> obs (st_world s') = o2"
    by (rule advance_alone [OF assms]) blast
  have "ob_submits (obs (st_world s')) = ob_submits o2"
    using fin settle_effects_obs(1) [OF codecs] by (cases settled) auto
  then show ?thesis
    using specs run_submitted_submits [of "obs (st_world s')" o2] by (intro exI [of _ specs]) simp
qed

end
