(* ===== verification/Scheduler_Examples.thy ===== *)
theory Scheduler_Examples
  imports Requests Graph_Examples Memory
begin

section \<open>An example process\<close>

text \<open>
  A process over the services in memory, whose one definition is the text \<open>orders\<close> of the example
  graph, loaded in its cache. The witnesses of the scheduler's properties run its operations.
\<close>

definition example_section :: "string \<Rightarrow> string option \<Rightarrow> string list \<Rightarrow> string list \<Rightarrow> trigger_rule_field option \<Rightarrow> node_section" where
  "example_section name made consumes after rule =
     \<lparr>nsec_name = name, nsec_produces = made, nsec_consumes = consumes, nsec_after = after,
      nsec_trigger_rule = rule, nsec_operator = ''shell'', nsec_pool = ''default'', nsec_retries = 0,
      nsec_params = [(''command'', TString ''run {{ partition }}'')], nsec_each = None\<rparr>"

definition example_file :: def_file where
  "example_file =
     \<lparr>file_graph = \<lparr>gsec_name = ''orders'', gsec_schedule = Some ''0 2 * * *'', gsec_catchup = None,
        gsec_partition = DailyField\<rparr>,
      file_nodes =
        [example_section ''extract'' (Some ''raw'') [] [] None,
         example_section ''load'' (Some ''clean'') [''raw''] [] None,
         example_section ''alert'' None [] [''extract'', ''load''] (Some OneFailedField)]\<rparr>"

definition example_env :: "(stored memory, stored, nat, unit) env" where
  "example_env =
     \<lparr>en_backend = memory_backend [''default''] 50, en_codecs = stored_codecs,
      en_toml = (\<lambda>t. if t = ''orders'' then Inr example_file else Inl ''expected a table''),
      en_sha256 = (\<lambda>bs. if bs = ''orders'' then [171] else [0]), en_utc = example_utc, en_cron = example_cron,
      en_operators = example_operators, en_store_prefix = [], en_params_json = (\<lambda>t. JNull)\<rparr>"

definition empty_memory :: "'b memory" where
  "empty_memory = \<lparr>mem_kv = [], mem_submits = [], mem_expiry = [], mem_objects = []\<rparr>"

definition example_process :: "stored memory \<Rightarrow> (stored memory, nat) process" where
  "example_process m = \<lparr>st_world = m, st_graphs = [''ab'' \<mapsto> example_graph]\<rparr>"

lemma example_file_spec: "file_spec example_file = example_spec"
  by (simp add: file_spec_def example_file_def example_section_def example_spec_def example_nodes_def example_node_def
      section_spec_def section_kind_def catchup_of_def partitioning_of_def trigger_rule_of_def)

lemma example_load: "env_load example_env ''orders'' = Inr example_graph"
proof -
  have "file_problems example_file = []"
    by (simp add: file_problems_def example_file_def example_section_def section_kind_def catchup_of_def)
  then show ?thesis
    using example_valid example_built
    by (simp add: env_load_def load_str_Inr example_env_def example_file_spec)
qed

lemma example_hash: "env_hash example_env ''orders'' = ''ab''"
proof -
  have "definition_hash (\<lambda>bs. if bs = ''orders'' then [171] else [0]) ''orders'' = ''ab''" by code_simp
  then show ?thesis by (simp add: env_hash_def example_env_def)
qed

lemma example_cache [simp]: "cache_ok example_env (example_process m)"
  using example_load example_hash by (auto simp: cache_ok_def example_process_def)

lemma example_env_ok: "backend_ok R (en_backend example_env) memory_obs" "codecs_ok (en_codecs example_env)"
  by (simp_all add: example_env_def memory_backend_ok stored_codecs_ok)

lemma example_backend [simp]: "en_backend example_env = memory_backend [''default''] 50"
  "en_codecs example_env = stored_codecs" "en_params_json example_env = (\<lambda>t. JNull)" "en_utc example_env = example_utc"
  by (simp_all add: example_env_def)

lemma example_world [simp]: "st_world (example_process m) = m" "example_process m\<lparr>st_world := m'\<rparr> = example_process m'"
  by (simp_all add: example_process_def)

lemma example_graph_io [simp]: "scheduler_graph example_env ''ab'' (example_process m) = (Inr example_graph, example_process m)"
  by (simp add: scheduler_graph_def definition_get_def cached_graph_def example_process_def io_defs)

text \<open>The calls of the services in memory.\<close>

lemma memory_queue_io [simp]:
  "queue_io f (example_process m) =
     (case f m of (Inl e, m') \<Rightarrow> (Inl (QueueError e), example_process m') | (Inr a, m') \<Rightarrow> (Inr a, example_process m'))"
  "workflow_io g (example_process m) =
     (case g m of (Inl e, m') \<Rightarrow> (Inl (WorkflowError e), example_process m') | (Inr a, m') \<Rightarrow> (Inr a, example_process m'))"
  "read_io h (example_process m) =
     (case h m of (Inl e, m') \<Rightarrow> (Inl (scheduler_error_of e), example_process m') | (Inr a, m') \<Rightarrow> (Inr a, example_process m'))"
  by (auto simp: queue_io_def workflow_io_def read_io_def world_io_def io_lift_def io_map_error_def split: prod.splits sum.splits)

lemma memory_calls [simp]:
  "kv_get (memory_backend pools t) k m = (Inr (bt_get (mem_kv m) k), m)"
  "kv_compare_put (memory_backend pools t) k e v m =
     (if bt_get (mem_kv m) k = e then (Inr True, memory_effect (PutEffect k v) m) else (Inr False, m))"
  "kv_compare_commit (memory_backend pools t) k e es m =
     (if bt_get (mem_kv m) k = e then (Inr True, fold memory_effect es m) else (Inr False, m))"
  "commit_effects (memory_backend pools t) es m = (Inr (), fold memory_effect es m)"
  "clock_now (memory_backend pools t) m = (t, m)"
  "pool_exists (memory_backend pools t) pool \<longleftrightarrow> pool \<in> set pools"
  "wf_submit (memory_backend pools t) = memory_submit"
  by (simp_all add: memory_backend_def)

lemma memory_clock_io [simp]: "clock_io example_env (example_process m) = (Inr 50, example_process m)"
  by (simp add: clock_io_def Let_def)

text \<open>The start of the example graph.\<close>

definition example_run :: graph_run_record where
  "example_run = new_run_record ''ab'' 50"

definition extract_spec :: "stored run_spec" where
  "extract_spec = submit_spec example_env (gr_nodes example_graph ! 0)
     (identity example_graph ''ab'' partition_none (gr_nodes example_graph ! 0) 0) [] []"

definition started_memory :: "stored memory" where
  "started_memory =
     \<lparr>mem_kv = [(''swale/runs/orders/none'', StoredRun example_run)], mem_submits = [(''default'', extract_spec)],
      mem_expiry = [], mem_objects = []\<rparr>"

lemma example_roots: "graph_roots example_graph = [gr_nodes example_graph ! 0]"
  by code_simp

lemma example_run_key: "graph_run_key (gr_name example_graph) partition_none = ''swale/runs/orders/none''"
  by code_simp

lemma example_pool: "node_pool (gr_nodes example_graph ! 0) = ''default''"
  by code_simp

lemma start_example:
  "start_run example_env ''ab'' partition_none (example_process empty_memory) =
     (Inr \<lparr>so_started = True, so_submitted = [rs_run_id extract_spec]\<rparr>, example_process started_memory)"
proof -
  have enc: "enc_run stored_codecs (new_run_record ''ab'' 50) = StoredRun example_run"
    by (simp add: stored_codecs_def example_run_def)
  have id: "rs_run_id extract_spec = identity_run_id (identity example_graph ''ab'' partition_none (gr_nodes example_graph ! 0) 0)"
    "rs_effects extract_spec = []"
    by (simp_all add: extract_spec_def submit_spec_def)
  show ?thesis
    by (simp add: start_run_def io_bind_def io_return_def enc example_run_key empty_memory_def example_roots submit_node_def
        example_pool memory_submit_def started_memory_def id extract_spec_def [symmetric] Let_def)
qed

end
