(* ===== verification/Scheduler_Runs.thy ===== *)
theory Scheduler_Runs
  imports Scheduler_Advance Scheduler_Examples
begin

section \<open>Example runs of the scheduler\<close>

text \<open>
  Runs of the operations on the example graph, which the witnesses of their properties use: an
  extract that succeeded, and the event of its termination, which submits the load.
\<close>

definition extract_node :: node where "extract_node = gr_nodes example_graph ! 0"
definition load_node :: node where "load_node = gr_nodes example_graph ! 1"
definition alert_node :: node where "alert_node = gr_nodes example_graph ! 2"

lemma example_nodes: "gr_nodes example_graph = [extract_node, load_node, alert_node]"
proof -
  have len: "length (gr_nodes example_graph) = 3" by code_simp
  show ?thesis
  proof (rule nth_equalityI)
    fix i
    assume "i < length (gr_nodes example_graph)"
    then have "i = 0 \<or> i = 1 \<or> i = 2" using len by auto
    then show "gr_nodes example_graph ! i = [extract_node, load_node, alert_node] ! i"
      by (auto simp: extract_node_def load_node_def alert_node_def)
  qed (simp add: len)
qed

lemma example_node_facts [simp]:
  "node_name extract_node = ''extract''" "node_name load_node = ''load''" "node_name alert_node = ''alert''"
  "node_pool extract_node = ''default''" "node_pool load_node = ''default''" "node_pool alert_node = ''default''"
  "node_record_key ''orders'' partition_none extract_node = ''swale/assets/raw/none''"
  "node_record_key ''orders'' partition_none load_node = ''swale/assets/clean/none''"
  "node_record_key ''orders'' partition_none alert_node = ''swale/tasks/orders/none/alert''"
  "nd_upstreams extract_node = []" "nd_upstreams load_node = [''extract'']" "nd_upstreams alert_node = [''extract'', ''load'']"
  "nd_downstreams extract_node = [''alert'', ''load'']" "nd_downstreams load_node = [''alert'']" "nd_downstreams alert_node = []"
  "node_trigger_rule extract_node = AllSucceeded" "node_trigger_rule load_node = AllSucceeded" "node_trigger_rule alert_node = OneFailed"
  "node_each extract_node = None" "node_each load_node = None" "node_each alert_node = None"
  by code_simp+

lemma example_name [simp]: "gr_name example_graph = ''orders''"
  by code_simp

definition node_record_of :: "node \<Rightarrow> u32 \<Rightarrow> record_status \<Rightarrow> node_record" where
  "node_record_of n r status =
     \<lparr>rec_status = status, rec_run_id = run_id ''orders'' partition_none (node_name n) r, rec_definition = ''ab'', rec_rerun = r,
      rec_terminated_at_ms = 60, rec_output = (if status = Succeeded then Some (JNumber (PosInt 1)) else None),
      rec_output_omitted = False, rec_error = None\<rparr>"

definition extracted_memory :: "stored memory" where
  "extracted_memory = started_memory\<lparr>mem_kv :=
     [(''swale/assets/raw/none'', StoredNode (node_record_of extract_node 0 Succeeded)), (''swale/runs/orders/none'', StoredRun example_run)]\<rparr>"

lemma example_node_read:
  "read_node_record example_env example_graph partition_none n (example_process m) =
     (case bt_get (mem_kv m) (node_record_key ''orders'' partition_none n) of
       None \<Rightarrow> (Inr None, example_process m)
     | Some (StoredNode r) \<Rightarrow> (Inr (Some r), example_process m)
     | Some b \<Rightarrow> (Inl (RecordError (node_record_key ''orders'' partition_none n) ''not a node''), example_process m))"
  by (auto simp: read_node_record_def read_record_def io_bind_def io_map_error_def parse_record_def stored_codecs_def io_defs
      scheduler_error_of_def split: option.splits stored.splits)

lemma example_graph_run:
  "graph_run example_env key (example_process m) =
     (case bt_get (mem_kv m) key of
       None \<Rightarrow> (Inr None, example_process m)
     | Some (StoredRun r) \<Rightarrow> (Inr (Some (r, StoredRun r)), example_process m)
     | Some b \<Rightarrow> (Inl (RecordError key ''not a run''), example_process m))"
  by (auto simp: graph_run_def io_bind_def io_map_error_def parse_record_def stored_codecs_def io_defs
      scheduler_error_of_def split: option.splits stored.splits)

lemma extracted_records:
  "read_node_records example_env example_graph partition_none (example_process extracted_memory) =
     (Inr [(''extract'', node_record_of extract_node 0 Succeeded)], example_process extracted_memory)"
  by (simp add: read_node_records_def example_nodes example_node_read io_bind_def io_return_def extracted_memory_def bt_get_def)

lemma node_states_one_pass:
  assumes "states_pass g records [] = states" and "length states = length (gr_nodes g)" and "gr_nodes g \<noteq> []"
  shows "node_states g records = Some states"
  using assms unfolding node_states_def by (subst states_loop.simps, subst states_loop.simps) simp

lemma extracted_states:
  "node_states example_graph (current_records example_run [(''extract'', node_record_of extract_node 0 Succeeded)]) =
     Some [(''alert'', NodeWaiting), (''extract'', NodeSucceeded), (''load'', NodeReady)]"
  by (rule node_states_one_pass) code_simp+

definition load_spec :: "stored run_spec" where
  "load_spec = ready_spec example_env (memory_obs extracted_memory) example_graph partition_none example_run load_node"

definition loading_memory :: "stored memory" where
  "loading_memory = extracted_memory\<lparr>mem_submits := mem_submits extracted_memory @ [(''default'', load_spec)]\<rparr>"

lemma by_itself_example: "by_itself example_env memory_obs"
  using example_env_ok unfolding by_itself_def by blast

lemma extracted_stored:
  "stored_records example_env (memory_obs extracted_memory) example_graph partition_none = [(''extract'', node_record_of extract_node 0 Succeeded)]"
  using node_records_alone(1) [OF by_itself_example extracted_records] by simp

lemma load_ready: "ready_now example_env (memory_obs extracted_memory) example_graph partition_none example_run load_node"
  using ready_now_state [OF example_wf _ extracted_states [folded extracted_stored], of load_node]
  by (simp add: example_nodes state_at_def bt_get_def)

lemma advance_examples:
  "advance example_env example_graph partition_none example_run (StoredRun example_run) [alert_node, load_node]
     (example_process extracted_memory) = (Inr (1, False), example_process loading_memory)"
  "advance example_env example_graph partition_none example_run (StoredRun example_run) [extract_node, load_node, alert_node]
     (example_process extracted_memory) = (Inr (1, False), example_process loading_memory)"
proof -
  let ?r = "[(''extract'', node_record_of extract_node 0 Succeeded)]"
  let ?i = "identity example_graph ''ab'' partition_none load_node 0"
  have hash: "run_definition example_run = ''ab''" by (simp add: example_run_def new_run_record_def)
  have nr: "next_rerun ?r ''load'' = 0" by (simp add: next_rerun_def bt_get_def)
  have spec: "submit_spec example_env load_node ?i (upstream_records load_node (current_records example_run ?r)) [] = load_spec"
    by (simp add: load_spec_def ready_spec_def extracted_stored Let_def hash nr)
  have other: "identity_run_id ?i \<noteq> rs_run_id extract_spec" by code_simp
  have sub: "memory_submit ''default'' load_spec extracted_memory = (Inr True, loading_memory)"
    using other by (simp add: memory_submit_def extracted_memory_def started_memory_def loading_memory_def spec [symmetric])
  have states: "bt_get [(''alert'', NodeWaiting), (''extract'', NodeSucceeded), (''load'', NodeReady)] ''load'' = Some NodeReady"
    "bt_get [(''alert'', NodeWaiting), (''extract'', NodeSucceeded), (''load'', NodeReady)] ''alert'' = Some NodeWaiting"
    "bt_get [(''alert'', NodeWaiting), (''extract'', NodeSucceeded), (''load'', NodeReady)] ''extract'' = Some NodeSucceeded"
    by (simp_all add: bt_get_def)
  have unsettled: "settled_state [(''alert'', NodeWaiting), (''extract'', NodeSucceeded), (''load'', NodeReady)] = None" by code_simp
  note defs = advance_def io_bind_def io_return_def extracted_records extracted_states panics_def io_of_sum_def
    submit_candidate_def states submit_node_def Let_def hash nr spec sub settle_def unsettled
  show "advance example_env example_graph partition_none example_run (StoredRun example_run) [alert_node, load_node]
     (example_process extracted_memory) = (Inr (1, False), example_process loading_memory)"
    "advance example_env example_graph partition_none example_run (StoredRun example_run) [extract_node, load_node, alert_node]
     (example_process extracted_memory) = (Inr (1, False), example_process loading_memory)"
    by (simp_all add: defs)
qed

lemmas advance_example = advance_examples(1)

definition example_event :: event where
  "example_event =
     \<lparr>ev_graph = ''orders'', ev_partition = partition_none, ev_node = ''extract'', ev_status = Succeeded\<rparr>"

lemma example_graph_nodes [simp]:
  "graph_node example_graph ''extract'' = Some extract_node" "graph_node example_graph ''load'' = Some load_node"
  "graph_node example_graph ''alert'' = Some alert_node"
  by code_simp+

lemma example_run_fields [simp]: "run_definition example_run = ''ab''" "run_state example_run = RunActive"
  by (simp_all add: example_run_def new_run_record_def)

lemma example_run_key2 [simp]: "graph_run_key ''orders'' partition_none = ''swale/runs/orders/none''"
  by code_simp

lemma event_example:
  "handle_event example_env example_event (example_process extracted_memory) = (Inr (), example_process loading_memory)"
  by (simp add: handle_event_def example_event_def example_graph_run io_bind_def io_return_def panics_def io_of_sum_def
      advance_example extracted_memory_def [THEN arg_cong, of mem_kv] started_memory_def bt_get_def)

text \<open>A failed extract whose alert has run: the load is blocked, and the run settles as failed.\<close>

definition alerted_memory :: "stored memory" where
  "alerted_memory = started_memory\<lparr>mem_kv :=
     [(''swale/assets/raw/none'', StoredNode (node_record_of extract_node 0 Failed)),
      (''swale/runs/orders/none'', StoredRun example_run),
      (''swale/tasks/orders/none/alert'', StoredNode (node_record_of alert_node 0 Succeeded))]\<rparr>"

definition alerted_records :: records where
  "alerted_records = [(''alert'', node_record_of alert_node 0 Succeeded), (''extract'', node_record_of extract_node 0 Failed)]"

definition failed_run :: graph_run_record where
  "failed_run = example_run\<lparr>run_state := RunFailed, run_settled_at_ms := Some 50\<rparr>"

definition failed_memory :: "stored memory" where
  "failed_memory = alerted_memory\<lparr>
     mem_kv := bt_insert ''swale/runs/orders/none'' (StoredRun failed_run) (mem_kv alerted_memory),
     mem_expiry := [(50, ''runs/orders/none'')]\<rparr>"

lemma alerted_read:
  "read_node_records example_env example_graph partition_none (example_process alerted_memory) =
     (Inr alerted_records, example_process alerted_memory)"
  by (simp add: read_node_records_def example_nodes example_node_read io_bind_def io_return_def alerted_memory_def alerted_records_def bt_get_def)

lemma alerted_states:
  "node_states example_graph (current_records example_run alerted_records) =
     Some [(''alert'', NodeSucceeded), (''extract'', NodeFailed), (''load'', NodeBlocked)]"
  by (rule node_states_one_pass) code_simp+

lemma alerted_unrecorded:
  "unrecorded_run_id example_graph partition_none example_run extract_node alerted_records = Some ''orders-none-extract-r1''"
  "unrecorded_run_id example_graph partition_none example_run load_node alerted_records = Some ''orders-none-load-r0''"
  "unrecorded_run_id example_graph partition_none example_run alert_node alerted_records = None"
  by code_simp+

lemma settle_example:
  "advance example_env example_graph partition_none example_run (StoredRun example_run) []
     (example_process alerted_memory) = (Inr (0, True), example_process failed_memory)"
proof -
  have state: "settled_state [(''alert'', NodeSucceeded), (''extract'', NodeFailed), (''load'', NodeBlocked)] = Some RunFailed"
    by code_simp
  have settled: "settled_record example_run RunFailed alerted_records = example_run\<lparr>run_state := RunFailed\<rparr>"
    by (simp add: settled_record_def example_run_def new_run_record_def)
  have effects: "settle_effects example_env ''orders'' partition_none 50 (example_run\<lparr>run_state := RunFailed\<rparr>) =
      [PutEffect ''swale/runs/orders/none'' (StoredRun failed_run), ExpiryEffect 50 ''runs/orders/none'']"
    by (simp add: settle_effects_def failed_run_def stored_codecs_def expiring_suffix_def) code_simp
  have idle: "\<not> list_ex (\<lambda>(p, s). rs_run_id s = ''orders-none-extract-r1'') (mem_submits alerted_memory)"
    "\<not> list_ex (\<lambda>(p, s). rs_run_id s = ''orders-none-load-r0'') (mem_submits alerted_memory)"
    by code_simp+
  have get: "bt_get (mem_kv alerted_memory) ''swale/runs/orders/none'' = Some (StoredRun example_run)"
    by (simp add: alerted_memory_def bt_get_def)
  have status: "wf_status (memory_backend [''default''] 50) pool rid m =
      (Inr (if list_ex (\<lambda>(p, s). rs_run_id s = rid) (mem_submits m) then Some RunLive else None), m)" for pool rid and m :: "stored memory"
    by (simp add: memory_backend_def)
  show ?thesis
    by (simp add: advance_def io_bind_def io_return_def alerted_read alerted_states panics_def io_of_sum_def
        settle_def state example_nodes alerted_unrecorded run_is_active_def status idle commit_settled_def settled effects get)
      (simp add: failed_memory_def alerted_memory_def started_memory_def)
qed

text \<open>The start, a cancel, and a rerun of the failed extract.\<close>

lemma example_hash_text: "env_hash example_env t = ''ab'' \<longleftrightarrow> t = ''orders''"
proof -
  have "definition_hash (\<lambda>bs. [0]) t \<noteq> ''ab''" by (simp add: definition_hash_def hex_digit_def)
  moreover have "t \<noteq> ''orders'' \<Longrightarrow> env_hash example_env t = definition_hash (\<lambda>bs. [0]) t"
    by (simp add: env_hash_def example_env_def definition_hash_def)
  ultimately show ?thesis using example_hash by metis
qed

lemma example_hash_graph: "env_hash example_env t = ''ab'' \<Longrightarrow> env_load example_env t = Inr g \<Longrightarrow> g = example_graph"
  using example_load by (simp only: example_hash_text sum.inject)

definition cancelled_run :: graph_run_record where
  "cancelled_run = example_run\<lparr>run_state := RunCancelled, run_settled_at_ms := Some 50\<rparr>"

definition cancelled_memory :: "stored memory" where
  "cancelled_memory = started_memory\<lparr>
     mem_kv := [(''swale/runs/orders/none'', StoredRun cancelled_run)], mem_expiry := [(50, ''runs/orders/none'')]\<rparr>"

lemma started_get: "bt_get (mem_kv started_memory) k = (if k = ''swale/runs/orders/none'' then Some (StoredRun example_run) else None)"
  by (auto simp: started_memory_def bt_get_def)

lemma cancelled_get: "bt_get (mem_kv cancelled_memory) k = (if k = ''swale/runs/orders/none'' then Some (StoredRun cancelled_run) else None)"
  by (auto simp: cancelled_memory_def bt_get_def)

lemma memory_cancel [simp]:
  "wf_cancel (memory_backend pools t) pool i reason m =
     (Inr (if list_ex (\<lambda>(p, s). rs_run_id s = i) (mem_submits m) then CancelRequested else CancelNotActive), m)"
  by (simp add: memory_backend_def)

lemma cancelled_read:
  "read_node_records example_env example_graph partition_none (example_process cancelled_memory) = (Inr [], example_process cancelled_memory)"
  by (simp add: read_node_records_def example_nodes example_node_read io_bind_def io_return_def cancelled_get)

lemma cancel_example:
  "cancel_run example_env ''orders'' partition_none (example_process started_memory) = (Inr True, example_process cancelled_memory)"
proof -
  have effects: "settle_effects example_env ''orders'' partition_none 50 (example_run\<lparr>run_state := RunCancelled\<rparr>) =
      [PutEffect ''swale/runs/orders/none'' (StoredRun cancelled_run), ExpiryEffect 50 ''runs/orders/none'']"
    by (simp add: settle_effects_def cancelled_run_def stored_codecs_def expiring_suffix_def) code_simp
  have after: "started_memory\<lparr>mem_kv := bt_insert ''swale/runs/orders/none'' (StoredRun cancelled_run) (mem_kv started_memory),
      mem_expiry := (50, ''runs/orders/none'') # mem_expiry started_memory\<rparr> = cancelled_memory"
    by (simp add: started_memory_def cancelled_memory_def)
  have unrecorded: "unrecorded_run_id example_graph partition_none run n [] =
      Some (run_id ''orders'' partition_none (node_name n) 0)" for run n
    by (simp add: unrecorded_run_id_def)
  show ?thesis
    by (simp add: cancel_run_def example_graph_run started_get io_bind_def io_return_def commit_settled_def effects after
        cancel_active_runs_def cancelled_read example_nodes cancel_node_def unrecorded Let_def)
qed

definition rerun_spec :: "stored run_spec" where
  "rerun_spec = submit_spec example_env extract_node (identity example_graph ''ab'' partition_none extract_node 1) [] []"

definition rerun_memory :: "stored memory" where
  "rerun_memory = failed_memory\<lparr>
     mem_kv := bt_insert ''swale/runs/orders/none'' (StoredRun example_run) (mem_kv failed_memory),
     mem_submits := mem_submits failed_memory @ [(''default'', rerun_spec)]\<rparr>"

lemma failed_kv:
  "mem_kv failed_memory =
     [(''swale/assets/raw/none'', StoredNode (node_record_of extract_node 0 Failed)),
      (''swale/runs/orders/none'', StoredRun failed_run),
      (''swale/tasks/orders/none/alert'', StoredNode (node_record_of alert_node 0 Succeeded))]"
  by (simp add: failed_memory_def alerted_memory_def)

lemma failed_read:
  "read_node_records example_env example_graph partition_none (example_process failed_memory) =
     (Inr alerted_records, example_process failed_memory)"
  by (simp add: read_node_records_def example_nodes example_node_read io_bind_def io_return_def failed_kv alerted_records_def bt_get_def)

lemma rerun_example:
  "rerun example_env ''orders'' partition_none ''extract'' (example_process failed_memory) =
     (Inr (RerunSubmitted ''orders-none-extract-r1''), example_process rerun_memory)"
proof -
  have run: "graph_run example_env ''swale/runs/orders/none'' (example_process failed_memory) =
      (Inr (Some (failed_run, StoredRun failed_run)), example_process failed_memory)"
    by (simp add: example_graph_run failed_kv bt_get_def)
  have failed: "run_definition failed_run = ''ab''" "failed_run \<noteq> example_run"
    by (simp_all add: failed_run_def example_run_def new_run_record_def)
  have rec1: "bt_get alerted_records ''extract'' = Some (node_record_of extract_node 0 Failed)"
    by (simp add: alerted_records_def bt_get_def)
  have active: "rerun_active example_graph extract_node failed_run (node_record_of extract_node 0 Failed) alerted_records = Some example_run"
    by (simp add: rerun_active_def node_record_of_def failed_run_def example_run_def new_run_record_def)
  have ready: "is_ready extract_node current" for current by (simp add: is_ready_def)
  have ups: "upstream_records extract_node current = []" for current by (simp add: upstream_records_def)
  have nr: "rec_definition (node_record_of extract_node 0 Failed) = ''ab''" "rec_rerun (node_record_of extract_node 0 Failed) = 0"
    by (simp_all add: node_record_of_def)
  have rid: "identity_run_id (identity example_graph ''ab'' partition_none extract_node 1) = ''orders-none-extract-r1''" by code_simp
  have get: "bt_get (mem_kv failed_memory) ''swale/runs/orders/none'' = Some (StoredRun failed_run)" by (simp add: failed_kv bt_get_def)
  have enc: "enc_run stored_codecs example_run = StoredRun example_run" by (simp add: stored_codecs_def)
  let ?m = "failed_memory\<lparr>mem_kv := bt_insert ''swale/runs/orders/none'' (StoredRun example_run) (mem_kv failed_memory)\<rparr>"
  have new: "\<not> list_ex (\<lambda>(p, s). rs_run_id s = ''orders-none-extract-r1'') (mem_submits failed_memory)" by code_simp
  have sub: "memory_submit ''default'' rerun_spec ?m = (Inr True, rerun_memory)"
    using new by (simp add: memory_submit_def rerun_spec_def rid rerun_memory_def)
  show ?thesis
    by (simp add: rerun_def rerun_with_def run io_bind_def io_return_def failed failed_read rec1 active panics_def io_of_sum_def
        ready ups nr enc get submit_node_def rid rerun_spec_def [symmetric] sub Let_def failed(2) [symmetric])
qed

text \<open>A request to cancel the run, by the worker of the requests.\<close>

definition example_request :: request where
  "example_request = CancelRequest ''orders'' partition_none"

definition example_request_record :: request_record where
  "example_request_record = \<lparr>rr_request = example_request, rr_handled_at_ms = 50, rr_outcome = CancelledOutcome\<rparr>"

definition example_job :: "stored job" where
  "example_job = \<lparr>job_id = ''r1'', job_headers = (\<lambda>k. None), job_payload = StoredPayload example_request\<rparr>"

definition requested_memory :: "stored memory" where
  "requested_memory = cancelled_memory\<lparr>
     mem_kv := [(''swale/requests/r1'', StoredRequest example_request_record), (''swale/runs/orders/none'', StoredRun cancelled_run)],
     mem_expiry := [(50, ''requests/r1''), (50, ''runs/orders/none'')]\<rparr>"

lemma request_id_example [simp]: "request_id_new ''r1'' = Inr (RequestId ''r1'')" "request_key (RequestId ''r1'') = ''swale/requests/r1''"
  by code_simp+

lemma handle_example:
  "handle_request example_env (RequestId ''r1'') example_request (example_process started_memory) =
     (Inr example_request_record, example_process requested_memory)"
proof -
  have none: "read_record (memory_backend [''default''] 50) (dec_request stored_codecs) ''swale/requests/r1'' started_memory = (Inr None, started_memory)"
    by (simp add: read_record_def io_defs started_get)
  have effects: "request_effects example_env (RequestId ''r1'') example_request_record =
      [PutEffect ''swale/requests/r1'' (StoredRequest example_request_record), ExpiryEffect 50 ''requests/r1'']"
    by (simp add: request_effects_def stored_codecs_def expiring_suffix_def example_request_record_def)
  have rec1: "request_record_of example_request 50 CancelledOutcome = example_request_record"
    by (simp add: request_record_of_def example_request_record_def)
  have commit: "commit_request example_env (RequestId ''r1'') example_request_record (example_process cancelled_memory) =
      (Inr example_request_record, example_process requested_memory)"
    by (simp add: commit_request_def io_bind_def io_return_def effects)
      (simp add: cancelled_memory_def requested_memory_def)
  have apply1: "apply_request example_env (RequestId ''r1'') example_request 50 (example_process started_memory) =
      (Inr example_request_record, example_process requested_memory)"
    using cancel_example commit rec1 by (simp add: apply_request_def example_request_def io_bind_def Let_def)
  show ?thesis
    by (simp add: handle_request_def io_bind_def none apply1)
qed

lemma process_example:
  "process_request example_env example_job (example_process started_memory) = (Inr (), example_process requested_memory)"
proof -
  have dec: "dec_payload stored_codecs (StoredPayload example_request) = Inr example_request" by (simp add: stored_codecs_def)
  show ?thesis
    by (simp add: process_request_def example_job_def io_bind_def io_return_def io_map_error_def io_of_sum_def dec handle_example)
qed

end
