(* ===== verification/Error_Text.thy ===== *)
theory Error_Text
  imports Definition_Store
begin

section \<open>The texts of the errors\<close>

text \<open>
  The messages of the errors of a definition (\<open>template.rs\<close>, \<open>graph.rs\<close>, \<open>error.rs\<close>,
  \<open>definition_store.rs\<close>), which the daemon reports as the reason of a refusal.
\<close>

definition show_template_error :: "template_error \<Rightarrow> string" where
  "show_template_error e =
     (case e of
       Unclosed i \<Rightarrow> ''`{{` at byte '' @ show_nat i @ '' is not closed''
     | UnknownReference t \<Rightarrow> ''`'' @ t @ ''` is not a template reference'')"

definition at_node :: "string \<Rightarrow> string" where
  "at_node node = ''node `'' @ node @ ''`: ''"

definition at_param :: "string \<Rightarrow> string \<Rightarrow> string" where
  "at_param node param = at_node node @ ''parameter `'' @ param @ ''` ''"

definition show_problem :: "problem \<Rightarrow> string" where
  "show_problem p =
     (case p of
       InvalidGraphName n \<Rightarrow> ''graph name `'' @ n @ ''` is not `[a-z0-9_]+`''
     | InvalidSchedule expression message \<Rightarrow>
         ''schedule `'' @ expression @ ''` is not a cron expression: '' @ message
     | ScheduleWithoutPartition \<Rightarrow> ''a graph with a schedule declares `partition` as `daily` or `hourly`''
     | ScheduleWithinPartition expression partitioning \<Rightarrow>
         ''schedule `'' @ expression @ ''` fires more than once within a `'' @ show_partitioning partitioning @ ''` partition''
     | InvalidCatchup t \<Rightarrow> ''catchup: '' @ t
     | NoNodes \<Rightarrow> ''the graph is empty''
     | AssetNodeAfter n \<Rightarrow>
         at_node n @ ''an asset node declares its upstreams with `consumes` and does not declare `after`''
     | AssetNodeTriggerRule n \<Rightarrow>
         at_node n @ ''an asset node does not declare `trigger_rule`, because its upstreams must all succeed''
     | TaskNodeConsumes n \<Rightarrow>
         at_node n @ ''a task node declares its upstreams with `after` and does not declare `consumes`''
     | DuplicateNode n \<Rightarrow> ''node `'' @ n @ ''` is defined more than once''
     | InvalidNodeName n \<Rightarrow> at_node n @ ''the name is not `[a-z0-9_]+`''
     | NamesTooLong n \<Rightarrow>
         at_node n @ ''the graph and node names exceed '' @ show_nat max_graph_and_node_name_len @ '' bytes together''
     | InvalidAssetName n asset \<Rightarrow> at_node n @ ''asset name `'' @ asset @ ''` is not `[a-z0-9_]+`''
     | DuplicateAsset asset nodes \<Rightarrow>
         ''asset `'' @ asset @ ''` is produced by more than one node: '' @ join_with '', '' nodes
     | UnknownAsset n asset \<Rightarrow> at_node n @ ''consumes `'' @ asset @ ''`, which no node produces''
     | UnknownNode n after \<Rightarrow> at_node n @ ''`after` refers to unknown node `'' @ after @ ''`''
     | UnknownOperator n operator \<Rightarrow> at_node n @ ''unknown operator `'' @ operator @ ''`''
     | InvalidParams n operator message \<Rightarrow>
         at_node n @ ''the parameters of operator `'' @ operator @ ''` are invalid: '' @ message
     | InvalidTemplate n param e \<Rightarrow> at_param n param @ ''is not a template: '' @ show_template_error e
     | UnknownTemplateUpstream n param upstream \<Rightarrow>
         at_param n param @ ''refers to `'' @ upstream @ ''`, which is not an upstream of the node''
     | ItemWithoutEach n param \<Rightarrow> at_param n param @ ''refers to `item`, and the node does not declare `each`''
     | InvalidEach n e \<Rightarrow> at_node n @ ''`each` is not a template: '' @ show_template_error e
     | EachRefersToItem n \<Rightarrow> at_node n @ ''`each` refers to `item`''
     | UnknownEachUpstream n upstream \<Rightarrow>
         at_node n @ ''`each` refers to `'' @ upstream @ ''`, which is not an upstream of the node''
     | Cycle path \<Rightarrow> ''the graph has a cycle: '' @ join_with '' -> '' path)"

text \<open>A fault is on a line of its own, indented.\<close>

definition show_load_error :: "load_error \<Rightarrow> string" where
  "show_load_error e =
     (case e of
       IoError t \<Rightarrow> ''cannot read the definition: '' @ t
     | TomlError t \<Rightarrow> ''the definition does not parse: '' @ t
     | InvalidDefinition problems \<Rightarrow>
         ''the definition is invalid:'' @ concat (map (\<lambda>p. CHR 0x0A # ''  '' @ show_problem p) problems))"

definition show_definition_error :: "definition_error \<Rightarrow> string" where
  "show_definition_error e =
     (case e of
       DefinitionObjectStore q \<Rightarrow> le_text q
     | DefinitionInvalid load \<Rightarrow> show_load_error load
     | NotText path \<Rightarrow> ''object `'' @ path @ ''` is not UTF-8 text''
     | HashMismatch hash \<Rightarrow> ''the object of definition `'' @ hash @ ''` has another hash''
     | AssetConflict asset graph \<Rightarrow> ''asset `'' @ asset @ ''` is produced by graph `'' @ graph @ ''`'')"

end
