(* ===== verification/Daemon.thy ===== *)
theory Daemon
  imports Error_Text Scheduler
begin

section \<open>The daemon (\<open>daemon.rs\<close>)\<close>

text \<open>
  A sync pass adopts the published definitions that changed and gives the cron schedules of the
  adopted graphs. The state of the daemon is the process with the keys of the refusals that were
  logged and the log of the errors. The cron scheduler is \<open>taquba-cron\<close>'s and a parameter; the loop of
  \<open>Daemon::run\<close>, which repeats the pass, is in \<open>Daemon_Run\<close>.
\<close>

datatype log_entry = DefinitionRefused string string string | CatchupUnbounded string

record ('w, 'x) daemon_state =
  dm_process :: "('w, 'x) process"
  dm_logged :: "string set"
  dm_log :: "log_entry list"

record 'x cron_schedule =
  cs_name :: string
  cs_expression :: 'x
  cs_queue :: string
  cs_headers :: "string \<Rightarrow> string option"
  cs_backfill :: "nat option"

record sync_report =
  sr_adopted :: "(string \<times> string) list"
  sr_refused :: "(string \<times> string) list"

definition triggers_queue :: string where "triggers_queue = ''swale-triggers''"

definition process_io :: "(('w, 'x) process, 'e, 'a) io \<Rightarrow> (('w, 'x) daemon_state, 'e, 'a) io" where
  "process_io m = io_lift dm_process (\<lambda>s d. d\<lparr>dm_process := s\<rparr>) m"

definition logged :: "string \<Rightarrow> log_entry \<Rightarrow> ('w, 'x) daemon_state \<Rightarrow> ('w, 'x) daemon_state" where
  "logged key entry d =
     (if key \<in> dm_logged d then d
      else d\<lparr>dm_logged := insert key (dm_logged d), dm_log := dm_log d @ [entry]\<rparr>)"

definition log_once :: "string \<Rightarrow> log_entry \<Rightarrow> (('w, 'x) daemon_state, 'e, unit) io" where
  "log_once key entry d = (Inr (), logged key entry d)"

definition refuse ::
  "sync_report \<Rightarrow> string \<Rightarrow> string \<Rightarrow> string \<Rightarrow> (('w, 'x) daemon_state, 'e, sync_report) io" where
  "refuse rep name hash reason =
     io_bind (log_once hash (DefinitionRefused name hash reason)) (\<lambda>u.
       io_return (rep\<lparr>sr_refused := sr_refused rep @ [(name, reason)]\<rparr>))"

subsection \<open>The check of a definition\<close>

text \<open>The reason to refuse a graph as the definition of the pointer \<open>name\<close>.\<close>

fun check_assets :: "string \<Rightarrow> 'x graph \<Rightarrow> (string, 'x graph) btree \<Rightarrow> string + unit" where
  "check_assets name g [] = Inr ()"
| "check_assets name g ((other, h) # others) =
     (if other = name then check_assets name g others
      else case conflicting_asset g h of
        Some n \<Rightarrow> Inl (''node `'' @ node_name n @ ''`: asset `'' @ (case node_asset n of None \<Rightarrow> [] | Some a \<Rightarrow> a) @
          ''` is produced by graph `'' @ other @ ''`'')
      | None \<Rightarrow> check_assets name g others)"

definition daemon_check ::
  "('w, 'b, 'x, 'r) env \<Rightarrow> string \<Rightarrow> 'x graph \<Rightarrow> (string, 'x graph) btree \<Rightarrow> string + unit" where
  "daemon_check en name g graphs =
     (if gr_name g \<noteq> name then Inl (''the definition is of graph `'' @ gr_name g @ ''`'')
      else case find (\<lambda>n. \<not> pool_exists (en_backend en) (node_pool n)) (gr_nodes g) of
        Some n \<Rightarrow> Inl (''node `'' @ node_name n @ ''`: pool `'' @ node_pool n @ ''` does not have a runtime'')
      | None \<Rightarrow> check_assets name g graphs)"

subsection \<open>A sync pass\<close>

definition adopt ::
  "('w, 'b, 'x, 'r) env \<Rightarrow> string \<Rightarrow> string \<Rightarrow> (('w, 'x) process, scheduler_error, unit) io" where
  "adopt en hash name =
     io_bind (clock_io en) (\<lambda>t.
       queue_io (kv_put (en_backend en) (graph_key name)
         (enc_graph (en_codecs en) \<lparr>adopted_definition = hash, adopted_at_ms = t\<rparr>)))"

text \<open>Loading the adopted graphs: the loaded ones, and the pointers that differ from their record.\<close>

definition load_adopted ::
  "('w, 'b, 'x, 'r) env \<Rightarrow> string \<times> string \<Rightarrow> (string, 'x graph) btree \<times> (string \<times> string) list \<Rightarrow>
   (('w, 'x) process, scheduler_error, (string, 'x graph) btree \<times> (string \<times> string) list) io" where
  "load_adopted en = (\<lambda>(name, hash) (graphs, pending).
     io_bind (read_graph_record en name) (\<lambda>record.
       io_bind (case record of
           None \<Rightarrow> io_return None
         | Some r \<Rightarrow> io_map_error DefinitionError (definition_get en (adopted_definition r))) (\<lambda>loaded.
         io_return (case loaded of None \<Rightarrow> graphs | Some g \<Rightarrow> bt_insert name g graphs,
           if map_option adopted_definition record \<noteq> Some hash then pending @ [(name, hash)] else pending))))"

definition adopt_pending ::
  "('w, 'b, 'x, 'r) env \<Rightarrow> string \<times> string \<Rightarrow> sync_report \<times> (string, 'x graph) btree \<Rightarrow>
   (('w, 'x) daemon_state, scheduler_error, sync_report \<times> (string, 'x graph) btree) io" where
  "adopt_pending en = (\<lambda>(name, hash) (rep, graphs).
     io_bind (io_try (process_io (definition_get en hash))) (\<lambda>r.
       case r of
         Inl e \<Rightarrow> io_bind (refuse rep name hash (show_definition_error e)) (\<lambda>rep'. io_return (rep', graphs))
       | Inr None \<Rightarrow> io_bind (refuse rep name hash ''the definition object is absent'') (\<lambda>rep'. io_return (rep', graphs))
       | Inr (Some g) \<Rightarrow>
           (case daemon_check en name g graphs of
             Inl reason \<Rightarrow> io_bind (refuse rep name hash reason) (\<lambda>rep'. io_return (rep', graphs))
           | Inr u \<Rightarrow>
               io_bind (process_io (adopt en hash name)) (\<lambda>u.
                 io_return (rep\<lparr>sr_adopted := sr_adopted rep @ [(name, hash)]\<rparr>, bt_insert name g graphs)))))"

definition schedule_of :: "'x graph \<Rightarrow> 'x cron_schedule option" where
  "schedule_of g =
     (case gr_schedule g of
       None \<Rightarrow> None
     | Some x \<Rightarrow> Some \<lparr>cs_name = gr_name g, cs_expression = x, cs_queue = triggers_queue,
         cs_headers = firing_headers (gr_name g), cs_backfill = gr_catchup g\<rparr>)"

definition sync ::
  "('w, 'b, 'x, 'r) env \<Rightarrow> (('w, 'x) daemon_state, scheduler_error, sync_report \<times> 'x cron_schedule list) io" where
  "sync en =
     io_bind (process_io (io_map_error DefinitionError (definition_current en))) (\<lambda>current.
       io_bind (process_io (io_fold (load_adopted en) current ([], []))) (\<lambda>(graphs, pending).
         io_bind (io_fold (adopt_pending en) pending (\<lparr>sr_adopted = [], sr_refused = []\<rparr>, graphs)) (\<lambda>(rep, graphs').
           io_return (rep, List.map_filter (\<lambda>(name, g). schedule_of g) graphs'))))"

subsection \<open>The registration of the schedules\<close>

text \<open>
  The cron scheduler, on its state \<open>'c\<close>: it applies a whole set of schedules, or rejects one of them
  for its catch-up window, or fails. The loop removes the schedule that was rejected and tries
  again, so it may not end when the scheduler names no schedule of the set.
\<close>

datatype cron_refusal = UnboundedStart string | OtherRefusal

partial_function (option) daemon_register ::
  "('c \<Rightarrow> 'x cron_schedule list \<Rightarrow> cron_refusal option \<times> 'c) \<Rightarrow> 'x cron_schedule list \<Rightarrow> 'c \<Rightarrow> ('w, 'x) daemon_state \<Rightarrow>
   ('c \<times> ('w, 'x) daemon_state) option" where
  "daemon_register replace_all schedules c d =
     (case replace_all c schedules of
       (None, c') \<Rightarrow> Some (c', d)
     | (Some OtherRefusal, c') \<Rightarrow> Some (c', d)
     | (Some (UnboundedStart graph), c') \<Rightarrow>
         daemon_register replace_all (filter (\<lambda>s. cs_name s \<noteq> graph) schedules) c'
           (logged (''cron/'' @ graph) (CatchupUnbounded graph) d))"

end
