(* ===== verification/Daemon_Correct.thy ===== *)
theory Daemon_Correct
  imports Daemon Scheduler_Examples
begin

section \<open>The daemon: adopted definitions\<close>

text \<open>
  What a sync pass adopts, and the contract of the pass with the store, which the system uses.
\<close>

subsection \<open>The graphs of a pass do not share an asset\<close>

text \<open>The graphs are under their own name, and no asset is produced by two of them.\<close>

definition graphs_apart :: "(string, 'x graph) btree \<Rightarrow> bool" where
  "graphs_apart graphs \<longleftrightarrow>
     bt_wf graphs \<and> (\<forall>name g. bt_get graphs name = Some g \<longrightarrow> gr_name g = name \<and>
       (\<forall>other h. bt_get graphs other = Some h \<longrightarrow> other \<noteq> name \<longrightarrow> conflicting_asset g h = None))"

lemma conflicting_asset_sym: "conflicting_asset g h = None \<longleftrightarrow> conflicting_asset h g = None"
  unfolding conflicting_asset_iff by metis

lemma check_assets_iff:
  "check_assets name g graphs = Inr () \<longleftrightarrow>
     (\<forall>(other, h) \<in> set graphs. other \<noteq> name \<longrightarrow> conflicting_asset g h = None)"
  by (induction name g graphs rule: check_assets.induct) (auto split: option.split)

lemma find_Some_mem: "find P xs = Some x \<Longrightarrow> x \<in> set xs \<and> P x"
  by (auto simp: find_Some_iff)

lemma daemon_check_iff:
  "daemon_check en name g graphs = Inr () \<longleftrightarrow>
     gr_name g = name \<and> (\<forall>n \<in> set (gr_nodes g). pool_exists (en_backend en) (node_pool n)) \<and>
     (\<forall>(other, h) \<in> set graphs. other \<noteq> name \<longrightarrow> conflicting_asset g h = None)"
  by (auto simp: daemon_check_def check_assets_iff find_None_iff split: option.split dest!: find_Some_mem)

lemma graphs_apart_insert:
  assumes apart: "graphs_apart graphs" and check: "daemon_check en name g graphs = Inr ()"
  shows "graphs_apart (bt_insert name g graphs)"
proof -
  have wf: "bt_wf graphs" using apart by (simp add: graphs_apart_def)
  then have "bt_wf (bt_insert name g graphs)" by (rule bt_insert_wf)
  moreover have "conflicting_asset g h = None" "conflicting_asset h g = None"
    if "bt_get graphs other = Some h" "other \<noteq> name" for other h
    using check that conflicting_asset_sym bt_wf_get [OF wf, of other h] unfolding daemon_check_iff by blast+
  moreover have "gr_name g = name" using check by (simp add: daemon_check_iff)
  ultimately show ?thesis using apart by (simp add: graphs_apart_def bt_insert_get)
qed

text \<open>One published definition: it is adopted, or refused with the graphs as they are.\<close>

lemma log_once_Inr [simp]: "log_once key entry d = (r, d') \<longleftrightarrow> r = Inr () \<and> d' = logged key entry d"
  by (auto simp: log_once_def)

lemma refuse_Inr: "refuse rep name hash reason d = (r, d') \<Longrightarrow> r = Inr (rep\<lparr>sr_refused := sr_refused rep @ [(name, reason)]\<rparr>)"
  by (auto simp: refuse_def io_defs log_once_def)

lemma adopt_pending_result:
  assumes "adopt_pending en (name, hash) (rep, graphs) d = (Inr (rep', graphs'), d')"
  shows "graphs' = graphs \<and> (\<exists>reason. rep' = rep\<lparr>sr_refused := sr_refused rep @ [(name, reason)]\<rparr>) \<or>
    (\<exists>g. daemon_check en name g graphs = Inr () \<and> graphs' = bt_insert name g graphs \<and>
       rep' = rep\<lparr>sr_adopted := sr_adopted rep @ [(name, hash)]\<rparr>)"
proof -
  obtain r d1 where r: "process_io (definition_get en hash) d = (r, d1)" by fastforce
  have refused: ?thesis if "io_bind (refuse rep name hash reason) (\<lambda>rep'. io_return (rep', graphs)) d1 = (Inr (rep', graphs'), d')"
    for reason
    using that by (auto simp: io_bind_Inr dest!: refuse_Inr)
  note step = assms [unfolded adopt_pending_def split io_bind_Inr io_try_result]
  show ?thesis
  proof (cases r)
    case (Inl e)
    then show ?thesis using step r refused by auto
  next
    case (Inr v)
    show ?thesis
    proof (cases v)
      case None
      then show ?thesis using step r Inr refused by auto
    next
      case (Some g)
      then show ?thesis
        using step r Inr refused by (cases "daemon_check en name g graphs") (auto simp: io_bind_Inr)
    qed
  qed
qed

lemma io_fold_rel:
  assumes "\<And>st. R st st" and "\<And>st st' st''. R st st' \<Longrightarrow> R st' st'' \<Longrightarrow> R st st''"
    and "\<And>x st d st' d'. x \<in> set xs \<Longrightarrow> f x st d = (Inr st', d') \<Longrightarrow> R st st'"
    and "io_fold f xs st d = (Inr st', d')"
  shows "R st st'"
  using assms(3,4)
proof (induction xs arbitrary: st d)
  case (Cons x xs)
  then obtain st1 d1 where "f x st d = (Inr st1, d1)" "io_fold f xs st1 d1 = (Inr st', d')"
    by (auto simp: io_bind_Inr)
  then show ?case using Cons assms(2) by (metis list.set_intros(1,2))
qed (simp add: assms(1))

lemma adopt_fold_apart:
  "io_fold (adopt_pending en) pending st d = (Inr st', d') \<Longrightarrow> graphs_apart (snd st) \<Longrightarrow> graphs_apart (snd st')"
  by (rule io_fold_rel [where R = "\<lambda>st st'. graphs_apart (snd st) \<longrightarrow> graphs_apart (snd st')", THEN mp])
    (auto dest!: adopt_pending_result intro: graphs_apart_insert)

lemma adopt_fold_pools:
  assumes "io_fold (adopt_pending en) pending st d = (Inr st', d')" and "bt_get (snd st') name = Some g"
  shows "bt_get (snd st) name = Some g \<or> (\<forall>n \<in> set (gr_nodes g). pool_exists (en_backend en) (node_pool n))"
proof -
  have "\<forall>name g. bt_get (snd st') name = Some g \<longrightarrow>
      bt_get (snd st) name = Some g \<or> (\<forall>n \<in> set (gr_nodes g). pool_exists (en_backend en) (node_pool n))"
    by (rule io_fold_rel [OF _ _ _ assms(1), where R = "\<lambda>st st'. \<forall>name g. bt_get (snd st') name = Some g \<longrightarrow>
      bt_get (snd st) name = Some g \<or> (\<forall>n \<in> set (gr_nodes g). pool_exists (en_backend en) (node_pool n))"],
        simp, blast, auto dest!: adopt_pending_result simp: daemon_check_iff bt_insert_get split: if_splits)
  then show ?thesis using assms(2) by blast
qed

lemma adopt_fold_report:
  assumes "io_fold (adopt_pending en) pending (rep, graphs) d = (Inr (rep', graphs'), d')"
  shows "\<exists>adopted refused. sr_adopted rep' = sr_adopted rep @ adopted \<and> sr_refused rep' = sr_refused rep @ refused \<and>
     length adopted + length refused = length pending \<and> set adopted \<subseteq> set pending \<and>
     (\<forall>name. name \<notin> fst ` set adopted \<longrightarrow> bt_get graphs' name = bt_get graphs name)"
  using assms
proof (induction pending arbitrary: rep graphs d)
  case (Cons x pending)
  obtain name hash where x: "x = (name, hash)" by (cases x)
  obtain rep1 graphs1 d1 where first: "adopt_pending en (name, hash) (rep, graphs) d = (Inr (rep1, graphs1), d1)"
    and rest: "io_fold (adopt_pending en) pending (rep1, graphs1) d1 = (Inr (rep', graphs'), d')"
    using Cons.prems(1) by (auto simp: x io_bind_Inr)
  from Cons.IH [OF rest] obtain adopted refused where IH:
    "sr_adopted rep' = sr_adopted rep1 @ adopted" "sr_refused rep' = sr_refused rep1 @ refused"
    "length adopted + length refused = length pending" "set adopted \<subseteq> set pending"
    "\<And>m. m \<notin> fst ` set adopted \<Longrightarrow> bt_get graphs' m = bt_get graphs1 m" by blast
  from adopt_pending_result [OF first] show ?case
  proof (elim disjE conjE exE)
    fix reason
    assume "graphs1 = graphs" "rep1 = rep\<lparr>sr_refused := sr_refused rep @ [(name, reason)]\<rparr>"
    then show ?thesis using IH by (intro exI [of _ adopted] exI [of _ "(name, reason) # refused"]) auto
  next
    fix g
    assume "graphs1 = bt_insert name g graphs" "rep1 = rep\<lparr>sr_adopted := sr_adopted rep @ [(name, hash)]\<rparr>"
    then show ?thesis using IH
      by (intro exI [of _ "(name, hash) # adopted"] exI [of _ refused]) (auto simp: x bt_insert_get)
  qed
qed simp


subsection \<open>A pass among the workers\<close>

text \<open>The pass writes what the workers may write, keeps the cache and does not panic.\<close>

interpretation daemon: io_contract "\<lambda>d d'. store_later en obs (dm_process d) (dm_process d')" "\<lambda>d. cache_ok en (dm_process d)"
  for en obs
  by standard (blast intro: sched.R_refl sched.R_trans)+

definition daemon_contract ::
  "('w, 'b, 'x, 'r) env \<Rightarrow> ('w \<Rightarrow> 'b obs) \<Rightarrow> (('w, 'x) daemon_state, scheduler_error, 'a) io \<Rightarrow> bool" where
  "daemon_contract en obs m \<longleftrightarrow>
     io_meets (\<lambda>d. cache_ok en (dm_process d)) (\<lambda>d d'. store_later en obs (dm_process d) (dm_process d')) m
       (\<lambda>a. True) (\<lambda>e. e \<noteq> Panicked)"

lemma process_meets:
  assumes "io_meets (cache_ok en) (store_later en obs) m Q E"
  shows "io_meets (\<lambda>d. cache_ok en (dm_process d)) (\<lambda>d d'. store_later en obs (dm_process d) (dm_process d')) (process_io m) Q E"
  using assms unfolding io_meets_def process_io_def io_lift_def by (fastforce split: prod.splits)

lemma daemon_contract_process: "keeps_contract en obs m (\<lambda>a. True) \<Longrightarrow> daemon_contract en obs (process_io m)"
  unfolding daemon_contract_def keeps_contract_def by (rule process_meets)

lemma daemon_contract_intros:
  "daemon_contract en obs (io_return a)"
  "daemon_contract en obs m \<Longrightarrow> (\<And>a. daemon_contract en obs (f a)) \<Longrightarrow> daemon_contract en obs (io_bind m f)"
  "(\<And>a b. daemon_contract en obs (g a b)) \<Longrightarrow> daemon_contract en obs (io_fold g as b)"
  unfolding daemon_contract_def
  by (rule daemon.meets_return, simp) (rule daemon.meets_bind, assumption, blast, rule daemon.meets_fold, simp_all)

lemma daemon_contract_refuse: "daemon_contract en obs (refuse rep name hash reason)"
proof -
  have "daemon_contract en obs (log_once hash (DefinitionRefused name hash reason))"
    unfolding daemon_contract_def by (rule daemon.meetsI) (auto simp: log_once_def logged_def sched.R_refl)
  then show ?thesis unfolding refuse_def by (intro daemon_contract_intros)
qed

lemma contract_adopt: "env_ok en obs \<Longrightarrow> keeps_contract en obs (adopt en hash name) (\<lambda>u. True)"
  unfolding adopt_def
  by (intro contract_bind [OF contract_clock] contract_queue
      writes_step [OF backend_writes(1) [OF env_ok_backend] below_refl] store_step_star step_adopt)

lemma contract_load_adopted:
  assumes ok: "env_ok en obs"
  shows "keeps_contract en obs (load_adopted en x st) (\<lambda>st'. True)"
proof -
  have got: "keeps_contract en obs (io_map_error DefinitionError (definition_get en h)) (\<lambda>v. True)" for h
    unfolding keeps_contract_def
    by (rule sched.meets_map_error, rule sched.meets_weaken [OF meets_definition_get [OF ok]]) simp_all
  show ?thesis
    unfolding load_adopted_def
    by (cases x; cases st)
      (auto intro!: contract_bind [OF contract_graph_record [OF ok]] contract_bind [where P = "\<lambda>v. True"] got contract_return
        split: option.split)
qed

lemma contract_current:
  assumes "env_ok en obs"
  shows "keeps_contract en obs (io_map_error DefinitionError (definition_current en)) (\<lambda>v. True)"
  unfolding keeps_contract_def
  using quiet_current [OF env_ok_backend [OF assms]]
  by (intro sched.meets_map_error) (auto simp: io_meets_def io_keeps_def quiet_def store_later_def split: sum.split)

lemma daemon_contract_pending:
  assumes ok: "env_ok en obs"
  shows "daemon_contract en obs (adopt_pending en x st)"
proof -
  obtain name hash rep graphs where x: "x = (name, hash)" and st: "st = (rep, graphs)" by (cases x; cases st) blast
  have refused: "daemon_contract en obs (io_bind (refuse rep name hash reason) (\<lambda>rep'. io_return (rep', graphs)))" for reason
    by (intro daemon_contract_intros daemon_contract_refuse)
  have "daemon_contract en obs (io_try (process_io (definition_get en hash)))"
    unfolding daemon_contract_def
    by (rule daemon.meets_weaken [OF daemon.meets_try [OF process_meets [OF meets_definition_get [OF ok]]]]) simp_all
  then show ?thesis
    unfolding adopt_pending_def x st split
    by (rule daemon_contract_intros)
      (auto intro!: refused daemon_contract_intros daemon_contract_process contract_adopt [OF ok] split: sum.split option.split)
qed

lemma daemon_contract_sync:
  assumes ok: "env_ok en obs"
  shows "daemon_contract en obs (sync en)"
  unfolding sync_def
  by (auto intro!: daemon_contract_intros daemon_contract_process contract_current [OF ok] daemon_contract_pending [OF ok]
      contract_True [OF contract_fold [where P = "\<lambda>st. True"]] contract_load_adopted [OF ok] split: prod.split)

subsection \<open>The registration ends\<close>

text \<open>When the cron scheduler rejects a schedule of the set it was given, the registration ends: every
  round removes a schedule.\<close>

lemma daemon_register_returns:
  assumes "\<And>c xs c' name. replace_all c xs = (Some (UnboundedStart name), c') \<Longrightarrow> name \<in> cs_name ` set xs"
  shows "\<exists>c' d'. daemon_register replace_all schedules c d = Some (c', d')"
proof (induction "length schedules" arbitrary: schedules c d rule: less_induct)
  case less
  show ?case
  proof (cases "\<exists>name c'. replace_all c schedules = (Some (UnboundedStart name), c')")
    case True
    then obtain name c' where r: "replace_all c schedules = (Some (UnboundedStart name), c')" by blast
    then have "length (filter (\<lambda>s. cs_name s \<noteq> name) schedules) < length schedules"
      using assms [OF r] by (auto intro: length_filter_less)
    then show ?thesis using less by (subst daemon_register.simps) (simp add: r)
  next
    case False
    then show ?thesis
      by (subst daemon_register.simps) (auto split: prod.split option.split cron_refusal.split)
  qed
qed

subsection \<open>A concrete pass\<close>

text \<open>The definition of the graph \<open>orders\<close> is adopted, and refused as the one of another graph.\<close>

definition example_daemon :: "stored memory \<Rightarrow> (stored memory, nat) daemon_state" where
  "example_daemon m = \<lparr>dm_process = example_process m, dm_logged = {}, dm_log = []\<rparr>"

lemma example_get: "definition_get example_env ''ab'' (example_process m) = (Inr (Some example_graph), example_process m)"
  by (simp add: definition_get_def cached_graph_def example_process_def io_defs)

lemma example_names: "gr_name example_graph = ''orders''" "list_all (\<lambda>n. node_pool n = ''default'') (gr_nodes example_graph)"
  by code_simp+

lemma example_check:
  "daemon_check example_env ''orders'' example_graph [] = Inr ()"
  "\<exists>reason. daemon_check example_env ''other'' example_graph graphs = Inl reason"
  using example_names by (auto simp: daemon_check_iff list_all_iff) (simp add: daemon_check_def)

lemma example_pass:
  "\<exists>rep d'. io_fold (adopt_pending example_env) [(''orders'', ''ab''), (''other'', ''ab'')]
     (\<lparr>sr_adopted = [], sr_refused = []\<rparr>, []) (example_daemon empty_memory) = (Inr (rep, [(''orders'', example_graph)]), d')"
proof -
  obtain reason where reason: "daemon_check example_env ''other'' example_graph [(''orders'', example_graph)] = Inl reason"
    using example_check(2) by blast
  have put: "kv_put (memory_backend pools t) k v m = (Inr (), memory_effect (PutEffect k v) m)" for pools t k v and m :: "stored memory"
    by (simp add: memory_backend_def)
  show ?thesis
    by (simp add: adopt_pending_def example_daemon_def process_io_def io_lift_def io_bind_def io_try_def io_return_def
        example_get example_check(1) reason refuse_def log_once_def logged_def adopt_def put)
qed


end
