(* ===== verification/System.thy ===== *)
theory System
  imports Requests Retention Hook Scheduler_Runs Daemon_Correct
begin

section \<open>The system: the workers over one store\<close>

text \<open>
  A step of the system is one job handled by one worker of the scheduler, a pass of the reconciler,
  a sync pass of the daemon or a write of another part of the program (the hook, the retention pass). Between the calls of a job the other workers write to the store. The invariant of the
  expiry index holds in every state the system reaches, and no job panics.
\<close>

inductive worker_step ::
  "('w, 'b, 'x, 'r) env \<Rightarrow> ('w \<Rightarrow> 'b obs) \<Rightarrow> ('w, 'x) process \<Rightarrow> ('w, 'x) process \<Rightarrow> bool"
  for en obs where
  work_event: "process_event en job s = (r, s') \<Longrightarrow> worker_step en obs s s'"
| work_trigger: "process_trigger en job s = (r, s') \<Longrightarrow> worker_step en obs s s'"
| work_request: "process_request en job s = (r, s') \<Longrightarrow> worker_step en obs s s'"
| work_reconcile: "reconcile en s = (r, s') \<Longrightarrow> worker_step en obs s s'"
| work_start: "start_run en hash p s = (r, s') \<Longrightarrow> worker_step en obs s s'"
| work_sync: "sync en d = (r, d') \<Longrightarrow> worker_step en obs (dm_process d) (dm_process d')"
| work_other: "store_step en (obs (st_world s)) (obs w) \<Longrightarrow> worker_step en obs s (s\<lparr>st_world := w\<rparr>)"

inductive_cases worker_stepE: "worker_step en obs s s'"

lemma contract_step:
  assumes "keeps_contract en obs m Q" and "cache_ok en s" and "m s = (r, s')"
  shows "cache_ok en s' \<and> (store_step en)\<^sup>*\<^sup>* (obs (st_world s)) (obs (st_world s')) \<and> r \<noteq> Inl Panicked"
  using sched.meetsE [OF assms(1) [unfolded keeps_contract_def] assms(2)] assms(3)
  by (cases r) (auto simp: store_later_def later_def)

lemma map_error_unit:
  "io_bind (io_map_error f m) (\<lambda>x. io_return ()) s = (r, s') \<longleftrightarrow>
     (\<exists>q. m s = (q, s') \<and> r = (case q of Inl e \<Rightarrow> Inl (f e) | Inr a \<Rightarrow> Inr ()))"
  by (auto simp: io_defs split: prod.splits sum.splits)

text \<open>A worker's error is that of its operation, or of the payload of its job.\<close>

lemma worker_step_event:
  assumes "env_ok en obs" "cache_ok en s" "process_event en job s = (r, s')"
  shows "cache_ok en s' \<and> (store_step en)\<^sup>*\<^sup>* (obs (st_world s)) (obs (st_world s')) \<and> r \<noteq> Inl (Retried Panicked)"
proof (cases "dec_event (en_codecs en) (job_payload job)")
  case (Inl e)
  then show ?thesis using assms(2,3) by (auto simp: process_event_def io_map_error_result elim!: io_bind_cases)
next
  case (Inr ev)
  then obtain q where "handle_event en ev s = (q, s')" and r: "r = (case q of Inl e \<Rightarrow> Inl (worker_error_of e) | Inr a \<Rightarrow> Inr a)"
    using assms(3) by (auto simp: process_event_def io_map_error_result elim!: io_bind_cases)
  then show ?thesis
    using contract_step [OF contract_event [OF assms(1)] assms(2)] by (auto simp: worker_error_of_def split: sum.splits)
qed

lemma worker_step_trigger:
  assumes "env_ok en obs" "cache_ok en s" "process_trigger en job s = (r, s')"
  shows "cache_ok en s' \<and> (store_step en)\<^sup>*\<^sup>* (obs (st_world s)) (obs (st_world s')) \<and> r \<noteq> Inl (Retried Panicked)"
proof (cases "job_headers job header_graph")
  case None
  then show ?thesis using assms(2,3) by (simp add: process_trigger_def)
next
  case (Some name)
  then obtain q where "handle_trigger en name (Option.bind (job_headers job previous_fire_ms_header) (parse_unsigned u64_max)) s = (q, s')"
    and r: "r = (case q of Inl e \<Rightarrow> Inl (worker_error_of e) | Inr a \<Rightarrow> Inr ())"
    using assms(3) by (auto simp: process_trigger_def map_error_unit)
  then show ?thesis
    using contract_step [OF contract_trigger [OF assms(1)] assms(2)] by (auto simp: worker_error_of_def split: sum.splits)
qed

lemma worker_step_request:
  assumes "env_ok en obs" "cache_ok en s" "process_request en job s = (r, s')"
  shows "cache_ok en s' \<and> (store_step en)\<^sup>*\<^sup>* (obs (st_world s)) (obs (st_world s')) \<and> r \<noteq> Inl (Retried Panicked)"
proof (cases "request_id_new (job_id job)")
  case (Inl e)
  then show ?thesis using assms(2,3) by (cases e) (simp add: process_request_def)
next
  case (Inr i)
  show ?thesis
  proof (cases "dec_payload (en_codecs en) (job_payload job)")
    case (Inl e)
    then show ?thesis
      using assms(2,3) \<open>request_id_new (job_id job) = Inr i\<close>
      by (auto simp: process_request_def io_map_error_result elim!: io_bind_cases)
  next
    case (Inr req)
    then obtain q where "handle_request en i req s = (q, s')"
      and r: "r = (case q of Inl e \<Rightarrow> Inl (worker_error_of e) | Inr a \<Rightarrow> Inr ())"
      using assms(3) \<open>request_id_new (job_id job) = Inr i\<close>
      by (auto simp: process_request_def io_map_error_result map_error_unit elim!: io_bind_cases [where m = "io_map_error _ (io_of_sum _)"])
    then show ?thesis
      using contract_step [OF contract_request [OF assms(1)] assms(2)] by (auto simp: worker_error_of_def split: sum.splits)
  qed
qed

lemma worker_step_sync:
  assumes "env_ok en obs" "cache_ok en (dm_process d)" "sync en d = (r, d')"
  shows "cache_ok en (dm_process d') \<and>
    (store_step en)\<^sup>*\<^sup>* (obs (st_world (dm_process d))) (obs (st_world (dm_process d'))) \<and> r \<noteq> Inl Panicked"
  using daemon.meetsD [OF daemon_contract_sync [OF assms(1), unfolded daemon_contract_def] assms(2,3)]
  by (auto simp: store_later_def later_def)

lemma worker_step_steps:
  assumes ok: "env_ok en obs" and "worker_step en obs s s'" and cache: "cache_ok en s"
  shows "cache_ok en s' \<and> (store_step en)\<^sup>*\<^sup>* (obs (st_world s)) (obs (st_world s'))"
  using assms(2)
proof cases
  case (work_event job r)
  then show ?thesis using worker_step_event [OF ok cache] by blast
next
  case (work_trigger job r)
  then show ?thesis using worker_step_trigger [OF ok cache] by blast
next
  case (work_request job r)
  then show ?thesis using worker_step_request [OF ok cache] by blast
next
  case (work_reconcile r)
  then show ?thesis using contract_step [OF contract_reconcile [OF ok] cache] by blast
next
  case (work_start hash p r)
  then show ?thesis using contract_step [OF contract_start_run [OF ok] cache] by blast
next
  case (work_sync d r d')
  then show ?thesis using worker_step_sync [OF ok] cache by blast
next
  case (work_other w)
  then show ?thesis using cache store_step_star by simp
qed

lemma expiry_inv_steps:
  assumes "codecs_ok (en_codecs en)" and "(store_step en)\<^sup>*\<^sup>* o1 o2" and "expiry_inv en o1"
  shows "expiry_inv en o2"
  using assms(2,3) by induction (auto intro: expiry_inv_step [OF assms(1)])



text \<open>A run that is started and then cancelled by a request.\<close>

lemma example_worker_steps:
  "(worker_step example_env memory_obs)\<^sup>*\<^sup>* (example_process empty_memory) (example_process requested_memory)"
proof -
  have "worker_step example_env memory_obs (example_process empty_memory) (example_process started_memory)"
    by (rule work_start [OF start_example])
  moreover have "worker_step example_env memory_obs (example_process started_memory) (example_process requested_memory)"
    by (rule work_request [OF process_example])
  ultimately show ?thesis
    by (meson rtranclp.simps)
qed

lemma example_empty_inv: "expiry_inv example_env (memory_obs (st_world (example_process empty_memory)))"
  by (simp add: expiry_inv_def empty_memory_def)



end
