(* ===== verification/Scheduler_Properties.thy ===== *)
theory Scheduler_Properties
  imports Scheduler_Runs
begin

section \<open>Properties of the scheduler's operations\<close>

subsection \<open>The submits of a pass\<close>

text \<open>C31. A pass over the candidates of a graph run submits the run of a candidate when the node has
  no current record and its trigger rule holds, and no other run: every new submit is the run spec
  of a ready candidate, the count is the number of new submits, and after the pass the run of every
  ready candidate has been submitted.\<close>

theorem advance_submits_ready:
  assumes "by_itself en obs" and "wf_graph g" and "set ns \<subseteq> set (gr_nodes g)"
    and "advance en g p run bs ns s = (Inr (k, settled), s')"
  shows "\<exists>specs. ob_submits (obs (st_world s')) = ob_submits (obs (st_world s)) @ specs \<and> length specs = k \<and>
     (\<forall>x \<in> set specs. \<exists>n \<in> set ns. ready_now en (obs (st_world s)) g p run n \<and>
        x = (node_pool n, ready_spec en (obs (st_world s)) g p run n)) \<and>
     (\<forall>n \<in> set ns. ready_now en (obs (st_world s)) g p run n \<longrightarrow>
        run_submitted (rs_run_id (ready_spec en (obs (st_world s)) g p run n)) (obs (st_world s')))"
  using assms by (rule advance_submits)

theorem advance_submits_ready_witness:
  "run_submitted (rs_run_id load_spec) (memory_obs loading_memory)"
proof -
  have "set [alert_node, load_node] \<subseteq> set (gr_nodes example_graph)" by (auto simp: example_nodes)
  from advance_submits_ready [OF by_itself_example example_wf this advance_example] load_ready show ?thesis
    by (elim exE conjE) (simp add: load_spec_def)
qed



text \<open>C32. The run that a pass submits for a ready node carries what the node needs: its input decodes to
  the operator of the node and, for every node of the graph, the output of its current record when
  it is an upstream that succeeded and nothing otherwise; its headers identify the task instance;
  and its rerun count is one more than that of the record, or zero.\<close>

theorem submitted_input:
  assumes "codecs_ok (en_codecs en)" and "wf_graph g" and "n \<in> set (gr_nodes g)"
  shows "(\<exists>i. dec_input (en_codecs en) (rs_input (ready_spec en o1 g p run n)) = Inr i \<and> in_operator i = node_operator n \<and>
       (\<forall>m \<in> set (gr_nodes g). bt_get (in_inputs i) (node_name m) =
         (case stored_record en o1 g p m of
           Some r \<Rightarrow> if node_name m \<in> set (nd_upstreams n) \<and> is_current run (node_name m) r \<and> rec_status r = Succeeded
             then Some (case rec_output r of None \<Rightarrow> JNull | Some v \<Rightarrow> v) else None
         | None \<Rightarrow> None))) \<and>
     (let i = identity g (run_definition run) p n
          (case stored_record en o1 g p n of None \<Rightarrow> 0 | Some r \<Rightarrow> rec_rerun r + 1)
      in rs_headers (ready_spec en o1 g p run n) = headers i \<and> rs_run_id (ready_spec en o1 g p run n) = identity_run_id i)"
proof (intro conjI exI [of _ "task_input_new (en_params_json en) n
    (upstream_records n (current_records run (stored_records en o1 g p)))"] ballI)
  let ?rs = "stored_records en o1 g p"
  let ?i = "task_input_new (en_params_json en) n (upstream_records n (current_records run ?rs))"
  show "dec_input (en_codecs en) (rs_input (ready_spec en o1 g p run n)) = Inr ?i"
    using assms(1) by (simp add: ready_spec_def submit_spec_def codecs_ok_def Let_def)
  show "in_operator ?i = node_operator n" by (simp add: task_input_new_def split: prod.split)
  fix m
  assume m: "m \<in> set (gr_nodes g)"
  show "bt_get (in_inputs ?i) (node_name m) =
      (case stored_record en o1 g p m of
         Some r \<Rightarrow> if node_name m \<in> set (nd_upstreams n) \<and> is_current run (node_name m) r \<and> rec_status r = Succeeded
           then Some (case rec_output r of None \<Rightarrow> JNull | Some v \<Rightarrow> v) else None
       | None \<Rightarrow> None)"
    by (auto simp: task_input_new_inputs [OF upstream_records_wf] upstream_records_get current_records_get [OF stored_records_wf]
        stored_records_get [OF assms(2) m] split: option.split)
qed (simp add: ready_spec_def submit_spec_def next_rerun_def Let_def stored_records_get [OF assms(2,3)])

theorem submitted_input_witness:
  "\<exists>i. dec_input stored_codecs (rs_input load_spec) = Inr i \<and>
     bt_get (in_inputs i) ''extract'' = Some (JNumber (PosInt 1)) \<and> rs_headers load_spec = headers
       (identity example_graph ''ab'' partition_none load_node 0)"
proof -
  let ?o = "memory_obs extracted_memory"
  have "stored_record example_env ?o example_graph partition_none extract_node = Some (node_record_of extract_node 0 Succeeded)"
    "stored_record example_env ?o example_graph partition_none load_node = None"
    by (simp_all add: stored_record_def extracted_memory_def bt_get_def stored_codecs_def)
  moreover have "is_current example_run ''extract'' (node_record_of extract_node 0 Succeeded)" by code_simp
  moreover have "load_node \<in> set (gr_nodes example_graph)" "extract_node \<in> set (gr_nodes example_graph)"
    by (simp_all add: example_nodes)
  ultimately show ?thesis
    using submitted_input [of example_env example_graph load_node ?o partition_none example_run] example_env_ok(2) example_wf
    by (fastforce simp: load_spec_def Let_def node_record_of_def)
qed

lemma event_downstreams:
  assumes "by_itself en obs" and wf: "wf_graph g"
    and m: "(case graph_node g name of None \<Rightarrow> io_return ()
       | Some n \<Rightarrow> io_bind (panics (those (map (graph_node g) (nd_downstreams n)))) (\<lambda>downstreams.
             io_bind (advance en g p run bs downstreams) (\<lambda>x. io_return ()))) s = (Inr (), s')"
  shows "case graph_node g name of
       None \<Rightarrow> obs (st_world s') = obs (st_world s)
     | Some n \<Rightarrow>
         (\<forall>d \<in> set (gr_nodes g). node_name d \<in> set (nd_downstreams n) \<longrightarrow> ready_now en (obs (st_world s)) g p run d \<longrightarrow>
            run_submitted (rs_run_id (ready_spec en (obs (st_world s)) g p run d)) (obs (st_world s'))) \<and>
         (\<exists>specs. ob_submits (obs (st_world s')) = ob_submits (obs (st_world s)) @ specs \<and>
            (\<forall>(pool, spec) \<in> set specs. \<exists>d \<in> set (gr_nodes g). node_name d \<in> set (nd_downstreams n) \<and>
               ready_now en (obs (st_world s)) g p run d \<and> spec = ready_spec en (obs (st_world s)) g p run d))"
proof (cases "graph_node g name")
  case None
  then show ?thesis using m by simp
next
  case n: (Some n)
  then obtain ds k settled where ds: "those (map (graph_node g) (nd_downstreams n)) = Some ds"
    and adv: "advance en g p run bs ds s = (Inr (k, settled), s')"
    using m by (auto simp: io_bind_Inr)
  have names: "map (graph_node g) (nd_downstreams n) = map Some ds" using ds by (simp add: those_eq_Some)
  have mem: "d \<in> set ds \<longleftrightarrow> d \<in> set (gr_nodes g) \<and> node_name d \<in> set (nd_downstreams n)" for d
  proof -
    have "d \<in> set ds \<longleftrightarrow> Some d \<in> set (map (graph_node g) (nd_downstreams n))" unfolding names by auto
    also have "\<dots> \<longleftrightarrow> d \<in> set (gr_nodes g) \<and> node_name d \<in> set (nd_downstreams n)"
      using graph_node_iff [OF wf, of _ d] by (fastforce simp: image_iff eq_commute [of "Some d"])
    finally show ?thesis .
  qed
  have sub: "set ds \<subseteq> set (gr_nodes g)" using mem by blast
  from advance_submits [OF assms(1) wf sub adv] show ?thesis
    unfolding n option.case using mem by (auto 0 4)
qed

text \<open>C30. An event of a terminated task instance submits the runs of the ready nodes below it. When the
  graph run is absent or settled nothing is written; when it is active, the run of every ready
  downstream node of the graph that the run's definition names has been submitted, and every new
  submit is one of them.\<close>

theorem event_submits_downstreams:
  assumes "by_itself en obs" and "cache_ok en s" and "handle_event en ev s = (Inr (), s')"
  shows "case stored_run en (obs (st_world s)) (ev_graph ev) (ev_partition ev) of
       None \<Rightarrow> obs (st_world s') = obs (st_world s)
     | Some run \<Rightarrow>
         if run_state run \<noteq> RunActive then obs (st_world s') = obs (st_world s)
         else \<exists>g t. env_hash en t = run_definition run \<and> env_load en t = Inr g \<and>
           (case graph_node g (ev_node ev) of
             None \<Rightarrow> obs (st_world s') = obs (st_world s)
           | Some n \<Rightarrow>
               (\<forall>d \<in> set (gr_nodes g). node_name d \<in> set (nd_downstreams n) \<longrightarrow>
                  ready_now en (obs (st_world s)) g (ev_partition ev) run d \<longrightarrow>
                  run_submitted (rs_run_id (ready_spec en (obs (st_world s)) g (ev_partition ev) run d)) (obs (st_world s'))) \<and>
               (\<exists>specs. ob_submits (obs (st_world s')) = ob_submits (obs (st_world s)) @ specs \<and>
                  (\<forall>(pool, spec) \<in> set specs. \<exists>d \<in> set (gr_nodes g). node_name d \<in> set (nd_downstreams n) \<and>
                     ready_now en (obs (st_world s)) g (ev_partition ev) run d \<and>
                     spec = ready_spec en (obs (st_world s)) g (ev_partition ev) run d)))"
proof -
  let ?o = "obs (st_world s)" and ?p = "ev_partition ev"
  from assms(3) obtain v s1 where v: "graph_run en (graph_run_key (ev_graph ev) ?p) s = (Inr v, s1)"
    and rest: "(case v of None \<Rightarrow> io_return ()
       | Some (run, bs) \<Rightarrow>
           if run_state run \<noteq> RunActive then io_return ()
           else io_bind (scheduler_graph en (run_definition run)) (\<lambda>g.
               case graph_node g (ev_node ev) of None \<Rightarrow> io_return ()
               | Some n \<Rightarrow> io_bind (panics (those (map (graph_node g) (nd_downstreams n)))) (\<lambda>downstreams.
                     io_bind (advance en g ?p run bs downstreams) (\<lambda>x. io_return ())))) s1 = (Inr (), s')"
    unfolding handle_event_def io_bind_Inr by blast
  note read = graph_run_stored [OF assms(1) v]
  have cache: "cache_ok en s1" by (rule cache_ok_run [OF v assms(2)])
  show ?thesis
  proof (cases v)
    case None
    then show ?thesis using rest read by simp
  next
    case (Some rb)
    obtain run bs where rb: "rb = (run, bs)" by (cases rb)
    have stored: "stored_run en ?o (ev_graph ev) ?p = Some run" and o1: "obs (st_world s1) = ?o"
      using read by (simp_all add: Some rb)
    show ?thesis
    proof (cases "run_state run = RunActive")
      case False
      then show ?thesis using rest by (simp add: stored Some rb o1)
    next
      case True
      then obtain g s2 where g: "scheduler_graph en (run_definition run) s1 = (Inr g, s2)"
        and last: "(case graph_node g (ev_node ev) of None \<Rightarrow> io_return ()
               | Some n \<Rightarrow> io_bind (panics (those (map (graph_node g) (nd_downstreams n)))) (\<lambda>downstreams.
                     io_bind (advance en g ?p run bs downstreams) (\<lambda>x. io_return ()))) s2 = (Inr (), s')"
        using rest unfolding Some rb option.case prod.case by (auto simp: io_bind_Inr)
      from scheduler_graph_cases [OF assms(1) cache g] obtain t where
        t: "env_hash en t = run_definition run" "env_load en t = Inr g" and wf: "wf_graph g" and o2: "obs (st_world s2) = ?o"
        by (auto simp: o1)
      from event_downstreams [OF assms(1) wf last] have last': "case graph_node g (ev_node ev) of
             None \<Rightarrow> obs (st_world s') = ?o
           | Some n \<Rightarrow>
               (\<forall>d \<in> set (gr_nodes g). node_name d \<in> set (nd_downstreams n) \<longrightarrow> ready_now en ?o g ?p run d \<longrightarrow>
                  run_submitted (rs_run_id (ready_spec en ?o g ?p run d)) (obs (st_world s'))) \<and>
               (\<exists>specs. ob_submits (obs (st_world s')) = ob_submits ?o @ specs \<and>
                  (\<forall>(pool, spec) \<in> set specs. \<exists>d \<in> set (gr_nodes g). node_name d \<in> set (nd_downstreams n) \<and>
                     ready_now en ?o g ?p run d \<and> spec = ready_spec en ?o g ?p run d))"
        unfolding o2 .
      then show ?thesis using True t by (auto simp: stored)
    qed
  qed
qed

theorem event_submits_downstreams_witness:
  "run_submitted (rs_run_id load_spec) (memory_obs loading_memory)"
proof -
  have run: "stored_run example_env (memory_obs extracted_memory) ''orders'' partition_none = Some example_run"
    by (simp add: stored_run_def extracted_memory_def started_memory_def bt_get_def stored_codecs_def)
  have load: "load_node \<in> set (gr_nodes example_graph)" by (simp add: example_nodes)
  have ev: "ev_graph example_event = ''orders''" "ev_partition example_event = partition_none" "ev_node example_event = ''extract''"
    by (simp_all add: example_event_def)
  have "\<exists>g t. env_hash example_env t = ''ab'' \<and> env_load example_env t = Inr g \<and>
      (case graph_node g ''extract'' of None \<Rightarrow> True
       | Some n \<Rightarrow> \<forall>d \<in> set (gr_nodes g). node_name d \<in> set (nd_downstreams n) \<longrightarrow>
           ready_now example_env (memory_obs extracted_memory) g partition_none example_run d \<longrightarrow>
           run_submitted (rs_run_id (ready_spec example_env (memory_obs extracted_memory) g partition_none example_run d))
             (memory_obs loading_memory))"
    using event_submits_downstreams [OF by_itself_example example_cache event_example]
    unfolding ev example_world run option.case by (fastforce split: option.splits)
  then show ?thesis
    using load_ready load by (elim exE conjE) (frule (1) example_hash_graph, simp add: load_spec_def)
qed

end
