(* ===== verification/Scheduler_Outcomes.thy ===== *)
theory Scheduler_Outcomes
  imports Scheduler_Runs
begin

section \<open>Starting, cancelling and rerunning, by themselves\<close>

text \<open>
  The start, the cancel and the rerun of a graph run with no other worker in between, as equations on the
  store.
\<close>

lemma io_bind_InrE:
  assumes "io_bind m f s = (Inr b, s'')"
  obtains a s' where "m s = (Inr a, s')" "f a s' = (Inr b, s'')"
  using assms by (auto simp: io_bind_Inr)

text \<open>The submit of a node without a record.\<close>

definition root_spec :: "('w, 'b, 'x, 'r) env \<Rightarrow> 'x graph \<Rightarrow> string \<Rightarrow> partition \<Rightarrow> node \<Rightarrow> 'b run_spec" where
  "root_spec en g hash p n = submit_spec en n (identity g hash p n 0) [] []"

lemma submit_plain:
  assumes ok: "by_itself en obs" and m: "submit_node en n i ups (\<lambda>rid. []) s = (Inr (rid, new), s')"
  defines "spec \<equiv> submit_spec en n i ups []"
  shows "rid = identity_run_id i" and "run_submitted rid (obs (st_world s'))"
    and "\<exists>specs. set specs \<subseteq> {(node_pool n, spec)} \<and>
      obs (st_world s') = (obs (st_world s))\<lparr>ob_submits := ob_submits (obs (st_world s)) @ specs\<rparr>"
proof -
  note sub = submit_node_alone(2) [OF ok m refl]
  show rid: "rid = identity_run_id i" using sub by simp
  have one: "apply_submit (node_pool n) spec o1 = o1\<lparr>ob_submits := ob_submits o1 @ [(node_pool n, spec)]\<rparr>" for o1
    by (simp add: apply_submit_def spec_def)
  have id: "rs_run_id spec = rid" by (simp add: spec_def rid)
  consider (new) "obs (st_world s') = (obs (st_world s))\<lparr>ob_submits := ob_submits (obs (st_world s)) @ [(node_pool n, spec)]\<rparr>"
    | (old) "run_submitted rid (obs (st_world s))" "obs (st_world s') = obs (st_world s)"
    using sub one unfolding spec_def by (auto split: if_splits)
  then have "run_submitted rid (obs (st_world s')) \<and> (\<exists>specs. set specs \<subseteq> {(node_pool n, spec)} \<and>
      obs (st_world s') = (obs (st_world s))\<lparr>ob_submits := ob_submits (obs (st_world s)) @ specs\<rparr>)"
  proof cases
    case new
    then show ?thesis by (intro conjI exI [of _ "[(node_pool n, spec)]"]) (simp_all add: id)
  next
    case old
    then show ?thesis by (intro conjI exI [of _ "[]"]) simp_all
  qed
  then show "run_submitted rid (obs (st_world s'))" and "\<exists>specs. set specs \<subseteq> {(node_pool n, spec)} \<and>
      obs (st_world s') = (obs (st_world s))\<lparr>ob_submits := ob_submits (obs (st_world s)) @ specs\<rparr>" by simp_all
qed

lemma roots_alone:
  fixes ns :: "node list"
  assumes ok: "by_itself en obs"
    and m: "io_fold (\<lambda>n submitted. io_bind (submit_node en n (identity g hash p n 0) [] (\<lambda>rid. [])) (\<lambda>(rid, new).
        io_return (submitted @ [rid]))) ns acc s = (Inr ids, s')"
  shows "ids = acc @ map (\<lambda>n. run_id (gr_name g) p (node_name n) 0) ns \<and>
     (\<exists>specs. (\<forall>x \<in> set specs. \<exists>n \<in> set ns. x = (node_pool n, root_spec en g hash p n)) \<and>
        obs (st_world s') = (obs (st_world s))\<lparr>ob_submits := ob_submits (obs (st_world s)) @ specs\<rparr>) \<and>
     (\<forall>n \<in> set ns. run_submitted (run_id (gr_name g) p (node_name n) 0) (obs (st_world s')))"
  using m
proof (induction ns arbitrary: acc s)
  case Nil
  then show ?case by (auto intro: exI [of _ "[]"])
next
  case (Cons n ns)
  then obtain rid new s1 where sub: "submit_node en n (identity g hash p n 0) [] (\<lambda>rid. []) s = (Inr (rid, new), s1)"
    and rest: "io_fold (\<lambda>n submitted. io_bind (submit_node en n (identity g hash p n 0) [] (\<lambda>rid. [])) (\<lambda>(rid, new).
        io_return (submitted @ [rid]))) ns (acc @ [rid]) s1 = (Inr ids, s')"
    by (auto simp: io_bind_Inr)
  have rid: "rid = run_id (gr_name g) p (node_name n) 0"
    using submit_plain(1) [OF ok sub] by (simp add: identity_run_id_def identity_def)
  obtain xs where xs: "set xs \<subseteq> {(node_pool n, root_spec en g hash p n)}"
    "obs (st_world s1) = (obs (st_world s))\<lparr>ob_submits := ob_submits (obs (st_world s)) @ xs\<rparr>"
    using submit_plain(3) [OF ok sub] unfolding root_spec_def by blast
  from Cons.IH [OF rest] obtain ys where ys: "\<forall>x \<in> set ys. \<exists>n \<in> set ns. x = (node_pool n, root_spec en g hash p n)"
    "obs (st_world s') = (obs (st_world s1))\<lparr>ob_submits := ob_submits (obs (st_world s1)) @ ys\<rparr>" by blast
  have all: "\<forall>x \<in> set (xs @ ys). \<exists>m \<in> set (n # ns). x = (node_pool m, root_spec en g hash p m)"
    using xs(1) ys(1) by auto
  have o': "obs (st_world s') = (obs (st_world s))\<lparr>ob_submits := ob_submits (obs (st_world s)) @ xs @ ys\<rparr>"
    using xs(2) ys(2) by simp
  have "run_submitted rid (obs (st_world s'))"
    using run_submitted_mono [OF ys(2)] submit_plain(2) [OF ok sub] by blast
  then have "\<forall>m \<in> set (n # ns). run_submitted (run_id (gr_name g) p (node_name m) 0) (obs (st_world s'))"
    using Cons.IH [OF rest] rid by simp
  moreover have "ids = acc @ map (\<lambda>n. run_id (gr_name g) p (node_name n) 0) (n # ns)" using Cons.IH [OF rest] rid by simp
  ultimately show ?case using all o' by blast
qed

text \<open>What a start does: nothing when the graph has a run for the partition, and else the record of an
  active run and the submits of the nodes without upstreams.\<close>

definition start_effect ::
  "('w, 'b, 'x, 'r) env \<Rightarrow> 'x graph \<Rightarrow> string \<Rightarrow> partition \<Rightarrow> start_outcome \<Rightarrow> 'b obs \<Rightarrow> 'b obs \<Rightarrow> bool" where
  "start_effect en g hash p out o1 o2 \<longleftrightarrow>
     (if ob_kv o1 (graph_run_key (gr_name g) p) \<noteq> None
      then out = \<lparr>so_started = False, so_submitted = []\<rparr> \<and> o2 = o1
      else out = \<lparr>so_started = True, so_submitted = map (\<lambda>n. run_id (gr_name g) p (node_name n) 0) (graph_roots g)\<rparr> \<and>
        (\<exists>now specs. o2 = o1\<lparr>
            ob_kv := (ob_kv o1)(graph_run_key (gr_name g) p \<mapsto> enc_run (en_codecs en) (new_run_record hash now)),
            ob_submits := ob_submits o1 @ specs\<rparr> \<and>
          (\<forall>x \<in> set specs. \<exists>n \<in> set (graph_roots g). x = (node_pool n, root_spec en g hash p n))) \<and>
        (\<forall>n \<in> set (graph_roots g). run_submitted (run_id (gr_name g) p (node_name n) 0) o2))"

text \<open>A conditional put, by itself.\<close>

lemma put_alone:
  assumes ok: "by_itself en obs" and m: "queue_io (kv_compare_put (en_backend en) k e v) s = (r, s')"
  shows "obs (st_world s') = obs (st_world s) \<or>
      ob_kv (obs (st_world s)) k = e \<and> obs (st_world s') = (obs (st_world s))\<lparr>ob_kv := (ob_kv (obs (st_world s)))(k \<mapsto> v)\<rparr>"
    and "r = Inr b \<Longrightarrow> if b then ob_kv (obs (st_world s)) k = e \<and>
        obs (st_world s') = (obs (st_world s))\<lparr>ob_kv := (ob_kv (obs (st_world s)))(k \<mapsto> v)\<rparr>
      else ob_kv (obs (st_world s)) k \<noteq> e \<and> obs (st_world s') = obs (st_world s)"
proof -
  obtain q w where qw: "kv_compare_put (en_backend en) k e v (st_world s) = (q, w)" "st_world s' = w"
    and r: "r = (case q of Inl e \<Rightarrow> Inl (QueueError e) | Inr a \<Rightarrow> Inr a)"
    using m by (auto simp: queue_io_def world_io_result io_map_error_result)
  note law = backend_writes(2) [OF by_itself_backend [OF ok], of k e v]
  show "obs (st_world s') = obs (st_world s) \<or>
      ob_kv (obs (st_world s)) k = e \<and> obs (st_world s') = (obs (st_world s))\<lparr>ob_kv := (ob_kv (obs (st_world s)))(k \<mapsto> v)\<rparr>"
    using law qw unfolding writes_if_def by (cases q) (fastforce split: bool.splits)+
  assume "r = Inr b"
  then have "q = Inr b" using r by (cases q) auto
  then show "if b then ob_kv (obs (st_world s)) k = e \<and>
        obs (st_world s') = (obs (st_world s))\<lparr>ob_kv := (ob_kv (obs (st_world s)))(k \<mapsto> v)\<rparr>
      else ob_kv (obs (st_world s)) k \<noteq> e \<and> obs (st_world s') = obs (st_world s)"
    using alone_writes_if [OF law, of "st_world s" b w] qw by (cases b) auto
qed

lemma start_run_alone:
  assumes ok: "by_itself en obs" and cache: "cache_ok en s" and m: "start_run en hash p s = (Inr out, s')"
  obtains g t where "env_hash en t = hash" "env_load en t = Inr g" "wf_graph g"
    "start_effect en g hash p out (obs (st_world s)) (obs (st_world s'))"
proof -
  from m obtain g s1 where g: "scheduler_graph en hash s = (Inr g, s1)"
    and rest: "io_bind (clock_io en) (\<lambda>t.
         io_bind (queue_io (kv_compare_put (en_backend en) (graph_run_key (gr_name g) p) None
             (enc_run (en_codecs en) (new_run_record hash t)))) (\<lambda>written.
           if \<not> written then io_return \<lparr>so_started = False, so_submitted = []\<rparr>
           else
             io_bind (io_fold (\<lambda>n submitted.
                 io_bind (submit_node en n (identity g hash p n 0) [] (\<lambda>rid. [])) (\<lambda>(rid, new).
                   io_return (submitted @ [rid]))) (graph_roots g) []) (\<lambda>submitted.
               io_return \<lparr>so_started = True, so_submitted = submitted\<rparr>))) s1 = (Inr out, s')"
    unfolding start_run_def io_bind_Inr by blast
  from scheduler_graph_cases [OF ok cache g] obtain t where t: "env_hash en t = hash" "env_load en t = Inr g" and wf: "wf_graph g"
    and o1: "obs (st_world s1) = obs (st_world s)" by auto
  from rest obtain now s2 where now: "clock_io en s1 = (Inr now :: scheduler_error + nat, s2)"
    and rest2: "io_bind (queue_io (kv_compare_put (en_backend en) (graph_run_key (gr_name g) p) None
             (enc_run (en_codecs en) (new_run_record hash now)))) (\<lambda>written.
           if \<not> written then io_return \<lparr>so_started = False, so_submitted = []\<rparr>
           else
             io_bind (io_fold (\<lambda>n submitted.
                 io_bind (submit_node en n (identity g hash p n 0) [] (\<lambda>rid. [])) (\<lambda>(rid, new).
                   io_return (submitted @ [rid]))) (graph_roots g) []) (\<lambda>submitted.
               io_return \<lparr>so_started = True, so_submitted = submitted\<rparr>)) s2 = (Inr out, s')"
    by (rule io_bind_InrE)
  from rest2 obtain b s3 where put: "queue_io (kv_compare_put (en_backend en) (graph_run_key (gr_name g) p) None
             (enc_run (en_codecs en) (new_run_record hash now))) s2 = (Inr b, s3)"
    and last: "(if \<not> b then io_return \<lparr>so_started = False, so_submitted = []\<rparr>
           else
             io_bind (io_fold (\<lambda>n submitted.
                 io_bind (submit_node en n (identity g hash p n 0) [] (\<lambda>rid. [])) (\<lambda>(rid, new).
                   io_return (submitted @ [rid]))) (graph_roots g) []) (\<lambda>submitted.
               io_return \<lparr>so_started = True, so_submitted = submitted\<rparr>)) s3 = (Inr out, s')"
    by (rule io_bind_InrE)
  have o2: "obs (st_world s2) = obs (st_world s)"
    using quiet_same [OF quiet_clock_io [OF by_itself_backend [OF ok]] now] o1 by simp
  note written = put_alone(2) [OF ok put refl, unfolded o2]
  show thesis
  proof (rule that [OF t wf], cases b)
    case False
    then have "out = \<lparr>so_started = False, so_submitted = []\<rparr>" "s' = s3" using last by auto
    then show "start_effect en g hash p out (obs (st_world s)) (obs (st_world s'))"
      using written False by (simp add: start_effect_def)
  next
    case True
    then obtain ids where ids: "io_fold (\<lambda>n submitted.
                 io_bind (submit_node en n (identity g hash p n 0) [] (\<lambda>rid. [])) (\<lambda>(rid, new).
                   io_return (submitted @ [rid]))) (graph_roots g) [] s3 = (Inr ids, s')"
      and out: "out = \<lparr>so_started = True, so_submitted = ids\<rparr>"
      using last by (auto simp: io_bind_Inr)
    note roots = roots_alone [OF ok ids]
    from roots obtain specs where specs: "\<forall>x \<in> set specs. \<exists>n \<in> set (graph_roots g). x = (node_pool n, root_spec en g hash p n)"
      "obs (st_world s') = (obs (st_world s3))\<lparr>ob_submits := ob_submits (obs (st_world s3)) @ specs\<rparr>" by blast
    have "obs (st_world s') = (obs (st_world s))\<lparr>
            ob_kv := (ob_kv (obs (st_world s)))(graph_run_key (gr_name g) p \<mapsto> enc_run (en_codecs en) (new_run_record hash now)),
            ob_submits := ob_submits (obs (st_world s)) @ specs\<rparr>"
      using specs(2) written True by simp
    then show "start_effect en g hash p out (obs (st_world s)) (obs (st_world s'))"
      unfolding start_effect_def using written True specs(1) out roots by (auto intro!: exI [of _ now] exI [of _ specs])
  qed
qed

subsection \<open>Cancelling\<close>

text \<open>By itself a cancel settles an active run before anything of it can fail, and writes nothing else.\<close>

lemma cancel_run_alone:
  assumes ok: "by_itself en obs" and cache: "cache_ok en s" and m: "cancel_run en name p s = (r, s')"
  shows "case stored_run en (obs (st_world s)) name p of
       None \<Rightarrow> r \<noteq> Inr True \<and> obs (st_world s') = obs (st_world s)
     | Some run \<Rightarrow>
         if run_state run \<noteq> RunActive then r \<noteq> Inr True \<and> obs (st_world s') = obs (st_world s)
         else r \<noteq> Inr False \<and>
           ((\<exists>e. r = Inl e) \<and> obs (st_world s') = obs (st_world s) \<or>
            (\<exists>t. obs (st_world s') = apply_effects (settle_effects en name p t (run\<lparr>run_state := RunCancelled\<rparr>)) (obs (st_world s))))"
  using m unfolding cancel_run_def
proof (cases rule: io_bind_cases)
  case (error e)
  then show ?thesis
    using quiet_same [OF quiet_run [OF by_itself_backend [OF ok]] error(1)] by (simp split: option.split)
next
  case ok1: (ok v s1)
  note read = graph_run_stored [OF ok ok1(1)]
  have cache1: "cache_ok en s1" by (rule cache_ok_run [OF ok1(1) cache])
  show ?thesis
  proof (cases v)
    case None
    then show ?thesis using ok1(2) read by simp
  next
    case (Some rb)
    obtain run bs where rb: "rb = (run, bs)" by (cases rb)
    note st = read [unfolded Some rb option.case prod.case]
    show ?thesis
    proof (cases "run_state run = RunActive")
      case False
      then show ?thesis using ok1(2) st by (simp add: Some rb)
    next
      case True
      then have rest: "io_bind (commit_settled en name p bs (run\<lparr>run_state := RunCancelled\<rparr>)) (\<lambda>written.
               if \<not> written then io_return False
               else
                 io_bind (scheduler_graph en (run_definition run)) (\<lambda>g.
                   io_bind (cancel_active_runs en g p run) (\<lambda>n. io_return True))) s1 = (r, s')"
        using ok1(2) by (simp add: Some rb)
      then show ?thesis
      proof (cases rule: io_bind_cases)
        case (error e)
        then show ?thesis using commit_settled_alone(1) [OF ok error(1)] st True by auto
      next
        case ok2: (ok b s2)
        have b: "b" and t: "\<exists>t. obs (st_world s2) =
            apply_effects (settle_effects en name p t (run\<lparr>run_state := RunCancelled\<rparr>)) (obs (st_world s))"
          using commit_settled_alone(2) [OF ok ok2(1) refl] st by (auto split: if_splits)
        have "io_keeps (quiet en alone obs) (io_bind (scheduler_graph en (run_definition run)) (\<lambda>g.
                   io_bind (cancel_active_runs en g p run) (\<lambda>n. io_return True)))"
          by (intro quiet.keeps_intros quiet_graph quiet_cancel_active by_itself_backend [OF ok])
        from quiet_same [OF this] ok2(2) b have "obs (st_world s') = obs (st_world s2)" by simp
        moreover have "r \<noteq> Inr False" using ok2(2) b by (auto elim!: io_bind_cases)
        ultimately show ?thesis using st True t by simp
      qed
    qed
  qed
qed

subsection \<open>Rerunning\<close>

text \<open>The store with the run made active again: nothing else of it changes.\<close>

definition reactivated ::
  "('w, 'b, 'x, 'r) env \<Rightarrow> string \<Rightarrow> partition \<Rightarrow> graph_run_record \<Rightarrow> 'b obs \<Rightarrow> 'b obs \<Rightarrow> bool" where
  "reactivated en name p active o1 o2 \<longleftrightarrow>
     stored_run en o2 name p = Some active \<and>
     (\<exists>v. o2 = o1\<lparr>ob_kv := (ob_kv o1)(graph_run_key name p := v)\<rparr>)"

text \<open>What a rerun does, by the record of its node.\<close>

definition rerun_effect ::
  "('w, 'b, 'x, 'r) env \<Rightarrow> string \<Rightarrow> partition \<Rightarrow> (string \<Rightarrow> 'b effect list) \<Rightarrow> 'x graph \<Rightarrow> node \<Rightarrow> graph_run_record \<Rightarrow>
   rerun_outcome \<Rightarrow> 'b obs \<Rightarrow> 'b obs \<Rightarrow> bool" where
  "rerun_effect en name p effects g n run out o1 o2 \<longleftrightarrow>
     (case stored_record en o1 g p n of
       None \<Rightarrow> out = RerunNoRecord \<and> o2 = o1
     | Some r \<Rightarrow>
         (\<exists>active. rerun_active g n run r (stored_records en o1 g p) = Some active \<and>
           (if \<not> is_ready n (current_records active (stored_records en o1 g p)) then out = RerunNotReady \<and> o2 = o1
            else let rid = run_id (gr_name g) p (node_name n) (rec_rerun r + 1);
                     spec = submit_spec en n (identity g (rec_definition r) p n (rec_rerun r + 1))
                       (upstream_records n (current_records active (stored_records en o1 g p))) (effects rid)
              in \<exists>o'. reactivated en name p active o1 o' \<and>
                (out = RerunSubmitted rid \<and> o2 = apply_submit (node_pool n) spec o' \<or>
                 out = RerunActive rid \<and> run_submitted rid o1 \<and> o2 = o'))))"

lemma reactivate_alone:
  assumes ok: "by_itself en obs" and run: "stored_run en (obs (st_world s)) name p = Some run"
    and m: "(if active \<noteq> run
        then queue_io (kv_compare_put (en_backend en) (graph_run_key name p) (Some bs) (enc_run (en_codecs en) active))
        else io_return True) s = (Inr True, s')"
  shows "reactivated en name p active (obs (st_world s)) (obs (st_world s'))"
proof (cases "active = run")
  case True
  then show ?thesis using m run
    by (auto simp: reactivated_def intro!: exI [of _ "ob_kv (obs (st_world s)) (graph_run_key name p)"])
next
  case False
  then have "queue_io (kv_compare_put (en_backend en) (graph_run_key name p) (Some bs) (enc_run (en_codecs en) active)) s = (Inr True, s')"
    using m by simp
  from put_alone(2) [OF ok this refl] show ?thesis
    using ok by (auto simp: reactivated_def stored_run_def by_itself_def codecs_ok_def)
qed

lemma rerun_submit_alone:
  assumes ok: "by_itself en obs"
    and m: "io_bind (submit_node en n (identity g hash p n r) ups effects) (\<lambda>(rid, new).
        io_return (if new then RerunSubmitted rid else RerunActive rid)) s = (Inr out, s')"
    and same: "ob_submits (obs (st_world s)) = ob_submits o1"
  shows "let rid = run_id (gr_name g) p (node_name n) r
     in out = RerunSubmitted rid \<and>
          obs (st_world s') = apply_submit (node_pool n) (submit_spec en n (identity g hash p n r) ups (effects rid)) (obs (st_world s)) \<or>
        out = RerunActive rid \<and> run_submitted rid o1 \<and> obs (st_world s') = obs (st_world s)"
proof -
  have id: "identity_run_id (identity g hash p n r) = run_id (gr_name g) p (node_name n) r"
    by (simp add: identity_run_id_def identity_def)
  obtain rid new s1 where sub: "submit_node en n (identity g hash p n r) ups effects s = (Inr (rid, new), s1)"
    and out: "out = (if new then RerunSubmitted rid else RerunActive rid)" "s' = s1"
    using m by (auto simp: io_bind_Inr)
  show ?thesis
    using submit_node_alone(2) [OF ok sub refl] out run_submitted_submits [OF same] by (auto simp: id Let_def split: if_splits)
qed

lemma rerun_with_alone:
  assumes ok: "by_itself en obs" and cache: "cache_ok en s" and m: "rerun_with en name p node effects s = (Inr out, s')"
  obtains run g n t where "stored_run en (obs (st_world s)) name p = Some run"
    "env_hash en t = run_definition run" "env_load en t = Inr g" "wf_graph g" "graph_node g node = Some n"
    "rerun_effect en name p effects g n run out (obs (st_world s)) (obs (st_world s'))"
proof -
  let ?o = "obs (st_world s)"
  from m obtain v s1 where v: "graph_run en (graph_run_key name p) s = (Inr v, s1)"
    and vrest: "(case v of
         None \<Rightarrow> io_fail (UnknownGraphRun name p)
       | Some (run, bs) \<Rightarrow>
           io_bind (scheduler_graph en (run_definition run)) (\<lambda>g.
             case graph_node g node of
               None \<Rightarrow> io_fail (UnknownGraphNode name node)
             | Some n \<Rightarrow>
                 io_bind (read_node_records en g p) (\<lambda>records.
                   case bt_get records (node_name n) of
                     None \<Rightarrow> io_return RerunNoRecord
                   | Some r \<Rightarrow>
                       io_bind (panics (rerun_active g n run r records)) (\<lambda>active.
                         let current = current_records active records
                         in if \<not> is_ready n current then io_return RerunNotReady
                         else
                           io_bind (if active \<noteq> run
                               then queue_io (kv_compare_put (en_backend en) (graph_run_key name p) (Some bs)
                                 (enc_run (en_codecs en) active))
                               else io_return True) (\<lambda>written.
                             if \<not> written then io_fail (Contended name p)
                             else
                               io_bind (submit_node en n
                                   (identity g (rec_definition r) p n (rec_rerun r + 1))
                                   (upstream_records n current) effects) (\<lambda>(rid, new).
                                 io_return (if new then RerunSubmitted rid else RerunActive rid))))))) s1 = (Inr out, s')"
    unfolding rerun_with_def by (rule io_bind_InrE)
  from vrest obtain run bs where vv: "v = Some (run, bs)" by (cases v) auto
  have run: "stored_run en ?o name p = Some run" and o1: "obs (st_world s1) = ?o"
    using graph_run_stored [OF ok v] by (simp_all add: vv)
  from vrest [unfolded vv option.case prod.case] obtain g s2 where g: "scheduler_graph en (run_definition run) s1 = (Inr g, s2)"
    and grest: "(case graph_node g node of
               None \<Rightarrow> io_fail (UnknownGraphNode name node)
             | Some n \<Rightarrow>
                 io_bind (read_node_records en g p) (\<lambda>records.
                   case bt_get records (node_name n) of
                     None \<Rightarrow> io_return RerunNoRecord
                   | Some r \<Rightarrow>
                       io_bind (panics (rerun_active g n run r records)) (\<lambda>active.
                         let current = current_records active records
                         in if \<not> is_ready n current then io_return RerunNotReady
                         else
                           io_bind (if active \<noteq> run
                               then queue_io (kv_compare_put (en_backend en) (graph_run_key name p) (Some bs)
                                 (enc_run (en_codecs en) active))
                               else io_return True) (\<lambda>written.
                             if \<not> written then io_fail (Contended name p)
                             else
                               io_bind (submit_node en n
                                   (identity g (rec_definition r) p n (rec_rerun r + 1))
                                   (upstream_records n current) effects) (\<lambda>(rid, new).
                                 io_return (if new then RerunSubmitted rid else RerunActive rid)))))) s2 = (Inr out, s')"
    by (rule io_bind_InrE)
  from scheduler_graph_cases [OF ok cache_ok_run [OF v cache] g] obtain t where
    t: "env_hash en t = run_definition run" "env_load en t = Inr g" and wf: "wf_graph g" and o2: "obs (st_world s2) = ?o"
    by (auto simp: o1)
  from grest obtain n where n: "graph_node g node = Some n" by (cases "graph_node g node") auto
  have nn: "n \<in> set (gr_nodes g)" using n graph_node_iff [OF wf] by blast
  from grest [unfolded n option.case] obtain rs s3 where rs: "read_node_records en g p s2 = (Inr rs, s3)"
    and rrest: "(case bt_get rs (node_name n) of
                     None \<Rightarrow> io_return RerunNoRecord
                   | Some r \<Rightarrow>
                       io_bind (panics (rerun_active g n run r rs)) (\<lambda>active.
                         let current = current_records active rs
                         in if \<not> is_ready n current then io_return RerunNotReady
                         else
                           io_bind (if active \<noteq> run
                               then queue_io (kv_compare_put (en_backend en) (graph_run_key name p) (Some bs)
                                 (enc_run (en_codecs en) active))
                               else io_return True) (\<lambda>written.
                             if \<not> written then io_fail (Contended name p)
                             else
                               io_bind (submit_node en n
                                   (identity g (rec_definition r) p n (rec_rerun r + 1))
                                   (upstream_records n current) effects) (\<lambda>(rid, new).
                                 io_return (if new then RerunSubmitted rid else RerunActive rid))))) s3 = (Inr out, s')"
    by (rule io_bind_InrE)
  have rs_eq: "rs = stored_records en ?o g p" and o3: "obs (st_world s3) = ?o"
    using node_records_alone [OF ok rs] o2 by simp_all
  have recd: "bt_get rs (node_name n) = stored_record en ?o g p n" by (simp add: rs_eq stored_records_get [OF wf nn])
  have "rerun_effect en name p effects g n run out ?o (obs (st_world s'))"
  proof (cases "stored_record en ?o g p n")
    case None
    then show ?thesis using rrest o3 by (simp add: rerun_effect_def recd)
  next
    case (Some r)
    then obtain active where active: "rerun_active g n run r rs = Some active"
      and arest: "(let current = current_records active rs
                         in if \<not> is_ready n current then io_return RerunNotReady
                         else
                           io_bind (if active \<noteq> run
                               then queue_io (kv_compare_put (en_backend en) (graph_run_key name p) (Some bs)
                                 (enc_run (en_codecs en) active))
                               else io_return True) (\<lambda>written.
                             if \<not> written then io_fail (Contended name p)
                             else
                               io_bind (submit_node en n
                                   (identity g (rec_definition r) p n (rec_rerun r + 1))
                                   (upstream_records n current) effects) (\<lambda>(rid, new).
                                 io_return (if new then RerunSubmitted rid else RerunActive rid)))) s3 = (Inr out, s')"
      using rrest unfolding recd Some option.case by (auto simp: io_bind_Inr)
    show ?thesis
    proof (cases "is_ready n (current_records active rs)")
      case False
      then show ?thesis using arest active o3 by (auto simp: rerun_effect_def Some rs_eq)
    next
      case True
      with arest obtain b s4 where put: "(if active \<noteq> run
            then queue_io (kv_compare_put (en_backend en) (graph_run_key name p) (Some bs) (enc_run (en_codecs en) active))
            else io_return True) s3 = (Inr b, s4)"
        and brest: "(if \<not> b then io_fail (Contended name p)
                             else
                               io_bind (submit_node en n
                                   (identity g (rec_definition r) p n (rec_rerun r + 1))
                                   (upstream_records n (current_records active rs)) effects) (\<lambda>(rid, new).
                                 io_return (if new then RerunSubmitted rid else RerunActive rid))) s4 = (Inr out, s')"
        unfolding Let_def by (auto elim: io_bind_InrE)
      have b: "b = True" using brest by (cases b) auto
      have react: "reactivated en name p active ?o (obs (st_world s4))"
        using reactivate_alone [OF ok _ put [unfolded b]] run unfolding o3 by simp
      then have "ob_submits (obs (st_world s4)) = ob_submits ?o" by (auto simp: reactivated_def)
      from rerun_submit_alone [OF ok _ this] brest b
      show ?thesis using react active True by (fastforce simp: rerun_effect_def Some rs_eq [symmetric] Let_def)
    qed
  qed
  from that [OF run t wf n this] show thesis .
qed

subsection \<open>The records that a rerun makes stale\<close>

lemma rerun_expected_get:
  fixes ns :: "node list"
  assumes "bt_wf records"
  shows "bt_get (fold (\<lambda>n expected. case bt_get records (node_name n) of
           None \<Rightarrow> expected
         | Some r \<Rightarrow> bt_insert (node_name n) (rec_rerun r + 1) expected) ns acc) name =
     (if name \<in> node_name ` set ns \<and> bt_get records name \<noteq> None
      then map_option (\<lambda>r. rec_rerun r + 1) (bt_get records name) else bt_get acc name)"
  by (induction ns arbitrary: acc) (auto split: option.splits)

lemma word_less_Suc: "(x :: u32) + 1 \<noteq> 0 \<Longrightarrow> \<not> x + 1 \<le> x"
  using unatSuc [of x] by (simp add: word_le_nat_alt add.commute)

end
