(* ===== verification/Operation_Properties.thy ===== *)
theory Operation_Properties
  imports Scheduler_Outcomes Requests
begin

section \<open>Properties of starting, cancelling, rerunning and requests\<close>

text \<open>C33. A graph run is started once: when the graph has a run for the partition a start writes
  nothing, and else it writes the record of an active run with the definition and submits the runs
  of exactly the nodes without upstreams, at rerun count zero.\<close>

theorem start_run_once:
  assumes "by_itself en obs" and "cache_ok en s" and "start_run en hash p s = (Inr out, s')"
  shows "\<exists>g t. env_hash en t = hash \<and> env_load en t = Inr g \<and>
     (if ob_kv (obs (st_world s)) (graph_run_key (gr_name g) p) \<noteq> None
      then out = \<lparr>so_started = False, so_submitted = []\<rparr> \<and> obs (st_world s') = obs (st_world s)
      else so_started out \<and> so_submitted out = map (\<lambda>n. run_id (gr_name g) p (node_name n) 0) (graph_roots g) \<and>
        (\<exists>now. stored_run en (obs (st_world s')) (gr_name g) p = Some (new_run_record hash now)) \<and>
        (\<forall>n \<in> set (graph_roots g). run_submitted (run_id (gr_name g) p (node_name n) 0) (obs (st_world s'))) \<and>
        (\<exists>specs. ob_submits (obs (st_world s')) = ob_submits (obs (st_world s)) @ specs \<and>
           rs_run_id ` snd ` set specs \<subseteq> set (so_submitted out)))"
proof -
  have codecs: "dec_run (en_codecs en) (enc_run (en_codecs en) r) = Inr r" for r
    using assms(1) by (simp add: by_itself_def codecs_ok_def)
  obtain g t where g: "env_hash en t = hash" "env_load en t = Inr g"
    and effect: "start_effect en g hash p out (obs (st_world s)) (obs (st_world s'))"
    by (rule start_run_alone [OF assms])
  have id: "rs_run_id (root_spec en g hash p n) = run_id (gr_name g) p (node_name n) 0" for n
    by (simp add: root_spec_def identity_run_id_def identity_def)
  show ?thesis
  proof (cases "ob_kv (obs (st_world s)) (graph_run_key (gr_name g) p) = None")
    case False
    then show ?thesis using g effect by (auto simp: start_effect_def)
  next
    case True
    with effect obtain now specs where out: "out = \<lparr>so_started = True, so_submitted = map (\<lambda>n. run_id (gr_name g) p (node_name n) 0) (graph_roots g)\<rparr>"
      and o2: "obs (st_world s') = (obs (st_world s))\<lparr>
            ob_kv := (ob_kv (obs (st_world s)))(graph_run_key (gr_name g) p \<mapsto> enc_run (en_codecs en) (new_run_record hash now)),
            ob_submits := ob_submits (obs (st_world s)) @ specs\<rparr>"
      and specs: "\<forall>x \<in> set specs. \<exists>n \<in> set (graph_roots g). x = (node_pool n, root_spec en g hash p n)"
      and sub: "\<forall>n \<in> set (graph_roots g). run_submitted (run_id (gr_name g) p (node_name n) 0) (obs (st_world s'))"
      by (auto simp: start_effect_def)
    have "stored_run en (obs (st_world s')) (gr_name g) p = Some (new_run_record hash now)"
      by (simp add: o2 stored_run_def codecs)
    moreover have "ob_submits (obs (st_world s')) = ob_submits (obs (st_world s)) @ specs" by (simp add: o2)
    moreover have "rs_run_id ` snd ` set specs \<subseteq> set (so_submitted out)"
    proof
      fix i
      assume "i \<in> rs_run_id ` snd ` set specs"
      then obtain n where "n \<in> set (graph_roots g)" "i = rs_run_id (root_spec en g hash p n)" using specs by fastforce
      then show "i \<in> set (so_submitted out)" by (simp add: out id)
    qed
    ultimately show ?thesis using g True out sub by (intro exI [of _ g] exI [of _ t]) auto
  qed
qed

theorem start_run_once_witness:
  "(\<exists>now. stored_run example_env (memory_obs started_memory) ''orders'' partition_none = Some (new_run_record ''ab'' now)) \<and>
   run_submitted ''orders-none-extract-r0'' (memory_obs started_memory)"
proof -
  have id: "run_id ''orders'' partition_none ''extract'' 0 = ''orders-none-extract-r0''" by code_simp
  have roots: "graph_roots example_graph = [extract_node]" by (simp add: example_roots extract_node_def)
  show ?thesis
    using start_run_once [OF by_itself_example example_cache start_example]
    by (elim exE conjE) (frule (1) example_hash_graph, simp add: empty_memory_def roots id)
qed



text \<open>The outcome of a rerun, from its effect.\<close>

lemma rerun_effect_outcome:
  assumes effect: "rerun_effect en name p (\<lambda>rid. []) g n run out o1 o2"
  shows "case out of
       RerunNoRecord \<Rightarrow> stored_record en o1 g p n = None \<and> o2 = o1
     | RerunNotReady \<Rightarrow> stored_record en o1 g p n \<noteq> None \<and> o2 = o1
     | RerunActive rid \<Rightarrow> run_submitted rid o1 \<and>
         ob_submits o2 = ob_submits o1 \<and>
         (\<exists>r active. stored_record en o1 g p n = Some r \<and>
            rid = run_id (gr_name g) p (node_name n) (rec_rerun r + 1) \<and>
            stored_run en o2 name p = Some active \<and> run_state active = RunActive)
     | RerunSubmitted rid \<Rightarrow>
         (\<exists>r active spec. stored_record en o1 g p n = Some r \<and>
            rid = run_id (gr_name g) p (node_name n) (rec_rerun r + 1) \<and> rs_run_id spec = rid \<and>
            rs_headers spec = headers (identity g (rec_definition r) p n (rec_rerun r + 1)) \<and>
            ob_submits o2 = ob_submits o1 @ [(node_pool n, spec)] \<and>
            stored_run en o2 name p = Some active \<and>
            run_state active = RunActive \<and> run_settled_at_ms active = None \<and> run_definition active = run_definition run \<and>
            is_ready n (current_records active (stored_records en o1 g p)))"
proof (cases "stored_record en o1 g p n")
  case None
  then show ?thesis using effect by (simp add: rerun_effect_def)
next
  case (Some r)
  let ?rs = "stored_records en o1 g p" and ?rid = "run_id (gr_name g) p (node_name n) (rec_rerun r + 1)"
  from effect Some obtain active where active: "rerun_active g n run r ?rs = Some active"
    and rest: "if \<not> is_ready n (current_records active ?rs) then out = RerunNotReady \<and> o2 = o1
      else \<exists>o'. reactivated en name p active o1 o' \<and>
              (out = RerunSubmitted ?rid \<and> o2 = apply_submit (node_pool n)
                 (submit_spec en n (identity g (rec_definition r) p n (rec_rerun r + 1))
                   (upstream_records n (current_records active ?rs)) []) o' \<or>
               out = RerunActive ?rid \<and> run_submitted ?rid o1 \<and> o2 = o')"
    unfolding rerun_effect_def Some option.case Let_def by blast
  show ?thesis
  proof (cases "is_ready n (current_records active ?rs)")
    case False
    then show ?thesis using rest Some by simp
  next
    case True
    let ?spec = "submit_spec en n (identity g (rec_definition r) p n (rec_rerun r + 1)) (upstream_records n (current_records active ?rs)) []"
    from rest True obtain o' where o': "reactivated en name p active o1 o'"
      and res: "out = RerunSubmitted ?rid \<and> o2 = apply_submit (node_pool n) ?spec o' \<or>
         out = RerunActive ?rid \<and> run_submitted ?rid o1 \<and> o2 = o'"
      by auto
    have spec: "rs_run_id ?spec = ?rid" "rs_headers ?spec = headers (identity g (rec_definition r) p n (rec_rerun r + 1))"
      by (simp_all add: submit_spec_def identity_run_id_def identity_def)
    have run2: "stored_run en o' name p = Some active" "ob_submits o' = ob_submits o1"
      using o' by (auto simp: reactivated_def)
    have "stored_run en (apply_submit (node_pool n) ?spec o') name p = Some active"
      "ob_submits (apply_submit (node_pool n) ?spec o') = ob_submits o1 @ [(node_pool n, ?spec)]"
      using run2 by (simp_all add: apply_submit_def submit_spec_def stored_run_def)
    then show ?thesis using res rerun_active_fields [OF active] True Some run2 spec by auto
  qed
qed

text \<open>C35. A rerun answers what it did. Without a record of the node, or when the trigger rule of the
  node does not hold, nothing is written. Otherwise the graph run is active again, and the run at
  the next rerun count is the one it submitted, or was submitted before.\<close>

theorem rerun_outcomes:
  assumes "by_itself en obs" and "cache_ok en s" and "rerun en name p node s = (Inr out, s')"
  shows "\<exists>run g n t. stored_run en (obs (st_world s)) name p = Some run \<and>
     env_hash en t = run_definition run \<and> env_load en t = Inr g \<and> graph_node g node = Some n \<and>
     (case out of
       RerunNoRecord \<Rightarrow> stored_record en (obs (st_world s)) g p n = None \<and> obs (st_world s') = obs (st_world s)
     | RerunNotReady \<Rightarrow> stored_record en (obs (st_world s)) g p n \<noteq> None \<and> obs (st_world s') = obs (st_world s)
     | RerunActive rid \<Rightarrow> run_submitted rid (obs (st_world s)) \<and>
         ob_submits (obs (st_world s')) = ob_submits (obs (st_world s)) \<and>
         (\<exists>r active. stored_record en (obs (st_world s)) g p n = Some r \<and>
            rid = run_id (gr_name g) p (node_name n) (rec_rerun r + 1) \<and>
            stored_run en (obs (st_world s')) name p = Some active \<and> run_state active = RunActive)
     | RerunSubmitted rid \<Rightarrow>
         (\<exists>r active spec. stored_record en (obs (st_world s)) g p n = Some r \<and>
            rid = run_id (gr_name g) p (node_name n) (rec_rerun r + 1) \<and> rs_run_id spec = rid \<and>
            rs_headers spec = headers (identity g (rec_definition r) p n (rec_rerun r + 1)) \<and>
            ob_submits (obs (st_world s')) = ob_submits (obs (st_world s)) @ [(node_pool n, spec)] \<and>
            stored_run en (obs (st_world s')) name p = Some active \<and>
            run_state active = RunActive \<and> run_settled_at_ms active = None \<and> run_definition active = run_definition run \<and>
            is_ready n (current_records active (stored_records en (obs (st_world s)) g p))))"
proof -
  obtain run g n t where base: "stored_run en (obs (st_world s)) name p = Some run"
    "env_hash en t = run_definition run" "env_load en t = Inr g" "graph_node g node = Some n"
    and effect: "rerun_effect en name p (\<lambda>rid. []) g n run out (obs (st_world s)) (obs (st_world s'))"
    by (rule rerun_with_alone [OF assms(1,2) assms(3) [unfolded rerun_def]])
  from rerun_effect_outcome [OF effect] show ?thesis using base by blast
qed

theorem rerun_outcomes_witness:
  "\<exists>spec. mem_submits rerun_memory = mem_submits failed_memory @ [(''default'', spec)] \<and> rs_run_id spec = ''orders-none-extract-r1''"
proof -
  obtain run g n t spec where "env_hash example_env t = run_definition run" "env_load example_env t = Inr g"
    "stored_run example_env (memory_obs failed_memory) ''orders'' partition_none = Some run"
    "graph_node g ''extract'' = Some n" "rs_run_id spec = ''orders-none-extract-r1''"
    "mem_submits rerun_memory = mem_submits failed_memory @ [(node_pool n, spec)]"
    using rerun_outcomes [OF by_itself_example example_cache rerun_example] by auto
  moreover have "stored_run example_env (memory_obs failed_memory) ''orders'' partition_none = Some failed_run"
    by (simp add: stored_run_def failed_kv bt_get_def stored_codecs_def)
  moreover have "run_definition failed_run = ''ab''" by (simp add: failed_run_def)
  ultimately show ?thesis using example_load by (auto simp: example_hash_text)
qed

text \<open>C36. A rerun of a succeeded node makes the current records of its scope stale and no other: the
  record of a node is current afterwards exactly when it was current and the node is not reachable
  from the rerun node along the edges into all-succeeded nodes (a rerun count at its maximum apart).\<close>

theorem rerun_makes_scope_stale:
  assumes "wf_graph g" and "n \<in> set (gr_nodes g)" and "bt_wf records"
    and "rec_status r = Succeeded" and "is_current run (node_name n) r"
    and "rerun_active g n run r records = Some active"
    and "m \<in> set (gr_nodes g)" and "bt_get records (node_name m) = Some q" and "rec_rerun q + 1 \<noteq> 0"
  shows "is_current active (node_name m) q \<longleftrightarrow>
     is_current run (node_name m) q \<and>
     (node_name n, node_name m) \<notin>
        {(node_name a, node_name b) | a b. a \<in> set (gr_nodes g) \<and> b \<in> set (gr_nodes g) \<and>
           node_name b \<in> set (nd_downstreams a) \<and> node_trigger_rule b = AllSucceeded}\<^sup>*"
proof -
  let ?scope = "filter (\<lambda>m. (node_name n, node_name m) \<in> (scope_edge g)\<^sup>*) (gr_nodes g)"
  have active: "active = rerun_expected (run\<lparr>run_state := RunActive, run_settled_at_ms := None\<rparr>) records ?scope"
    using assms(4-6) by (simp add: rerun_active_def rerun_scope_reach [OF assms(1,2)])
  have mem: "node_name m \<in> node_name ` set ?scope \<longleftrightarrow> (node_name n, node_name m) \<in> (scope_edge g)\<^sup>*"
    using assms(7) by auto
  have get: "bt_get (run_expected_reruns active) (node_name m) =
      (if (node_name n, node_name m) \<in> (scope_edge g)\<^sup>* then Some (rec_rerun q + 1) else bt_get (run_expected_reruns run) (node_name m))"
    unfolding active rerun_expected_def using assms(8) mem by (simp add: rerun_expected_get [OF assms(3)])
  show ?thesis
    unfolding scope_edge_def [symmetric] is_current_def get using word_less_Suc [OF assms(9)] by auto
qed

theorem rerun_makes_scope_stale_witness:
  "\<exists>active. rerun_active example_graph extract_node example_run (node_record_of extract_node 0 Succeeded)
       [(''extract'', node_record_of extract_node 0 Succeeded), (''load'', node_record_of load_node 0 Succeeded)] = Some active \<and>
     \<not> is_current active ''load'' (node_record_of load_node 0 Succeeded)"
proof -
  let ?rs = "[(''extract'', node_record_of extract_node 0 Succeeded), (''load'', node_record_of load_node 0 Succeeded)]"
  have nodes: "extract_node \<in> set (gr_nodes example_graph)" "load_node \<in> set (gr_nodes example_graph)"
    by (simp_all add: example_nodes)
  have "rerun_active example_graph extract_node example_run (node_record_of extract_node 0 Succeeded) ?rs \<noteq> None"
    using rerun_scope_reach [OF example_wf nodes(1)] by (simp add: rerun_active_def Let_def)
  then obtain active where active: "rerun_active example_graph extract_node example_run (node_record_of extract_node 0 Succeeded) ?rs = Some active"
    by blast
  have edge: "(''extract'', ''load'') \<in> {(node_name a, node_name b) | a b. a \<in> set (gr_nodes example_graph) \<and>
      b \<in> set (gr_nodes example_graph) \<and> node_name b \<in> set (nd_downstreams a) \<and> node_trigger_rule b = AllSucceeded}\<^sup>*"
    using nodes by (intro r_into_rtrancl CollectI exI [of _ extract_node] exI [of _ load_node]) simp
  have wf: "bt_wf ?rs" by code_simp
  have facts: "rec_status (node_record_of extract_node 0 Succeeded) = Succeeded"
    "is_current example_run (node_name extract_node) (node_record_of extract_node 0 Succeeded)"
    "bt_get ?rs (node_name load_node) = Some (node_record_of load_node 0 Succeeded)"
    "rec_rerun (node_record_of load_node 0 Succeeded) + 1 \<noteq> 0"
    by (simp_all add: node_record_of_def is_current_def example_run_def new_run_record_def bt_get_def)
  show ?thesis
    using rerun_makes_scope_stale [OF example_wf nodes(1) wf facts(1,2) active nodes(2) facts(3,4)] active edge by simp
qed

subsection \<open>Requests\<close>

definition stored_request :: "('w, 'b, 'x, 'r) env \<Rightarrow> 'b obs \<Rightarrow> request_id \<Rightarrow> request_record option" where
  "stored_request en o1 i =
     (case ob_kv o1 (request_key i) of
       None \<Rightarrow> None
     | Some bs \<Rightarrow> (case dec_request (en_codecs en) bs of Inl e \<Rightarrow> None | Inr r \<Rightarrow> Some r))"

text \<open>A request is recorded when its record is stored with an entry of the expiry index.\<close>

definition request_recorded :: "('w, 'b, 'x, 'r) env \<Rightarrow> 'b obs \<Rightarrow> request_id \<Rightarrow> request_record \<Rightarrow> bool" where
  "request_recorded en o1 i r \<longleftrightarrow>
     stored_request en o1 i = Some r \<and> (rr_handled_at_ms r, expiring_suffix (ExpiringRequest i)) \<in> ob_expiry o1"

lemma request_recorded_effects:
  "codecs_ok (en_codecs en) \<Longrightarrow> request_recorded en (apply_effects (request_effects en i r) o1) i r"
  by (simp add: request_recorded_def stored_request_def request_effects_def codecs_ok_def)

lemma commit_request_alone:
  assumes ok: "by_itself en obs" and m: "commit_request en i r s = (Inr q, s')"
  shows "q = r \<and> request_recorded en (obs (st_world s')) i r"
proof -
  obtain w where "commit_effects (en_backend en) (request_effects en i r) (st_world s) = (Inr (), w)" "st_world s' = w" "q = r"
    using m by (auto simp: commit_request_def io_bind_Inr queue_io_Inr)
  then show ?thesis
    using alone_writes [OF backend_writes(4) [OF by_itself_backend [OF ok]]] request_recorded_effects ok
    by (fastforce simp: by_itself_def)
qed

lemma refuse_alone:
  assumes ok: "by_itself en obs"
    and "io_bind (io_of_sum (refusal e)) (\<lambda>reason. commit_request en i (f reason)) s = (Inr q, s')"
  shows "\<exists>reason. q = f reason \<and> request_recorded en (obs (st_world s')) i q"
proof (cases "is_permanent e")
  case True
  then have "commit_request en i (f (permanent_text e)) s = (Inr q, s')" using assms(2) by (simp add: refusal_io)
  then show ?thesis using commit_request_alone [OF ok] by blast
next
  case False
  then show ?thesis using assms(2) by (simp add: refusal_io)
qed

lemma apply_request_alone:
  assumes ok: "by_itself en obs" and cache: "cache_ok en s" and m: "apply_request en i req t s = (Inr r, s')"
  shows "rr_request r = req \<and> rr_handled_at_ms r = t \<and> request_recorded en (obs (st_world s')) i r"
proof (cases req)
  case (StartRequest g ps)
  then obtain out s1 where out: "start_runs en g ps s = (out, s1)"
    and rest: "(case out of
              Inr started \<Rightarrow> commit_request en i (request_record_of req t (StartedOutcome started))
            | Inl e \<Rightarrow> io_bind (io_of_sum (refusal e)) (\<lambda>reason. commit_request en i (request_record_of req t (RefusedOutcome reason)))) s1 = (Inr r, s')"
    using m by (auto simp: apply_request_def io_bind_Inr Let_def)
  show ?thesis
    using rest commit_request_alone [OF ok] refuse_alone [OF ok]
    by (cases out) (fastforce simp: request_record_of_def)+
next
  case (CancelRequest g p)
  then obtain b s1 where
    rest: "commit_request en i (request_record_of req t b) s1 = (Inr r, s')"
    using m by (auto simp: apply_request_def io_bind_Inr Let_def split: if_splits)
  then show ?thesis using commit_request_alone [OF ok rest] by (simp add: request_record_of_def)
next
  case (RerunRequest g p node)
  then obtain out s1 where out: "rerun_with en g p node (\<lambda>rid. request_effects en i (request_record_of req t (RerunOutcome rid))) s = (out, s1)"
    and rest: "(case out of
              Inr (RerunSubmitted rid) \<Rightarrow> io_return (request_record_of req t (RerunOutcome rid))
            | Inr other \<Rightarrow> commit_request en i (request_record_of req t (RefusedOutcome (rerun_refusal node other)))
            | Inl e \<Rightarrow> io_bind (io_of_sum (refusal e)) (\<lambda>reason. commit_request en i (request_record_of req t (RefusedOutcome reason)))) s1 = (Inr r, s')"
    using m by (auto simp: apply_request_def io_bind_Inr Let_def)
  show ?thesis
  proof (cases "\<exists>rid. out = Inr (RerunSubmitted rid)")
    case True
    then obtain rid where rid: "out = Inr (RerunSubmitted rid)" by blast
    then have r: "r = request_record_of req t (RerunOutcome rid)" and s1: "s1 = s'" using rest by auto
    obtain run g' n where "rerun_effect en g p (\<lambda>rid. request_effects en i (request_record_of req t (RerunOutcome rid))) g' n run
        (RerunSubmitted rid) (obs (st_world s)) (obs (st_world s'))"
      by (rule rerun_with_alone [OF ok cache out [unfolded rid s1]])
    then obtain o' spec pool where "obs (st_world s') = apply_submit pool spec o'"
      and effects: "rs_effects spec = request_effects en i (request_record_of req t (RerunOutcome rid))"
      by (auto simp: rerun_effect_def Let_def split: option.splits if_splits)
    then have "obs (st_world s') = apply_effects (request_effects en i r) (o'\<lparr>ob_submits := ob_submits o' @ [(pool, spec)]\<rparr>)"
      by (simp add: apply_submit_def r)
    moreover have "codecs_ok (en_codecs en)" using ok by (simp add: by_itself_def)
    ultimately have "request_recorded en (obs (st_world s')) i r" by (simp add: request_recorded_effects del: apply_effects_simps)
    then show ?thesis by (simp add: r request_record_of_def)
  next
    case False
    show ?thesis
    proof (cases out)
      case (Inl e)
      then show ?thesis using rest refuse_alone [OF ok] by (fastforce simp: request_record_of_def)
    next
      case (Inr other)
      then have "commit_request en i (request_record_of req t (RefusedOutcome (rerun_refusal node other))) s1 = (Inr r, s')"
        using rest False by (cases other) auto
      then show ?thesis using commit_request_alone [OF ok] by (fastforce simp: request_record_of_def)
    qed
  qed
qed

lemma handle_request_alone:
  assumes ok: "by_itself en obs" and cache: "cache_ok en s" and m: "handle_request en i req s = (Inr r, s')"
  shows "case stored_request en (obs (st_world s)) i of
      Some q \<Rightarrow> r = q \<and> obs (st_world s') = obs (st_world s)
    | None \<Rightarrow> rr_request r = req \<and> request_recorded en (obs (st_world s')) i r"
proof -
  from m obtain v s1 where v: "read_io (read_record (en_backend en) (dec_request (en_codecs en)) (request_key i)) s = (Inr v, s1)"
    and rest: "(case v of Some r \<Rightarrow> io_return r | None \<Rightarrow> io_bind (clock_io en) (\<lambda>t. apply_request en i req t)) s1 = (Inr r, s')"
    unfolding handle_request_def by (rule io_bind_InrE)
  from v obtain b w where get: "kv_get (en_backend en) (request_key i) (st_world s) = (Inr b, w)" and s1: "s1 = s\<lparr>st_world := w\<rparr>"
    and b: "case b of None \<Rightarrow> v = None | Some bs \<Rightarrow> \<exists>q. dec_request (en_codecs en) bs = Inr q \<and> v = Some q"
    by (fastforce simp: read_record_def io_results split: option.splits)
  have read: "b = ob_kv (obs (st_world s)) (request_key i)" "obs w = obs (st_world s)"
    using alone_value [OF backend_kv_get [OF by_itself_backend [OF ok]] get] by simp_all
  have stored: "stored_request en (obs (st_world s)) i = v"
    using b by (auto simp: stored_request_def read(1) [symmetric] split: option.splits)
  show ?thesis
  proof (cases v)
    case None
    then have "io_bind (clock_io en) (\<lambda>t. apply_request en i req t) s1 = (Inr r, s')" using rest by simp
    then obtain t :: nat and s2 where "clock_io en s1 = (Inr t :: scheduler_error + nat, s2)" and a: "apply_request en i req t s2 = (Inr r, s')"
      by (rule io_bind_InrE)
    then have "cache_ok en s2" using cache by (simp add: clock_io_result s1)
    from apply_request_alone [OF ok this a] show ?thesis by (simp add: stored None)
  next
    case (Some q)
    then show ?thesis using rest read(2) by (simp add: stored s1)
  qed
qed

text \<open>C18. A request is applied once. Handling it leaves its record in the store, with an entry of the
  expiry index; a request with a record is answered by it and nothing is written, so handling the
  request again, with whatever payload, returns the same record and changes nothing.\<close>

theorem request_applied_once:
  assumes "by_itself en obs" and "cache_ok en s" and "handle_request en i req s = (Inr r, s')"
  shows "stored_request en (obs (st_world s')) i = Some r \<and>
     (stored_request en (obs (st_world s)) i = None \<longrightarrow>
        rr_request r = req \<and> (rr_handled_at_ms r, expiring_suffix (ExpiringRequest i)) \<in> ob_expiry (obs (st_world s'))) \<and>
     (stored_request en (obs (st_world s)) i \<noteq> None \<longrightarrow> obs (st_world s') = obs (st_world s)) \<and>
     (\<forall>s1 req2 r2 s2. obs (st_world s1) = obs (st_world s') \<longrightarrow> cache_ok en s1 \<longrightarrow> handle_request en i req2 s1 = (Inr r2, s2) \<longrightarrow>
        r2 = r \<and> obs (st_world s2) = obs (st_world s'))"
proof -
  note first = handle_request_alone [OF assms]
  have stored: "stored_request en (obs (st_world s')) i = Some r"
    using first by (auto simp: request_recorded_def split: option.splits)
  have "r2 = r \<and> obs (st_world s2) = obs (st_world s')"
    if "obs (st_world s1) = obs (st_world s')" "cache_ok en s1" "handle_request en i req2 s1 = (Inr r2, s2)" for s1 req2 r2 s2
    using handle_request_alone [OF assms(1) that(2,3)] that(1) stored by simp
  moreover have "stored_request en (obs (st_world s)) i = None \<longrightarrow>
      rr_request r = req \<and> (rr_handled_at_ms r, expiring_suffix (ExpiringRequest i)) \<in> ob_expiry (obs (st_world s'))"
    and "stored_request en (obs (st_world s)) i \<noteq> None \<longrightarrow> obs (st_world s') = obs (st_world s)"
    using first by (auto simp: request_recorded_def split: option.splits)
  ultimately show ?thesis using stored by blast
qed

theorem request_applied_once_witness:
  "stored_request example_env (memory_obs requested_memory) (RequestId ''r1'') = Some example_request_record"
  using request_applied_once [OF by_itself_example example_cache handle_example] by simp

end
