(* ===== verification/Run_Life.thy ===== *)
theory Run_Life
  imports System
begin

section \<open>The life of a graph run\<close>

text \<open>
  The abstract specification of a graph run: it is absent, active or settled, with the definition
  it was started with. It starts active, settles in a final state, is made active again by a rerun and
  is removed when its settle time has expired. The store, with every worker of the system, refines it.
\<close>

datatype life =
    Absent
  | Active string
  | Settled string graph_run_state nat
  | Corrupt

inductive life_step :: "life \<Rightarrow> life \<Rightarrow> bool" where
  life_start: "life_step Absent (Active hash)"
| life_settle: "state \<noteq> RunActive \<Longrightarrow> life_step (Active hash) (Settled hash state t)"
| life_rerun: "life_step (Settled hash state t) (Active hash)"
| life_expire: "life_step (Settled hash state t) Absent"

inductive_simps life_step_simps [simp]:
  "life_step Absent l" "life_step (Active hash) l" "life_step (Settled hash state t) l" "life_step Corrupt l"

text \<open>The life of the run that is stored at a key. A value that is not a record is corrupt.\<close>

definition life_of :: "('w, 'b, 'x, 'r) env \<Rightarrow> 'b obs \<Rightarrow> bytes \<Rightarrow> life" where
  "life_of en o1 key =
     (case ob_kv o1 key of
       None \<Rightarrow> Absent
     | Some bs \<Rightarrow>
         (case dec_run (en_codecs en) bs of
           Inl e \<Rightarrow> Corrupt
         | Inr run \<Rightarrow>
             (case run_settled_at_ms run of
               None \<Rightarrow> Active (run_definition run)
             | Some t \<Rightarrow> Settled (run_definition run) (run_state run) t)))"

lemma life_of_run:
  "codecs_ok (en_codecs en) \<Longrightarrow> ob_kv o1 key = Some (enc_run (en_codecs en) run) \<Longrightarrow>
     life_of en o1 key =
       (case run_settled_at_ms run of None \<Rightarrow> Active (run_definition run) | Some t \<Rightarrow> Settled (run_definition run) (run_state run) t)"
  by (simp add: life_of_def codecs_ok_def)

lemma request_effects_run_key:
  "ob_kv (apply_effects (request_effects en i r) o1) (graph_run_key g p) = ob_kv o1 (graph_run_key g p)"
  by (simp add: request_effects_def keys_distinct)

text \<open>One write of the store: the run at a key takes a step of its life, or stays as it is.\<close>

lemma life_step_store:
  assumes codecs: "codecs_ok (en_codecs en)" and inv: "expiry_inv en o1" and "store_step en o1 o2"
    and ok: "is_name g" "partition_ok p"
  shows "life_step\<^sup>=\<^sup>= (life_of en o1 (graph_run_key g p)) (life_of en o2 (graph_run_key g p))"
  using assms(3)
proof cases
  case (step_start h q hash t)
  then show ?thesis
    using life_of_run [OF codecs, of o2 "graph_run_key g p" "new_run_record hash t"]
    by (cases "graph_run_key g p = graph_run_key h q") (auto simp: new_run_record_def life_of_def)
next
  case (step_settle h q bs run settled t)
  show ?thesis
  proof (cases "graph_run_key g p = graph_run_key h q")
    case True
    then have "run_settled_at_ms run = None"
      using inv step_settle ok unfolding expiry_inv_def run_indexed_def by (metis (full_types))
    then show ?thesis
      using True step_settle life_of_run [OF codecs, of o2 "graph_run_key g p" "settled\<lparr>run_settled_at_ms := Some t\<rparr>"]
      by (simp add: settle_effects_def life_of_def [of en o1])
  next
    case False
    then show ?thesis using step_settle by (simp add: settle_effects_def life_of_def)
  qed
next
  case (step_reactivate h q bs run active)
  show ?thesis
  proof (cases "graph_run_key g p = graph_run_key h q")
    case True
    then have "life_of en o2 (graph_run_key g p) = Active (run_definition run)"
      using step_reactivate(1,5,6) life_of_run [OF codecs, of o2 "graph_run_key g p" active] by simp
    moreover have "life_of en o1 (graph_run_key g p) \<in> {Active (run_definition run), Settled (run_definition run) (run_state run) (the (run_settled_at_ms run))}"
      using True step_reactivate(2,3) by (simp add: life_of_def split: option.split)
    ultimately show ?thesis by auto
  next
    case False
    then show ?thesis using step_reactivate(1) by (simp add: life_of_def)
  qed
next
  case (step_submit spec pool)
  then have "ob_kv o2 (graph_run_key g p) = ob_kv o1 (graph_run_key g p)"
    by (elim disjE exE) (simp_all add: apply_submit_def request_effects_run_key)
  then show ?thesis by (simp add: life_of_def)
next
  case (step_expire_run h q bs run t keys)
  have kv: "ob_kv o2 k = (if k \<in> set (graph_run_key h q # keys) then None else ob_kv o1 k)" for k
    by (simp only: step_expire_run(1) deletes_kv) simp
  have "graph_run_key g p \<notin> set keys" using step_expire_run(5) by (auto simp: keys_distinct)
  then show ?thesis
    using step_expire_run(2-4) by (cases "graph_run_key g p = graph_run_key h q") (auto simp: kv life_of_def)
next
  case (step_request i r)
  then have "ob_kv o2 (graph_run_key g p) = ob_kv o1 (graph_run_key g p)" by (simp add: request_effects_run_key)
  then show ?thesis by (simp add: life_of_def)
next
  case (step_node h q n a r)
  then have "ob_kv o2 (graph_run_key g p) = ob_kv o1 (graph_run_key g p)" by (simp add: keys_distinct)
  then show ?thesis by (simp add: life_of_def)
next
  case (step_adopt h r)
  then have "ob_kv o2 (graph_run_key g p) = ob_kv o1 (graph_run_key g p)" by (simp add: keys_distinct)
  then show ?thesis by (simp add: life_of_def)
next
  case (step_expire_request i t)
  then have "ob_kv o2 (graph_run_key g p) = ob_kv o1 (graph_run_key g p)" by (simp add: keys_distinct)
  then show ?thesis by (simp add: life_of_def)
next
  case (step_discard e)
  then show ?thesis by (simp add: life_of_def)
next
  case (step_objects objects)
  then show ?thesis by (simp add: life_of_def)
qed

lemma life_steps_store:
  assumes codecs: "codecs_ok (en_codecs en)" and "(store_step en)\<^sup>*\<^sup>* o1 o2" and "expiry_inv en o1"
    and ok: "is_name g" "partition_ok p"
  shows "life_step\<^sup>*\<^sup>* (life_of en o1 (graph_run_key g p)) (life_of en o2 (graph_run_key g p))"
  using assms(2,3)
proof induction
  case (step o2 o3)
  then have "expiry_inv en o2" using expiry_inv_steps [OF codecs] by blast
  from life_step_store [OF codecs this step.hyps(2) ok] step show ?case by (auto intro: rtranclp.rtrancl_into_rtrancl)
qed simp



end
