(* ===== verification/Retention_Properties.thy ===== *)
theory Retention_Properties
  imports Retention Scheduler_Runs
begin

section \<open>Retention keeps what is not due\<close>

text \<open>
  A pass of the retention by itself, on a store where only what it removes changes.
\<close>

text \<open>The records that a pass at the time \<open>now\<close> keeps: a run that is not settled or settled later
  than the retention before it, and a request handled later.\<close>

definition not_due :: "nat \<Rightarrow> nat \<Rightarrow> nat option \<Rightarrow> bool" where
  "not_due now retention t \<longleftrightarrow> (case t of None \<Rightarrow> True | Some u \<Rightarrow> now < u + retention)"

text \<open>What a verdict on a due entry removes is at the time of the entry.\<close>

lemma verdict_keeps_run:
  assumes v: "verdict_ok en entry o1 x" and cond: "expired_cond x o1" and due: "fst entry + retention \<le> now"
    and run: "ob_kv o1 (graph_run_key g p) = Some bs" "dec_run (en_codecs en) bs = Inr run" "not_due now retention (run_settled_at_ms run)"
  shows "ob_kv (apply_expired entry x o1) (graph_run_key g p) = Some bs"
proof (cases x)
  case (ExpiredDeleteIf k e es)
  from v consider h q run' nodes where "k = graph_run_key h q" "run_settled_at_ms run' = Some (fst entry)"
      "\<exists>bs'. e = Some bs' \<and> dec_run (en_codecs en) bs' = Inr run'"
      "es = map DeleteEffect (k # map (node_record_key h q) nodes)"
    | i where "k = request_key i" "es = [DeleteEffect k]"
    unfolding ExpiredDeleteIf verdict_ok_def by fastforce
  then show ?thesis
  proof cases
    case 1
    then have "k \<noteq> graph_run_key g p"
      using cond run due by (auto simp: ExpiredDeleteIf expired_cond_def not_due_def)
    then show ?thesis
      using 1(1,4) run(1) by (simp only: ExpiredDeleteIf apply_expired_def expired.case deletes_kv)
        (auto simp: node_record_key_def keys_distinct)
  next
    case 2
    then show ?thesis using run(1) by (simp add: ExpiredDeleteIf apply_expired_def keys_distinct)
  qed
qed (use v run(1) in \<open>simp_all add: apply_expired_def verdict_ok_def\<close>)

lemma verdict_keeps_request:
  assumes v: "verdict_ok en entry o1 x" and cond: "expired_cond x o1" and due: "fst entry + retention \<le> now"
    and req: "ob_kv o1 (request_key i) = Some bs" "dec_request (en_codecs en) bs = Inr r" "now < rr_handled_at_ms r + retention"
  shows "ob_kv (apply_expired entry x o1) (request_key i) = Some bs"
proof (cases x)
  case (ExpiredDeleteIf k e es)
  from v consider h q nodes where "es = map DeleteEffect (graph_run_key h q # map (node_record_key h q) nodes)"
    | j r' where "k = request_key j" "es = [DeleteEffect k]" "rr_handled_at_ms r' = fst entry"
      "\<exists>bs'. e = Some bs' \<and> dec_request (en_codecs en) bs' = Inr r'"
    unfolding ExpiredDeleteIf verdict_ok_def by fastforce
  then show ?thesis
  proof cases
    case 1
    then show ?thesis
      using req(1) by (simp only: ExpiredDeleteIf apply_expired_def expired.case deletes_kv)
        (auto simp: node_record_key_def keys_distinct)
  next
    case 2
    then have "k \<noteq> request_key i" using cond req due by (auto simp: ExpiredDeleteIf expired_cond_def)
    then show ?thesis using 2 req(1) by (simp add: ExpiredDeleteIf apply_expired_def)
  qed
qed (use v req(1) in \<open>simp_all add: apply_expired_def verdict_ok_def\<close>)

text \<open>What every verdict on a due entry keeps, the pass keeps.\<close>

interpretation keeping: io_contract "\<lambda>s s'. True" "\<lambda>s. P (obs (st_world s))" for P obs
  by standard simp_all

definition keeps_obs :: "('b obs \<Rightarrow> bool) \<Rightarrow> ('w \<Rightarrow> 'b obs) \<Rightarrow> (('w, 'x) process, scheduler_error, 'a) io \<Rightarrow> ('a \<Rightarrow> bool) \<Rightarrow> bool" where
  "keeps_obs P obs m Q \<longleftrightarrow> io_meets (\<lambda>s. P (obs (st_world s))) (\<lambda>s s'. True) m Q (\<lambda>e. True)"

lemma keeps_obs_quiet: "io_keeps (quiet en alone obs) m \<Longrightarrow> keeps_obs P obs m (\<lambda>a. True)"
  unfolding keeps_obs_def io_meets_def by (auto dest: quiet_alone split: sum.split)

lemma keeps_obs_entry:
  assumes ok: "backend_ok alone (en_backend en) obs"
    and keep: "\<And>o1 x. verdict_ok en entry o1 x \<Longrightarrow> expired_cond x o1 \<Longrightarrow> P o1 \<Longrightarrow> P (apply_expired entry x o1)"
  shows "keeps_obs P obs (io_bind (expire_verdict en entry st) (\<lambda>(x, st').
     io_bind (queue_io (expiry_apply (en_backend en) entry x)) (\<lambda>u. io_return st'))) (\<lambda>st. True)"
  unfolding keeps_obs_def io_meets_def
proof (intro allI impI)
  fix s r s'
  assume P: "P (obs (st_world s))" and run: "io_bind (expire_verdict en entry st) (\<lambda>(x, st').
     io_bind (queue_io (expiry_apply (en_backend en) entry x)) (\<lambda>u. io_return st')) s = (r, s')"
  from run have "P (obs (st_world s'))"
  proof (cases rule: io_bind_cases)
    case (error e)
    then show ?thesis using P quiet_alone [OF quiet_verdict [OF ok]] by simp
  next
    case (ok a s1)
    obtain x st' where a: "a = (x, st')" by (cases a)
    have same: "obs (st_world s1) = obs (st_world s)" using quiet_alone [OF quiet_verdict [OF assms(1)]] ok(1) by blast
    obtain q w where q: "expiry_apply (en_backend en) entry x (st_world s1) = (q, w)" and s': "st_world s' = w"
      using ok(2) by (auto simp: a queue_io_def world_io_result io_map_error_result elim!: io_bind_cases)
    have "verdict_ok en entry (obs (st_world s1)) x" using verdict_alone [OF assms(1)] ok(1) a by blast
    moreover have "obs w = obs (st_world s1) \<or>
        expired_cond x (obs (st_world s1)) \<and> obs w = apply_expired entry x (obs (st_world s1))"
      using backend_expires [OF assms(1), of entry x] q unfolding expires_def by (auto 0 3)
    ultimately show ?thesis using keep P same s' by metis
  qed
  then show "P (obs (st_world s')) \<and> True \<and> (case r of Inl e \<Rightarrow> True | Inr a \<Rightarrow> True)" by (simp split: sum.split)
qed

lemma expire_keeps:
  fixes en :: "('w, 'b, 'x, 'r) env"
  assumes ok: "backend_ok alone (en_backend en) obs" and P: "P (obs (st_world s))"
    and keep: "\<And>entry o1 x. fst entry + retention \<le> fst (clock_now (en_backend en) (st_world s)) \<Longrightarrow>
      verdict_ok en entry o1 x \<Longrightarrow> expired_cond x o1 \<Longrightarrow> P o1 \<Longrightarrow> P (apply_expired entry x o1)"
    and run: "expire en retention s = (r, s')"
  shows "P (obs (st_world s'))"
proof -
  let ?now = "fst (clock_now (en_backend en) (st_world s))"
  let ?entry = "\<lambda>entry st. io_bind (expire_verdict en entry st) (\<lambda>(x, st').
     io_bind (queue_io (expiry_apply (en_backend en) entry x)) (\<lambda>u. io_return st'))"
  let ?rest = "\<lambda>entries. io_bind (io_fold ?entry entries (\<lparr>ex_runs = 0, ex_requests = 0\<rparr>, None)) (\<lambda>(report, failure).
     case failure of Some e \<Rightarrow> io_fail e | None \<Rightarrow> io_return report)"
  have fold: "keeps_obs P obs (?rest entries) (\<lambda>x. True)"
    if "\<forall>entry \<in> set entries. fst entry + retention \<le> ?now" for entries
  proof -
    have "keeps_obs P obs (io_fold ?entry entries (\<lparr>ex_runs = 0, ex_requests = 0\<rparr>, None)) (\<lambda>x. True)"
      using keeps_obs_entry [OF ok, of _ P] keep that unfolding keeps_obs_def by (intro keeping.meets_fold) blast+
    then show ?thesis
      unfolding keeps_obs_def
      by (rule keeping.meets_bind) (auto intro!: keeping.meets_fail keeping.meets_return split: option.split)
  qed
  obtain s1 where clock: "clock_io en s = (Inr ?now :: scheduler_error + nat, s1)"
    by (cases "clock_now (en_backend en) (st_world s)") (simp add: clock_io_def)
  have s1: "obs (st_world s1) = obs (st_world s)" by (rule quiet_alone [OF quiet_clock [OF ok] clock])
  have "io_bind (queue_io (expiry_due (en_backend en) ?now retention)) ?rest s1 = (r, s')"
    using run clock by (simp add: expire_def io_bind_def)
  then show ?thesis
  proof (cases rule: io_bind_cases)
    case (error e)
    then have "obs (st_world s') = obs (st_world s1)"
      using alone_reads [OF backend_reads(9) [OF ok]] by (auto simp: queue_io_def world_io_result io_map_error_result)
    then show ?thesis using P s1 by simp
  next
    case (ok entries s2)
    then obtain w where "expiry_due (en_backend en) ?now retention (st_world s1) = (Inr entries, w)" "st_world s2 = w"
      by (auto simp: queue_io_def world_io_result)
    from alone_value [OF backend_due [OF assms(1)] this(1)] this(2)
    have "obs (st_world s2) = obs (st_world s1)" "\<forall>entry \<in> set entries. fst entry + retention \<le> ?now" by auto
    then have "keeps_obs P obs (?rest entries) (\<lambda>x. True)" "P (obs (st_world s2))" using fold P s1 by simp_all
    then show ?thesis
      using ok(2) keeping.meetsD [of P obs "?rest entries" "\<lambda>x. True" "\<lambda>e. True" s2 r s'] unfolding keeps_obs_def by blast
  qed
qed

text \<open>C17. A pass of the retention, by itself, keeps what is not due: a graph run that is active, a graph run
  that settled within the retention before the pass and a request handled within it keep their records,
  whatever the pass returns.\<close>

theorem retention_keeps_unexpired:
  assumes "backend_ok alone (en_backend en) obs" and "expire en retention s = (r, s')"
  shows "(\<forall>g p bs run. ob_kv (obs (st_world s)) (graph_run_key g p) = Some bs \<longrightarrow> dec_run (en_codecs en) bs = Inr run \<longrightarrow>
       (case run_settled_at_ms run of None \<Rightarrow> True | Some t \<Rightarrow> fst (clock_now (en_backend en) (st_world s)) < t + retention) \<longrightarrow>
       ob_kv (obs (st_world s')) (graph_run_key g p) = Some bs) \<and>
     (\<forall>i bs q. ob_kv (obs (st_world s)) (request_key i) = Some bs \<longrightarrow> dec_request (en_codecs en) bs = Inr q \<longrightarrow>
       fst (clock_now (en_backend en) (st_world s)) < rr_handled_at_ms q + retention \<longrightarrow>
       ob_kv (obs (st_world s')) (request_key i) = Some bs)"
proof (intro conjI allI impI)
  fix g p bs run
  assume "ob_kv (obs (st_world s)) (graph_run_key g p) = Some bs" "dec_run (en_codecs en) bs = Inr run"
    "case run_settled_at_ms run of None \<Rightarrow> True | Some t \<Rightarrow> fst (clock_now (en_backend en) (st_world s)) < t + retention"
  then show "ob_kv (obs (st_world s')) (graph_run_key g p) = Some bs"
    by (intro expire_keeps [OF assms(1) _ _ assms(2), where P = "\<lambda>o1. ob_kv o1 (graph_run_key g p) = Some bs"])
      (auto intro: verdict_keeps_run simp: not_due_def)
next
  fix i bs q
  assume "ob_kv (obs (st_world s)) (request_key i) = Some bs" "dec_request (en_codecs en) bs = Inr q"
    "fst (clock_now (en_backend en) (st_world s)) < rr_handled_at_ms q + retention"
  then show "ob_kv (obs (st_world s')) (request_key i) = Some bs"
    by (intro expire_keeps [OF assms(1) _ _ assms(2), where P = "\<lambda>o1. ob_kv o1 (request_key i) = Some bs"])
      (auto intro: verdict_keeps_request)
qed

theorem retention_keeps_unexpired_witness:
  "ob_kv (memory_obs (st_world (snd (expire example_env 10 (example_process requested_memory))))) (graph_run_key ''orders'' partition_none) =
     Some (StoredRun cancelled_run)"
proof -
  obtain r s' where run: "expire example_env 10 (example_process requested_memory) = (r, s')" by fastforce
  have "ob_kv (memory_obs (st_world (example_process requested_memory))) (graph_run_key ''orders'' partition_none) = Some (StoredRun cancelled_run)"
    "dec_run (en_codecs example_env) (StoredRun cancelled_run) = Inr cancelled_run" "run_settled_at_ms cancelled_run = Some 50"
    by (simp_all add: requested_memory_def bt_get_def stored_codecs_def cancelled_run_def)
  then show ?thesis
    using retention_keeps_unexpired [OF example_env_ok(1) run, THEN conjunct1] run by fastforce
qed

end
