(* ===== verification/Dispatch.thy ===== *)
theory Dispatch
  imports Hook
begin

section \<open>The step runner (\<open>dispatch.rs\<close>)\<close>

text \<open>
  One step of a task instance: the runner reads the input and the identity, renders the parameters
  and runs the operator, or takes a step of the state machine of a mapped node over the run group of
  its members. The run group is \<open>taquba-workflow\<close>'s and a parameter, as are the runners of the
  operators, the JSON text of a value and the codec of a phase, which \<open>serde\<close> derives. A duration is
  its count of nanoseconds; a step's cancellation token is read from the state of the services.
\<close>

datatype step_error = StepPermanent string | StepTransient string

datatype 'b step_outcome = StepSucceed bytes | StepFail string | StepContinue 'b nat

text \<open>The outcome of an operator (\<open>operator/mod.rs\<close>).\<close>

datatype op_outcome = OpSucceeded json | OpFailed string | OpContinue json nat

record ('w, 'b) step =
  stp_payload :: 'b
  stp_headers :: "string \<Rightarrow> string option"
  stp_max_attempts :: u32
  stp_attempts :: u32
  stp_cancelled :: "'w \<Rightarrow> bool"

record ('w, 'b) task =
  tk_step :: "('w, 'b) step"
  tk_identity :: task_identity
  tk_params :: json
  tk_inputs :: "(string, json) btree"
  tk_state :: "json option"
  tk_now_ms :: nat

type_synonym ('w, 'b) op_run = "('w, 'b) task \<Rightarrow> json \<Rightarrow> ('w, step_error, op_outcome) io"

subsection \<open>The run group of a mapped node\<close>

record group_status =
  gs_total :: nat
  gs_pending :: nat
  gs_succeeded :: nat
  gs_failed :: nat
  gs_cancelled :: nat

record member_result =
  mr_key :: string
  mr_status :: terminal_status
  mr_error :: "string option"
  mr_outcome :: "bytes option option"

record 'b group_member =
  gm_key :: string
  gm_input :: 'b

record ('w, 'b) run_group =
  rg_id :: string
  rg_submit :: "'b group_member list \<Rightarrow> (string \<Rightarrow> string option) \<Rightarrow> u32 \<Rightarrow> ('w, workflow_error, unit) io"
  rg_status :: "('w, workflow_error, group_status) io"
  rg_cancel :: "string option \<Rightarrow> ('w, workflow_error, unit) io"
  rg_forget :: "('w, workflow_error, unit) io"
  rg_results :: "('w, workflow_error, member_result list) io"

datatype phase = SubmitPhase u32 | PollPhase u32 | FinishPhase json

text \<open>The runner. \<open>dp_group\<close> gives the group of an id on the runtime of the runner's pool, if it has one.\<close>

record ('w, 'b) dispatch =
  dp_operators :: "('w, 'b) op_run operator_set"
  dp_env :: "(string, string) btree"
  dp_poll_interval :: nat
  dp_poll_max_interval :: nat
  dp_group :: "string \<Rightarrow> ('w, 'b) run_group option"
  dp_clock :: "'w \<Rightarrow> nat \<times> 'w"
  dp_hook :: hook_env
  dp_codecs :: "'b codecs"
  dp_json_text :: "json \<Rightarrow> string"
  dp_json_parse :: "string \<Rightarrow> string + json"
  dp_enc_phase :: "phase \<Rightarrow> json"
  dp_dec_phase :: "json \<Rightarrow> string + phase"

definition group_replaced :: string where
  "group_replaced = ''the members of the node changed''"

definition task_instance_cancelled :: string where
  "task_instance_cancelled = ''the task instance is cancelled''"

definition second :: nat where "second = 1000000000"

definition default_member_poll_interval :: nat where
  "default_member_poll_interval = second"

definition default_member_poll_max_interval :: nat where
  "default_member_poll_max_interval = 30 * second"

text \<open>The longest duration: \<open>u64::MAX\<close> seconds and 999999999 nanoseconds.\<close>

definition duration_max :: nat where
  "duration_max = (2 ^ 64 - 1) * second + 999999999"

definition member_poll_delay :: "('w, 'b) dispatch \<Rightarrow> u32 \<Rightarrow> nat" where
  "member_poll_delay dp polls =
     min (min (dp_poll_interval dp * min (2 ^ unat polls) (2 ^ 32 - 1)) duration_max)
       (max (dp_poll_max_interval dp) (dp_poll_interval dp))"

definition step_error_of :: "workflow_error \<Rightarrow> step_error" where
  "step_error_of e = (if we_permanent e then StepPermanent (we_text e) else StepTransient (we_text e))"

subsection \<open>Error texts\<close>

definition show_render_error :: "render_error \<Rightarrow> string" where
  "show_render_error e =
     (case e of
       MissingUpstream n \<Rightarrow> ''no output is recorded for upstream `'' @ n @ ''`''
     | MissingPath n path \<Rightarrow> ''path `'' @ path @ ''` is absent from the output of upstream `'' @ n @ ''`''
     | MissingEnv name \<Rightarrow> ''environment variable `'' @ name @ ''` is not set''
     | MissingItem \<Rightarrow> ''the run does not have an item''
     | MissingItemPath path \<Rightarrow> ''path `'' @ path @ ''` is absent from the item'')"

definition show_items_error :: "items_error \<Rightarrow> string" where
  "show_items_error e =
     (case e of
       ItemsRender r \<Rightarrow> ''`each`: '' @ show_render_error r
     | NotAnArray message \<Rightarrow> ''`each` does not render to a JSON array: '' @ message)"

definition show_identity_error :: "identity_error \<Rightarrow> string" where
  "show_identity_error e =
     (case e of
       MissingHeader h \<Rightarrow> ''header `'' @ h @ ''` is absent''
     | PartitionHeader (InvalidPartition t) \<Rightarrow> ''header `'' @ header_partition @ ''`: `'' @ t @
         ''` is not a partition key: `[A-Za-z0-9_]` of one to 16 bytes''
     | RerunHeader t \<Rightarrow> ''header `'' @ header_rerun @ ''` is not a count: `'' @ t @ ''`'')"

subsection \<open>The output of a mapped node\<close>

datatype no_outputs = MembersFailed string | ResultRemoved

text \<open>The position of a member is its key; a key that is not a position sorts last.\<close>

definition member_position :: "member_result \<Rightarrow> nat" where
  "member_position r = (case parse_unsigned u64_max (mr_key r) of None \<Rightarrow> u64_max | Some i \<Rightarrow> i)"

definition failed_text :: "nat \<Rightarrow> member_result list \<Rightarrow> string" where
  "failed_text count failed =
     (let first = hd failed;
          error = (case mr_error first of
            Some e \<Rightarrow> e
          | None \<Rightarrow> if mr_status first = TerminalCancelled then ''cancelled'' else ''failed'')
      in show_nat (length failed) @ '' of '' @ show_nat count @ '' members did not succeed, and member '' @
         mr_key first @ '' is the first: '' @ error)"

fun collect_outputs :: "hook_env \<Rightarrow> member_result list \<Rightarrow> no_outputs + json list" where
  "collect_outputs hk [] = Inr []"
| "collect_outputs hk (r # rs) =
     (case mr_outcome r of
       None \<Rightarrow> Inl ResultRemoved
     | Some result \<Rightarrow>
         (case collect_outputs hk rs of
           Inl e \<Rightarrow> Inl e
         | Inr vs \<Rightarrow> Inr ((case result of None \<Rightarrow> JNull | Some bs \<Rightarrow> output_value hk bs) # vs)))"

definition member_outputs :: "hook_env \<Rightarrow> member_result list \<Rightarrow> no_outputs + json" where
  "member_outputs hk results =
     (let members = sort_key member_position results;
          failed = filter (\<lambda>r. mr_status r \<noteq> TerminalSucceeded) members
      in if failed \<noteq> [] then Inl (MembersFailed (failed_text (length results) failed))
         else (case collect_outputs hk members of Inl e \<Rightarrow> Inl e | Inr vs \<Rightarrow> Inr (JArray vs)))"

subsection \<open>A step of a mapped node\<close>

definition group_io :: "('w, workflow_error, 'a) io \<Rightarrow> ('w, step_error, 'a) io" where
  "group_io m = io_map_error step_error_of m"

definition next_phase :: "('w, 'b) dispatch \<Rightarrow> task_input \<Rightarrow> phase \<Rightarrow> nat \<Rightarrow> 'b step_outcome" where
  "next_phase dp input ph after =
     StepContinue (enc_input (dp_codecs dp) (input\<lparr>in_state := Some (dp_enc_phase dp ph)\<rparr>)) after"

definition group_members :: "('w, 'b) dispatch \<Rightarrow> task_input \<Rightarrow> json list \<Rightarrow> 'b group_member list" where
  "group_members dp input items =
     map (\<lambda>(position, item). \<lparr>gm_key = show_nat position, gm_input = enc_input (dp_codecs dp) (input_member input item)\<rparr>)
       (enumerate 0 items)"

text \<open>The cancel of the members of a cancelled task instance.\<close>

definition cancel_if_cancelled :: "('w, 'b) step \<Rightarrow> ('w, 'b) run_group \<Rightarrow> ('w, step_error, unit) io" where
  "cancel_if_cancelled step grp w =
     (if stp_cancelled step w then group_io (rg_cancel grp (Some task_instance_cancelled)) w else (Inr (), w))"

text \<open>The submit of the members. \<open>None\<close> is a submit that was accepted; \<open>Some\<close> is the outcome of a step
  that waits for the members of an earlier group.\<close>

definition submit_members ::
  "('w, 'b) dispatch \<Rightarrow> ('w, 'b) step \<Rightarrow> ('w, 'b) run_group \<Rightarrow> task_input \<Rightarrow> task_identity \<Rightarrow> u32 \<Rightarrow>
   'b group_member list \<Rightarrow> ('w, step_error, 'b step_outcome option) io" where
  "submit_members dp step grp input ti polls members =
     (let submit = rg_submit grp members ((headers ti)(header_group \<mapsto> rg_id grp)) (stp_max_attempts step)
      in io_bind (io_try submit) (\<lambda>r.
        case r of
          Inr u \<Rightarrow> io_return None
        | Inl (GroupMismatch permanent t) \<Rightarrow>
            io_bind (group_io (rg_status grp)) (\<lambda>status.
              if 0 < gs_pending status then
                io_bind (group_io (rg_cancel grp (Some group_replaced))) (\<lambda>u.
                  io_return (Some (next_phase dp input (SubmitPhase (polls + 1)) (member_poll_delay dp (polls + 1)))))
              else
                io_bind (group_io (rg_forget grp)) (\<lambda>u.
                  io_bind (group_io submit) (\<lambda>u. io_return None)))
        | Inl e \<Rightarrow> io_fail (step_error_of e)))"

definition submit_phase ::
  "('w, 'b) dispatch \<Rightarrow> ('w, 'b) step \<Rightarrow> ('w, 'b) run_group \<Rightarrow> task_input \<Rightarrow> task_identity \<Rightarrow> u32 \<Rightarrow>
   ('w, step_error, 'b step_outcome) io" where
  "submit_phase dp step grp input ti polls =
     (case rendered_items (dp_json_text dp) (dp_json_parse dp) input ti (dp_env dp) of
       Inl e \<Rightarrow> io_return (StepFail (show_items_error e))
     | Inr items \<Rightarrow>
         io_bind (submit_members dp step grp input ti polls (group_members dp input items)) (\<lambda>waiting.
           case waiting of
             Some outcome \<Rightarrow> io_return outcome
           | None \<Rightarrow>
               io_bind (cancel_if_cancelled step grp) (\<lambda>u.
                 io_return (next_phase dp input (PollPhase 0)
                   (if items = [] then 0 else member_poll_delay dp 0)))))"

definition poll_phase ::
  "('w, 'b) dispatch \<Rightarrow> ('w, 'b) step \<Rightarrow> ('w, 'b) run_group \<Rightarrow> task_input \<Rightarrow> u32 \<Rightarrow>
   ('w, step_error, 'b step_outcome) io" where
  "poll_phase dp step grp input polls =
     io_bind (cancel_if_cancelled step grp) (\<lambda>u.
       io_bind (io_try (rg_status grp)) (\<lambda>r.
         case r of
           Inl (GroupNotFound permanent t) \<Rightarrow> io_return (next_phase dp input (SubmitPhase 0) 0)
         | Inl e \<Rightarrow> io_fail (step_error_of e)
         | Inr status \<Rightarrow>
             if gs_succeeded status + gs_failed status + gs_cancelled status < gs_total status
             then io_return (next_phase dp input (PollPhase (polls + 1)) (member_poll_delay dp (polls + 1)))
             else
               io_bind (group_io (rg_results grp)) (\<lambda>results.
                 case member_outputs (dp_hook dp) results of
                   Inr output \<Rightarrow> io_return (next_phase dp input (FinishPhase output) 0)
                 | Inl (MembersFailed reason) \<Rightarrow> io_return (StepFail reason)
                 | Inl ResultRemoved \<Rightarrow>
                     io_bind (group_io (rg_forget grp)) (\<lambda>u. io_return (next_phase dp input (SubmitPhase 0) 0)))))"

definition run_mapped ::
  "('w, 'b) dispatch \<Rightarrow> ('w, 'b) step \<Rightarrow> task_input \<Rightarrow> task_identity \<Rightarrow> ('w, step_error, 'b step_outcome) io" where
  "run_mapped dp step input ti =
     (case dp_group dp (identity_group_id ti) of
       None \<Rightarrow> io_fail (StepPermanent ''a mapped node runs on the runtime of a pool'')
     | Some grp \<Rightarrow>
         io_bind (io_map_error (\<lambda>e. StepPermanent (''the state is not a phase of a mapped node: '' @ e))
           (io_of_sum (case in_state input of None \<Rightarrow> Inr (SubmitPhase 0) | Some state \<Rightarrow> dp_dec_phase dp state))) (\<lambda>ph.
             case ph of
               SubmitPhase polls \<Rightarrow> submit_phase dp step grp input ti polls
             | PollPhase polls \<Rightarrow> poll_phase dp step grp input polls
             | FinishPhase output \<Rightarrow>
                 io_bind (group_io (rg_forget grp)) (\<lambda>u. io_return (StepSucceed (dp_json_text dp output)))))"

subsection \<open>A step\<close>

definition operators_run :: "('w, 'b) op_run operator_set \<Rightarrow> string \<Rightarrow> ('w, 'b) task \<Rightarrow> json \<Rightarrow> ('w, step_error, op_outcome) io" where
  "operators_run ops name task params =
     (case Option.bind (bt_get ops name) oe_run of
       None \<Rightarrow> io_fail (StepPermanent (''operator `'' @ name @ ''` cannot run in this process''))
     | Some run \<Rightarrow> run task params)"

definition dispatch_clock :: "('w, 'b) dispatch \<Rightarrow> ('w, step_error, nat) io" where
  "dispatch_clock dp w = (let (t, w') = dp_clock dp w in (Inr t, w'))"

definition run_operator ::
  "('w, 'b) dispatch \<Rightarrow> ('w, 'b) step \<Rightarrow> task_input \<Rightarrow> task_identity \<Rightarrow> ('w, step_error, 'b step_outcome) io" where
  "run_operator dp step input ti =
     (case rendered_params (dp_json_text dp) input ti (dp_env dp) of
       Inl e \<Rightarrow> io_return (StepFail (show_render_error e))
     | Inr params \<Rightarrow>
         io_bind (dispatch_clock dp) (\<lambda>now.
           io_bind (operators_run (dp_operators dp) (in_operator input)
               \<lparr>tk_step = step, tk_identity = ti, tk_params = params, tk_inputs = in_inputs input,
                tk_state = in_state input, tk_now_ms = now\<rparr> params) (\<lambda>outcome.
             io_return (case outcome of
               OpSucceeded v \<Rightarrow> StepSucceed (dp_json_text dp v)
             | OpFailed reason \<Rightarrow> StepFail reason
             | OpContinue state after \<Rightarrow> StepContinue (enc_input (dp_codecs dp) (input\<lparr>in_state := Some state\<rparr>)) after))))"

definition run_step :: "('w, 'b) dispatch \<Rightarrow> ('w, 'b) step \<Rightarrow> ('w, step_error, 'b step_outcome) io" where
  "run_step dp step =
     io_bind (io_map_error (\<lambda>e. StepPermanent (''the payload is not a task input: '' @ e))
       (io_of_sum (dec_input (dp_codecs dp) (stp_payload step)))) (\<lambda>input.
         io_bind (io_map_error (\<lambda>e. StepPermanent (''the headers do not identify a task: '' @ show_identity_error e))
           (io_of_sum (from_headers (stp_headers step)))) (\<lambda>ti.
             if in_each input \<noteq> None then run_mapped dp step input ti
             else run_operator dp step input ti))"

end
