(* ===== verification/Dispatch_Correct.thy ===== *)
theory Dispatch_Correct
  imports Dispatch Memory "HOL-Library.Multiset"
begin

section \<open>Mapped nodes\<close>

text \<open>
  The delays between the polls of a mapped node and the output of its members, with instances.
\<close>

subsection \<open>The delay between two reads of the status\<close>

lemma member_poll_delay_mono:
  assumes "unat m \<le> unat n"
  shows "member_poll_delay dp m \<le> member_poll_delay dp n"
proof -
  have "(2::nat) ^ unat m \<le> 2 ^ unat n" using assms by (intro power_increasing) simp_all
  then have "min (2 ^ unat m) c \<le> min (2 ^ unat n) (c :: nat)" for c by (rule min.mono) simp
  then have "dp_poll_interval dp * min (2 ^ unat m) (2 ^ 32 - 1) \<le> dp_poll_interval dp * min (2 ^ unat n) (2 ^ 32 - 1)"
    by (rule mult_le_mono2)
  then show ?thesis unfolding member_poll_delay_def by (intro min.mono) simp_all
qed

text \<open>The time between two reads of the status of a mapped node's members is at least the poll
  interval and at most the longer of the two intervals, does not decrease with the reads, and
  doubles at a read while the maximum interval is not reached; no product overflows, whatever the
  count of the reads.\<close>

theorem member_poll_delay_bounds:
  assumes "dp_poll_interval dp \<le> duration_max" and "dp_poll_max_interval dp \<le> duration_max"
  shows "dp_poll_interval dp \<le> member_poll_delay dp n \<and>
     member_poll_delay dp n \<le> max (dp_poll_max_interval dp) (dp_poll_interval dp) \<and>
     member_poll_delay dp 0 = dp_poll_interval dp \<and>
     (unat m \<le> unat n \<longrightarrow> member_poll_delay dp m \<le> member_poll_delay dp n) \<and>
     (unat n < 31 \<longrightarrow> member_poll_delay dp (n + 1) =
        min (2 * member_poll_delay dp n) (max (dp_poll_max_interval dp) (dp_poll_interval dp)))"
proof (intro conjI impI)
  let ?i = "dp_poll_interval dp" and ?b = "max (dp_poll_max_interval dp) (dp_poll_interval dp)"
  have b: "?b \<le> duration_max" using assms by simp
  have one: "(1::nat) \<le> min (2 ^ unat k) (2 ^ 32 - 1)" for k :: u32 by simp
  have "?i * 1 \<le> ?i * min (2 ^ unat n) (2 ^ 32 - 1)" using one [of n] by (rule mult_le_mono2)
  then show "?i \<le> member_poll_delay dp n" using assms by (simp add: member_poll_delay_def)
  show "member_poll_delay dp n \<le> ?b" by (simp add: member_poll_delay_def)
  show "member_poll_delay dp 0 = ?i" using assms by (simp add: member_poll_delay_def)
  show "member_poll_delay dp m \<le> member_poll_delay dp n" if "unat m \<le> unat n"
    using that by (rule member_poll_delay_mono)
  assume n: "unat n < 31"
  then have suc: "unat (n + 1) = unat n + 1" by (simp add: unat_word_ariths(1))
  have pow: "(2::nat) ^ unat n \<le> 2 ^ 30" "(2::nat) ^ (unat n + 1) \<le> 2 ^ 31"
    using n by (intro power_increasing; simp)+
  have cap: "min (min x duration_max) ?b = min x ?b" for x by (simp only: min.assoc min_absorb2 [OF b])
  have "min (2 ^ unat n) (2 ^ 32 - 1) = (2::nat) ^ unat n" "min (2 ^ (unat n + 1)) (2 ^ 32 - 1) = (2::nat) ^ (unat n + 1)"
    using pow by simp_all
  then have "member_poll_delay dp n = min (?i * 2 ^ unat n) ?b" "member_poll_delay dp (n + 1) = min (?i * 2 ^ (unat n + 1)) ?b"
    unfolding member_poll_delay_def suc by (simp_all only: cap)
  moreover have "min (2 * x) c = min (2 * min x c) c" for x c :: nat by (simp add: min_def)
  ultimately show "member_poll_delay dp (n + 1) = min (2 * member_poll_delay dp n) ?b"
    by (simp only: power_Suc Suc_eq_plus1 [symmetric] mult.left_commute [of _ 2])
qed

subsection \<open>The output of a mapped node\<close>

text \<open>The value of a member: the output of its run, or null without one.\<close>

definition member_value :: "hook_env \<Rightarrow> member_result \<Rightarrow> json" where
  "member_value hk r = (case mr_outcome r of Some (Some bs) \<Rightarrow> output_value hk bs | _ \<Rightarrow> JNull)"

lemma collect_outputs_value:
  "collect_outputs hk rs =
     (if list_all (\<lambda>r. mr_outcome r \<noteq> None) rs then Inr (map (member_value hk) rs) else Inl ResultRemoved)"
  by (induction rs) (auto simp: member_value_def split: option.split)

lemma group_members_keys: "map gm_key (group_members dp input items) = map show_nat [0..<length items]"
proof -
  have "map gm_key (group_members dp input items) = map show_nat (map fst (enumerate 0 items))"
    unfolding group_members_def map_map by (rule map_cong [OF refl]) auto
  then show ?thesis by (simp add: enumerate_eq_zip)
qed

text \<open>The members of a group sorted by their position, when their keys are the positions.\<close>

lemma members_sorted:
  assumes "mset (map mr_key results) = mset (map show_nat [0..<n])" and "n \<le> u64_max"
  shows "map member_position (sort_key member_position results) = [0..<n]"
proof -
  let ?pos = "\<lambda>k. case parse_unsigned u64_max k of None \<Rightarrow> u64_max | Some i \<Rightarrow> i"
  have pos: "map ?pos (map show_nat [0..<n]) = [0..<n]" using assms(2) by (auto intro!: map_idI)
  have "mset (map member_position results) = image_mset ?pos (mset (map mr_key results))"
    by (simp add: member_position_def [abs_def] image_mset.compositionality comp_def)
  also have "\<dots> = mset (map ?pos (map show_nat [0..<n]))" unfolding assms(1) by (simp only: mset_map)
  finally have "mset (map member_position (sort_key member_position results)) = mset [0..<n]"
    unfolding pos by simp
  then have "sort [0..<n] = map member_position (sort_key member_position results)"
    by (intro properties_for_sort) simp_all
  then show ?thesis by simp
qed

lemma member_at:
  assumes "map member_position ms = [0..<n]" and "r \<in> set ms"
  shows "member_position r < n \<and> ms ! member_position r = r"
proof -
  obtain j where j: "j < length ms" "r = ms ! j" using assms(2) by (auto simp: in_set_conv_nth)
  have "length ms = n" using arg_cong [OF assms(1), of length] by simp
  moreover from this have "member_position (ms ! j) = j" using j(1) assms(1) by (metis nth_map nth_upt plus_nat.add_0)
  ultimately show ?thesis using j by simp
qed

text \<open>C15. The output of a mapped node: when every member succeeded and has its result, it is the array with
  the output of the member of every item at the index of the item, in whatever order the results
  arrive; when a member did not succeed, the node fails and names the first member that did not; and
  when only a result is missing, it asks for the members to run again.\<close>

theorem mapped_output_in_item_order:
  assumes "mset (map mr_key results) = mset (map gm_key (group_members dp input items))" and "length items \<le> u64_max"
  shows "case member_outputs hk results of
      Inr v \<Rightarrow> (\<forall>r \<in> set results. mr_status r = TerminalSucceeded \<and> mr_outcome r \<noteq> None) \<and>
        (\<exists>vs. v = JArray vs \<and> length vs = length items \<and>
          (\<forall>i < length items. \<forall>r \<in> set results. mr_key r = show_nat i \<longrightarrow> vs ! i = member_value hk r))
    | Inl ResultRemoved \<Rightarrow> (\<forall>r \<in> set results. mr_status r = TerminalSucceeded) \<and> (\<exists>r \<in> set results. mr_outcome r = None)
    | Inl (MembersFailed t) \<Rightarrow>
        \<exists>r \<in> set results. mr_status r \<noteq> TerminalSucceeded \<and>
          (\<forall>q \<in> set results. member_position q < member_position r \<longrightarrow> mr_status q = TerminalSucceeded) \<and>
          (\<exists>failed. t = failed_text (length items) (r # failed))"
proof -
  let ?ms = "sort_key member_position results" and ?n = "length items"
  let ?failed = "filter (\<lambda>r. mr_status r \<noteq> TerminalSucceeded) ?ms"
  have keys: "mset (map mr_key results) = mset (map show_nat [0..<?n])" using assms(1) by (simp only: group_members_keys)
  have pos: "map member_position ?ms = [0..<?n]" by (rule members_sorted [OF keys assms(2)])
  have len: "length ?ms = ?n" "length results = ?n" using arg_cong [OF pos, of length] by simp_all
  show ?thesis
  proof (cases ?failed)
    case Nil
    then have ok: "\<forall>r \<in> set results. mr_status r = TerminalSucceeded" by (auto simp: filter_empty_conv)
    have at: "?ms ! i = r" if "r \<in> set results" "mr_key r = show_nat i" "i < ?n" for r i
      using member_at [OF pos, of r] that assms(2) by (simp add: member_position_def)
    show ?thesis
      using ok len at Nil by (auto simp: member_outputs_def collect_outputs_value list_all_iff)
  next
    case (Cons r failed)
    then obtain us vs where "?ms = us @ r # vs" and "\<forall>u \<in> set us. mr_status u = TerminalSucceeded"
      and "mr_status r \<noteq> TerminalSucceeded" by (auto simp: filter_eq_Cons_iff)
    moreover from this have "\<forall>q \<in> set (r # vs). \<not> member_position q < member_position r"
      using sorted_sort_key [of member_position results] by (auto simp: sorted_append)
    moreover from calculation have "r \<in> set results" "set results = set us \<union> set (r # vs)"
      by (metis in_set_conv_decomp set_sort, metis set_append set_sort)
    ultimately show ?thesis using Cons len(2)
      by (auto simp: member_outputs_def intro!: bexI [of _ r])
  qed
qed

subsection \<open>Concrete inputs\<close>

definition example_dispatch :: "(unit, stored) dispatch" where
  "example_dispatch =
     \<lparr>dp_operators = [], dp_env = [], dp_poll_interval = default_member_poll_interval,
      dp_poll_max_interval = default_member_poll_max_interval, dp_group = (\<lambda>i. None), dp_clock = (\<lambda>w. (0, w)),
      dp_hook = example_hook, dp_codecs = stored_codecs, dp_json_text = (\<lambda>v. ''1''), dp_json_parse = (\<lambda>t. Inr JNull),
      dp_enc_phase = (\<lambda>ph. JNull), dp_dec_phase = (\<lambda>v. Inr (SubmitPhase 0))\<rparr>"

theorem member_poll_delay_bounds_witness:
  "member_poll_delay example_dispatch 4 \<le> 30 * second \<and> member_poll_delay example_dispatch (4 + 1) =
     min (2 * member_poll_delay example_dispatch 4) (30 * second)"
proof -
  have "dp_poll_interval example_dispatch = second" "dp_poll_max_interval example_dispatch = 30 * second"
    by (simp_all add: example_dispatch_def default_member_poll_interval_def default_member_poll_max_interval_def)
  moreover have "second \<le> duration_max" "30 * second \<le> duration_max" by (simp_all add: second_def duration_max_def)
  ultimately show ?thesis using member_poll_delay_bounds [of example_dispatch 4 0] by simp
qed

definition example_member :: "string \<Rightarrow> bytes \<Rightarrow> member_result" where
  "example_member key output = \<lparr>mr_key = key, mr_status = TerminalSucceeded, mr_error = None, mr_outcome = Some (Some output)\<rparr>"

definition example_results :: "member_result list" where
  "example_results = [example_member ''1'' ''abc'', example_member ''0'' ''1'']"

theorem mapped_output_in_item_order_witness:
  "\<exists>vs. member_outputs example_hook example_results = Inr (JArray vs) \<and> vs ! 0 = JNumber (PosInt 1)"
proof -
  let ?i = "\<lparr>in_operator = ''shell'', in_params = JNull, in_inputs = [], in_upstreams = [], in_state = None, in_each = Some ''a'', in_item = None\<rparr>"
  have results: "map mr_key example_results = [''1'', ''0'']" "set example_results = {example_member ''1'' ''abc'', example_member ''0'' ''1''}"
    by (simp_all add: example_results_def example_member_def)
  have texts: "show_nat 0 = ''0''" "show_nat 1 = ''1''" by code_simp+
  then have "map gm_key (group_members example_dispatch ?i [JNull, JNull]) = [''0'', ''1'']"
    unfolding group_members_keys by (simp add: upt_conv_Cons)
  then have keys: "mset (map mr_key example_results) = mset (map gm_key (group_members example_dispatch ?i [JNull, JNull]))"
    unfolding results by simp
  have val0: "member_value example_hook (example_member ''0'' ''1'') = JNumber (PosInt 1)"
    by (simp add: member_value_def example_member_def output_value_def example_hook_def)
  have ok: "mr_status r = TerminalSucceeded" "mr_outcome r \<noteq> None" if "r \<in> set example_results" for r
    using that by (auto simp: results example_member_def)
  show ?thesis
    using mapped_output_in_item_order [OF keys, of example_hook] ok texts val0 results(2)
    by (auto split: sum.splits no_outputs.splits simp: example_member_def)
qed

end
