(* ===== verification/Operator_Run.thy ===== *)
theory Operator_Run
  imports Dispatch
begin

section \<open>The operators (\<open>operator/\<close>)\<close>

text \<open>
  The run of each of the four operators. The HTTP client, the child processes and the object stores
  are third-party code and parameters, and so is the race of a call with the lease of the step and
  its cancellation: what such a call returns says which of them ended first. The codec of a
  deadline, which \<open>serde\<close> derives, and the JSON text of a value are parameters as well. The duration
  of a parameter is its count of seconds, as the deserializer accepts no other.
\<close>

datatype ('e, 'a) race = RaceDone "'e + 'a" | RaceLease string | RaceCancelled

record op_codecs =
  oc_enc_deadline :: "nat \<Rightarrow> json"
  oc_dec_deadline :: "json \<Rightarrow> string + nat"
  oc_parse :: "bytes \<Rightarrow> string + json"
  oc_text :: "json \<Rightarrow> string"

definition lease_failed :: "string \<Rightarrow> step_error" where
  "lease_failed e = StepTransient (''lease extension failed: '' @ e)"

text \<open>The debug form of a duration of whole seconds.\<close>

definition debug_seconds :: "nat \<Rightarrow> string" where
  "debug_seconds n = (if n = 0 then ''0ns'' else show_nat n @ ''s'')"

text \<open>The text of the tail of some bytes.\<close>

definition tail_text :: "bytes \<Rightarrow> string" where
  "tail_text bs = (let t = utf8_lossy bs in drop (floor_char_boundary t (length t - 512)) t)"

subsection \<open>Deadlines (\<open>operator/mod.rs\<close>)\<close>

definition deadline_of :: "op_codecs \<Rightarrow> ('w, 'b) task \<Rightarrow> nat \<Rightarrow> step_error + nat" where
  "deadline_of oc task timeout =
     (case tk_state task of
       Some state \<Rightarrow>
         (case oc_dec_deadline oc state of
           Inl e \<Rightarrow> Inl (StepPermanent (''the state is not a deadline: '' @ e))
         | Inr d \<Rightarrow> Inr d)
     | None \<Rightarrow> Inr (min u64_max (tk_now_ms task + min u64_max (timeout * 1000))))"

definition deadline_passed :: "nat \<Rightarrow> ('w, 'b) task \<Rightarrow> bool" where
  "deadline_passed d task \<longleftrightarrow> d \<le> tk_now_ms task"

definition poll_after :: "op_codecs \<Rightarrow> nat \<Rightarrow> nat \<Rightarrow> op_outcome" where
  "poll_after oc d interval = OpContinue (oc_enc_deadline oc d) (interval * second)"

subsection \<open>HTTP (\<open>operator/http.rs\<close>)\<close>

record poll_params =
  pl_path :: string
  pl_done :: "json list"
  pl_failed :: "json list"
  pl_interval :: nat
  pl_timeout :: nat

record http_params =
  hp_method :: string
  hp_url :: string
  hp_headers :: "(string, string) btree"
  hp_body :: "string option"
  hp_timeout :: nat
  hp_poll :: "poll_params option"

datatype send_error = SendBuilder string | SendFailed string

text \<open>The client: whether a text is a method, and the response to a request or the error of it.\<close>

record ('w, 'b) http_client =
  hc_method :: "string \<Rightarrow> bool"
  hc_send :: "('w, 'b) step \<Rightarrow> http_params \<Rightarrow> 'w \<Rightarrow> (send_error, nat \<times> bytes) race \<times> 'w"

definition default_method :: string where "default_method = ''GET''"

definition default_timeout :: nat where "default_timeout = 60"

definition default_interval :: nat where "default_interval = 60"

definition default_poll_timeout :: nat where "default_poll_timeout = 86400"

definition poll_segments :: "poll_params \<Rightarrow> string list" where
  "poll_segments pl = split_on (CHR ''.'') (pl_path pl)"

text \<open>The checks of the deserializers.\<close>

definition poll_path_check :: "string \<Rightarrow> string + string" where
  "poll_path_check t =
     (if list_ex (\<lambda>p. p = []) (split_on (CHR ''.'') t)
      then Inl (''`'' @ t @ ''` is not a dotted path such as `status` or `job.state`'') else Inr t)"

definition poll_done_check :: "json list \<Rightarrow> string + json list" where
  "poll_done_check values = (if values = [] then Inl ''`done` requires at least one value'' else Inr values)"

definition method_check :: "('w, 'b) http_client \<Rightarrow> string \<Rightarrow> string + string" where
  "method_check hc t = (if hc_method hc t then Inr t else Inl (''`'' @ t @ ''` is not an HTTP method''))"

definition http_request :: "http_params \<Rightarrow> string" where
  "http_request hp = hp_method hp @ '' '' @ hp_url hp"

text \<open>The response of the request, or the error of the attempt.\<close>

definition http_response ::
  "('w, 'b) http_client \<Rightarrow> ('w, 'b) step \<Rightarrow> http_params \<Rightarrow> ('w, step_error, nat \<times> bytes) io" where
  "http_response hc step hp w =
     (case hc_send hc step hp w of (r, w') \<Rightarrow>
       (case r of
         RaceDone (Inr x) \<Rightarrow> (Inr x, w')
       | RaceDone (Inl (SendBuilder e)) \<Rightarrow>
           (Inl (StepPermanent (''`'' @ http_request hp @ ''` is not a valid request: '' @ e)), w')
       | RaceDone (Inl (SendFailed e)) \<Rightarrow> (Inl (StepTransient (''`'' @ http_request hp @ ''` failed: '' @ e)), w')
       | RaceLease e \<Rightarrow> (Inl (lease_failed e), w')
       | RaceCancelled \<Rightarrow> (Inl (StepTransient ''the run was cancelled while the request ran''), w')))"

definition http_status_error :: "http_params \<Rightarrow> nat \<Rightarrow> bytes \<Rightarrow> step_error" where
  "http_status_error hp status body =
     (let message = ''`'' @ http_request hp @ ''` returned '' @ show_nat status @ '': '' @ tail_text body
      in if 500 \<le> status \<and> status < 600 \<or> status = 429 then StepTransient message else StepPermanent message)"

definition http_body :: "op_codecs \<Rightarrow> bytes \<Rightarrow> json" where
  "http_body oc body =
     (let trimmed = trim_ascii body
      in if trimmed = [] then JNull
         else (case oc_parse oc trimmed of Inr v \<Rightarrow> v | Inl e \<Rightarrow> JString (utf8_lossy body)))"

definition http_output :: "nat \<Rightarrow> json \<Rightarrow> json" where
  "http_output status body = JObject [(''body'', body), (''status'', JNumber (PosInt (of_nat status)))]"

definition http_poll ::
  "op_codecs \<Rightarrow> ('w, 'b) task \<Rightarrow> http_params \<Rightarrow> poll_params \<Rightarrow> nat \<Rightarrow> json \<Rightarrow> step_error + op_outcome" where
  "http_poll oc task hp pl status body =
     (case deadline_of oc task (pl_timeout pl) of
       Inl e \<Rightarrow> Inl e
     | Inr d \<Rightarrow>
         (case lookup body (poll_segments pl) of
           None \<Rightarrow> Inr (OpFailed (''the body of `'' @ http_request hp @ ''` has no value at `'' @ pl_path pl @ ''`''))
         | Some v \<Rightarrow>
             let reported = ''`'' @ http_request hp @ ''` reported `'' @ pl_path pl @ ''` = '' @ oc_text oc v
             in if v \<in> set (pl_done pl) then Inr (OpSucceeded (http_output status body))
                else if v \<in> set (pl_failed pl) then Inr (OpFailed reported)
                else if deadline_passed d task
                  then Inr (OpFailed (reported @ '' after '' @ debug_seconds (pl_timeout pl)))
                else Inr (poll_after oc d (pl_interval pl))))"

definition http_run ::
  "op_codecs \<Rightarrow> ('w, 'b) http_client \<Rightarrow> ('w, 'b) task \<Rightarrow> http_params \<Rightarrow> ('w, step_error, op_outcome) io" where
  "http_run oc hc task hp =
     (if \<not> hc_method hc (hp_method hp)
      then io_fail (StepPermanent (''`'' @ hp_method hp @ ''` is not an HTTP method''))
      else
        io_bind (http_response hc (tk_step task) hp) (\<lambda>(status, body).
          if \<not> (200 \<le> status \<and> status < 300) then io_fail (http_status_error hp status body)
          else
            let v = http_body oc body
            in (case hp_poll hp of
                 None \<Rightarrow> io_return (OpSucceeded (http_output status v))
               | Some pl \<Rightarrow> io_of_sum (http_poll oc task hp pl status v))))"

subsection \<open>Programs (\<open>operator/subprocess.rs\<close>, \<open>operator/shell.rs\<close>)\<close>

record command =
  cmd_program :: string
  cmd_args :: "string list"
  cmd_env :: "(string, string) btree"

text \<open>What ends the wait for a program, with its exit code, its stdout and its stderr.\<close>

datatype program_end =
    CannotStart string
  | CannotWait string
  | ProgramLease string
  | ProgramCancelled
  | ProgramTimeout
  | OutputLost string
  | Exited "int option" bytes bytes

text \<open>The processes: a run of a command with its stdin, its timeout and its kill.\<close>

record ('w, 'b) programs =
  pr_run :: "('w, 'b) step \<Rightarrow> command \<Rightarrow> bytes option \<Rightarrow> nat option \<Rightarrow> 'w \<Rightarrow> program_end \<times> 'w"
  pr_kill :: "'w \<Rightarrow> 'w"

definition ex_tempfail :: int where "ex_tempfail = 75"

definition exit_outcome :: "op_codecs \<Rightarrow> string \<Rightarrow> int option \<Rightarrow> bytes \<Rightarrow> bytes \<Rightarrow> step_error + op_outcome" where
  "exit_outcome oc program code out err =
     (case code of
       None \<Rightarrow> Inl (StepPermanent (''`'' @ program @ ''` was terminated by a signal: '' @ tail_text err))
     | Some c \<Rightarrow>
         if c = 0 then
           (let trimmed = trim_ascii out
            in if trimmed = [] then Inr (OpSucceeded JNull)
               else (case oc_parse oc trimmed of
                 Inr v \<Rightarrow> Inr (OpSucceeded v)
               | Inl e \<Rightarrow> Inl (StepPermanent (''stdout of `'' @ program @ ''` is not JSON: '' @ e))))
         else
           (let message = ''`'' @ program @ ''` exited with '' @ (if c < 0 then ''-'' else []) @ show_nat (nat \<bar>c\<bar>) @
              '': '' @ tail_text err
            in if c = ex_tempfail then Inl (StepTransient message) else Inl (StepPermanent message)))"

definition run_program ::
  "op_codecs \<Rightarrow> ('w, 'b) programs \<Rightarrow> ('w, 'b) task \<Rightarrow> command \<Rightarrow> bytes option \<Rightarrow> nat option \<Rightarrow>
   ('w, step_error, op_outcome) io" where
  "run_program oc pr task command stdin timeout w =
     (let program = cmd_program command in
      case pr_run pr (tk_step task) command stdin timeout w of (r, w') \<Rightarrow>
        (case r of
          CannotStart e \<Rightarrow> (Inl (StepPermanent (''cannot start `'' @ program @ ''`: '' @ e)), w')
        | CannotWait e \<Rightarrow> (Inl (StepPermanent (''cannot wait for `'' @ program @ ''`: '' @ e)), w')
        | ProgramLease e \<Rightarrow> (Inl (lease_failed e), w')
        | ProgramCancelled \<Rightarrow> (Inl (StepTransient ''the run was cancelled while the program ran''), pr_kill pr w')
        | ProgramTimeout \<Rightarrow>
            (Inl (StepTransient (''`'' @ program @ ''` did not exit within '' @
               debug_seconds (case timeout of None \<Rightarrow> 0 | Some t \<Rightarrow> t))), pr_kill pr w')
        | OutputLost e \<Rightarrow> (Inl (StepPermanent (''cannot read the output of `'' @ program @ ''`: '' @ e)), w')
        | Exited code out err \<Rightarrow> (exit_outcome oc program code out err, w')))"

record subprocess_params =
  sp_argv :: "string list"
  sp_timeout :: "nat option"

definition non_empty_argv :: "string list \<Rightarrow> string + string list" where
  "non_empty_argv argv = (if argv = [] then Inl ''argv must not be empty'' else Inr argv)"

definition stdin_document :: "('w, 'b) task \<Rightarrow> json" where
  "stdin_document task =
     (let ti = tk_identity task in
      JObject [(''run_id'', JString (identity_run_id ti)), (''graph'', JString (ti_graph ti)),
        (''partition'', JString (as_str (ti_partition ti))), (''node'', JString (ti_node ti)),
        (''attempt'', JNumber (PosInt (ucast (stp_attempts (tk_step task))))),
        (''params'', tk_params task), (''inputs'', JObject (tk_inputs task))])"

text \<open>The deserializer accepts no empty \<open>argv\<close>.\<close>

definition subprocess_run ::
  "op_codecs \<Rightarrow> ('w, 'b) programs \<Rightarrow> ('w, 'b) task \<Rightarrow> subprocess_params \<Rightarrow> ('w, step_error, op_outcome) io" where
  "subprocess_run oc pr task sp =
     run_program oc pr task \<lparr>cmd_program = hd (sp_argv sp), cmd_args = tl (sp_argv sp), cmd_env = []\<rparr>
       (Some (oc_text oc (stdin_document task))) (sp_timeout sp)"

record shell_params =
  sh_command :: string
  sh_env :: "(string, string) btree"
  sh_timeout :: "nat option"

definition shell_command :: "op_codecs \<Rightarrow> string \<Rightarrow> ('w, 'b) task \<Rightarrow> shell_params \<Rightarrow> command" where
  "shell_command oc shell task sh =
     (let ti = tk_identity task;
          env = [(''SWALE_RUN_ID'', identity_run_id ti), (''SWALE_GRAPH'', ti_graph ti),
                 (''SWALE_PARTITION'', as_str (ti_partition ti)), (''SWALE_NODE'', ti_node ti),
                 (''SWALE_ATTEMPT'', show_u32 (stp_attempts (tk_step task))),
                 (''SWALE_INPUTS'', oc_text oc (JObject (tk_inputs task)))]
      in \<lparr>cmd_program = shell, cmd_args = [''-c'', sh_command sh],
          cmd_env = fold (\<lambda>(k, v). bt_insert k v) (env @ sh_env sh) []\<rparr>)"

definition shell_run ::
  "op_codecs \<Rightarrow> ('w, 'b) programs \<Rightarrow> string \<Rightarrow> ('w, 'b) task \<Rightarrow> shell_params \<Rightarrow> ('w, step_error, op_outcome) io" where
  "shell_run oc pr shell task sh = run_program oc pr task (shell_command oc shell task sh) None (sh_timeout sh)"

subsection \<open>Objects (\<open>operator/object_exists.rs\<close>)\<close>

record object_params =
  op_url :: string
  op_interval :: nat
  op_timeout :: nat

record object_meta =
  om_size :: u64
  om_last_modified :: string

text \<open>The URLs and the object stores: a URL is its text and its scheme and host, a store is of the type \<^typ>\<open>'o\<close>.\<close>

record url =
  url_text :: string
  url_origin :: string

record ('w, 'o) object_stores =
  os_parse :: "string \<Rightarrow> string + url"
  os_path :: "url \<Rightarrow> string + string"
  os_open :: "string \<Rightarrow> string + 'o"
  os_head :: "'o \<Rightarrow> string \<Rightarrow> ('w, object_error, object_meta) io"

text \<open>The operator with the stores it opened, by scheme and host.\<close>

record ('w, 'o) object_exists =
  ox_world :: 'w
  ox_stores :: "(string, 'o) btree"

definition object_open ::
  "('w, 'o) object_stores \<Rightarrow> url \<Rightarrow> (('w, 'o) object_exists, step_error, 'o \<times> string) io" where
  "object_open os u ox =
     (case os_path os u of
       Inl e \<Rightarrow> (Inl (StepPermanent (''`'' @ url_text u @ ''` does not open: '' @ e)), ox)
     | Inr path \<Rightarrow>
         (case bt_get (ox_stores ox) (url_origin u) of
           Some store \<Rightarrow> (Inr (store, path), ox)
         | None \<Rightarrow>
             (case os_open os (url_text u) of
               Inl e \<Rightarrow> (Inl (StepPermanent (''`'' @ url_text u @ ''` does not open: '' @ e)), ox)
             | Inr store \<Rightarrow> (Inr (store, path), ox\<lparr>ox_stores := bt_insert (url_origin u) store (ox_stores ox)\<rparr>))))"

definition object_outcome ::
  "op_codecs \<Rightarrow> ('w, 'b) task \<Rightarrow> object_params \<Rightarrow> nat \<Rightarrow> object_error + object_meta \<Rightarrow> step_error + op_outcome" where
  "object_outcome oc task op d r =
     (case r of
       Inr meta \<Rightarrow> Inr (OpSucceeded (JObject
         [(''last_modified'', JString (om_last_modified meta)), (''size'', JNumber (PosInt (om_size meta))),
          (''url'', JString (op_url op))]))
     | Inl ObjectNotFound \<Rightarrow>
         if deadline_passed d task
         then Inr (OpFailed (''no object at `'' @ op_url op @ ''` within '' @ debug_seconds (op_timeout op)))
         else Inr (poll_after oc d (op_interval op))
     | Inl (OtherObject e) \<Rightarrow> Inl (StepTransient (''the head of `'' @ op_url op @ ''` failed: '' @ le_text e)))"

definition object_exists_run ::
  "op_codecs \<Rightarrow> ('w, 'o) object_stores \<Rightarrow> ('w, 'b) task \<Rightarrow> object_params \<Rightarrow>
   (('w, 'o) object_exists, step_error, op_outcome) io" where
  "object_exists_run oc os task op =
     io_bind (io_of_sum (deadline_of oc task (op_timeout op))) (\<lambda>d.
       io_bind (io_map_error (\<lambda>e. StepPermanent (''`'' @ op_url op @ ''` is not a URL: '' @ e)) (io_of_sum (os_parse os (op_url op)))) (\<lambda>u.
         io_bind (object_open os u) (\<lambda>(store, path).
           io_bind (io_try (io_lift ox_world (\<lambda>w ox. ox\<lparr>ox_world := w\<rparr>) (os_head os store path))) (\<lambda>r.
             io_of_sum (object_outcome oc task op d r)))))"

end
