(* ===== verification/Operator_Correct.thy ===== *)
theory Operator_Correct
  imports Operator_Run
begin

section \<open>The operators: errors and deadlines\<close>

text \<open>
  The tail of an output, the deadline of a poll as a locale over the two operators that poll, and which
  attempts are made again, with instances.
\<close>

subsection \<open>The tail of an error text\<close>

text \<open>The tail is a valid text, the end of the decoded bytes; the cut is at the start of a character,
  so the tail has 512 bytes and up to three more.\<close>

lemma tail_text_bounds:
  "\<exists>p. utf8_lossy bs = p @ tail_text bs \<and> utf8_valid (tail_text bs) \<and> length (tail_text bs) \<le> 515 \<and>
     (p = [] \<or> 512 \<le> length (tail_text bs))"
proof -
  let ?t = "utf8_lossy bs" and ?i = "length (utf8_lossy bs) - 512"
  let ?j = "floor_char_boundary ?t ?i"
  have b: "utf8_valid (drop ?j ?t)" "?j \<le> ?i" "?i \<le> ?j + 3"
    using floor_char_boundary_valid [OF utf8_lossy_valid, of ?i bs] by simp_all
  have "?t = take ?j ?t @ tail_text bs" by (simp add: tail_text_def Let_def)
  moreover have "take ?j ?t = [] \<or> 512 \<le> length (tail_text bs)" "length (tail_text bs) \<le> 515"
    using b(2,3) by (auto simp: tail_text_def Let_def)
  ultimately show ?thesis using b(1) unfolding tail_text_def Let_def by metis
qed

lemma tail_text_longer:
  "length (tail_text (CHR 0xC3 # CHR 0xA9 # replicate 511 CHR ''x'')) = 513"
proof -
  have "utf8_valid (replicate 511 CHR ''x'')" by (rule utf8_valid_ascii) simp
  then have valid: "utf8_valid (CHR 0xC3 # CHR 0xA9 # replicate 511 CHR ''x'')" by simp
  have "floor_char_boundary (CHR 0xC3 # CHR 0xA9 # replicate 511 CHR ''x'') 1 = 0" by simp
  then show ?thesis unfolding tail_text_def utf8_lossy_id [OF valid] Let_def by simp
qed

subsection \<open>Polls\<close>

text \<open>
  An operator that polls: a poll that continues is before its deadline and hands its deadline on.
  The task of the next poll has the state of the poll before it.
\<close>

locale deadline_poll =
  fixes oc :: op_codecs
    and run :: "('w, 'b) task \<Rightarrow> ('s, step_error, op_outcome) io"
    and timeout :: nat
  assumes run_continue: "run task s = (Inr (OpContinue state after), s') \<Longrightarrow>
    \<exists>d. deadline_of oc task timeout = Inr d \<and> \<not> deadline_passed d task \<and> state = oc_enc_deadline oc d"
begin

definition polls_again :: "('w, 'b) task \<Rightarrow> ('w, 'b) task \<Rightarrow> bool" where
  "polls_again task task' \<longleftrightarrow>
     (\<exists>s state after s'. run task s = (Inr (OpContinue state after), s') \<and> tk_state task' = Some state)"

lemma deadline_kept:
  assumes "polls_again\<^sup>*\<^sup>* task task'" and "deadline_of oc task timeout = Inr d" and "d \<le> u64_max"
    and codec: "\<And>d. d \<le> u64_max \<Longrightarrow> oc_dec_deadline oc (oc_enc_deadline oc d) = Inr d"
  shows "deadline_of oc task' timeout = Inr d"
  using assms(1,2)
proof induction
  case (step t1 t2)
  then obtain s state after s' where "run t1 s = (Inr (OpContinue state after), s')" and "tk_state t2 = Some state"
    by (auto simp: polls_again_def)
  then show ?case using run_continue step codec [OF assms(3)] by (fastforce simp: deadline_of_def)
qed

lemma polls_until_deadline:
  assumes "polls_again\<^sup>*\<^sup>* task task'" and "tk_state task = None"
    and "\<And>d. d \<le> u64_max \<Longrightarrow> oc_dec_deadline oc (oc_enc_deadline oc d) = Inr d"
    and "run task' s = (Inr (OpContinue state after), s')"
  shows "tk_now_ms task' < min u64_max (tk_now_ms task + min u64_max (timeout * 1000))"
proof -
  let ?d = "min u64_max (tk_now_ms task + min u64_max (timeout * 1000))"
  have "deadline_of oc task timeout = Inr ?d" using assms(2) by (simp add: deadline_of_def)
  then have "deadline_of oc task' timeout = Inr ?d" by (rule deadline_kept [OF assms(1)]) (simp_all add: assms(3))
  then show ?thesis using run_continue [OF assms(4)] by (auto simp: deadline_passed_def)
qed

end

lemma http_poll_continue:
  "http_poll oc task hp pl status body = Inr (OpContinue state after) \<Longrightarrow>
     \<exists>d. deadline_of oc task (pl_timeout pl) = Inr d \<and> \<not> deadline_passed d task \<and> state = oc_enc_deadline oc d"
  by (auto simp: http_poll_def poll_after_def Let_def split: sum.splits option.splits if_splits)

lemma object_outcome_continue:
  "object_outcome oc task op d r = Inr (OpContinue state after) \<Longrightarrow> \<not> deadline_passed d task \<and> state = oc_enc_deadline oc d"
  by (auto simp: object_outcome_def poll_after_def split: sum.splits object_error.splits if_splits)

definition http_timeout :: "http_params \<Rightarrow> nat" where
  "http_timeout hp = (case hp_poll hp of None \<Rightarrow> 0 | Some pl \<Rightarrow> pl_timeout pl)"

interpretation http_poll: deadline_poll oc "\<lambda>task. http_run oc hc task hp" "http_timeout hp" for oc hc hp
proof
  fix task s state after s'
  assume "http_run oc hc task hp s = (Inr (OpContinue state after), s')"
  then show "\<exists>d. deadline_of oc task (http_timeout hp) = Inr d \<and> \<not> deadline_passed d task \<and> state = oc_enc_deadline oc d"
    by (auto simp: http_run_def http_timeout_def io_bind_Inr Let_def split: if_splits option.splits dest: http_poll_continue [OF sym])
qed

interpretation object_poll: deadline_poll oc "\<lambda>task. object_exists_run oc os task op" "op_timeout op" for oc os op
proof
  fix task s state after s'
  assume "object_exists_run oc os task op s = (Inr (OpContinue state after), s')"
  then show "\<exists>d. deadline_of oc task (op_timeout op) = Inr d \<and> \<not> deadline_passed d task \<and> state = oc_enc_deadline oc d"
    by (auto simp: object_exists_run_def io_bind_Inr eq_commute [of _ "deadline_of oc task (op_timeout op)"]
      dest!: object_outcome_continue [OF sym])
qed


subsection \<open>Errors\<close>

lemma http_poll_errors:
  "http_poll oc task hp pl status body = Inl e \<longleftrightarrow> deadline_of oc task (pl_timeout pl) = Inl e"
  by (auto simp: http_poll_def poll_after_def Let_def split: sum.splits option.splits)

lemma deadline_of_error:
  "deadline_of oc task timeout = Inl e \<longleftrightarrow>
     (\<exists>state m. tk_state task = Some state \<and> oc_dec_deadline oc state = Inl m \<and>
        e = StepPermanent (''the state is not a deadline: '' @ m))"
  by (auto simp: deadline_of_def split: option.splits sum.splits)

text \<open>C38. An attempt of \<open>http\<close> with a valid method is retried exactly when the request failed in transit,
  the lease was lost, the task instance was cancelled or the status is 429 or of the server's (5xx); it is
  refused for good exactly when the request cannot be built, the status is another one that is not a
  success, or a poll has a state that is no deadline. Without a poll a success is the output.\<close>

theorem http_attempts:
  assumes "hc_method hc (hp_method hp)" and "hc_send hc (tk_step task) hp w = (q, w1)"
    and "http_run oc hc task hp w = (r, w')"
  shows "w' = w1 \<and>
    ((\<exists>m. r = Inl (StepTransient m)) \<longleftrightarrow>
      (case q of
        RaceDone (Inr (status, body)) \<Rightarrow> status = 429 \<or> 500 \<le> status \<and> status < 600
      | RaceDone (Inl (SendBuilder e)) \<Rightarrow> False
      | _ \<Rightarrow> True)) \<and>
    ((\<exists>m. r = Inl (StepPermanent m)) \<longleftrightarrow>
      (case q of
        RaceDone (Inr (status, body)) \<Rightarrow>
          status \<noteq> 429 \<and> \<not> (200 \<le> status \<and> status < 300) \<and> \<not> (500 \<le> status \<and> status < 600) \<or>
          200 \<le> status \<and> status < 300 \<and> hp_poll hp \<noteq> None \<and>
            (\<exists>state e. tk_state task = Some state \<and> oc_dec_deadline oc state = Inl e)
      | RaceDone (Inl (SendBuilder e)) \<Rightarrow> True
      | _ \<Rightarrow> False)) \<and>
    (\<forall>status body. q = RaceDone (Inr (status, body)) \<longrightarrow> 200 \<le> status \<longrightarrow> status < 300 \<longrightarrow> hp_poll hp = None \<longrightarrow>
      r = Inr (OpSucceeded (JObject [(''body'', http_body oc body), (''status'', JNumber (PosInt (of_nat status)))])))"
proof (cases q)
  case (RaceDone x)
  show ?thesis
  proof (cases x)
    case (Inl e)
    then show ?thesis using assms RaceDone
      by (cases e) (auto simp: http_run_def http_response_def io_bind_def)
  next
    case (Inr y)
    obtain status body where y: "y = (status, body)" by (cases y)
    then have "http_response hc (tk_step task) hp w = (Inr (status, body), w1)"
      using assms(2) RaceDone Inr by (simp add: http_response_def)
    then show ?thesis using assms RaceDone Inr y
      by (auto simp: http_run_def io_bind_def io_of_sum_def http_status_error_def http_output_def Let_def
        http_poll_errors deadline_of_error split: if_splits option.splits sum.splits)
  qed
qed (use assms in \<open>auto simp: http_run_def http_response_def io_bind_def lease_failed_def\<close>)

text \<open>C39. A program of the \<open>subprocess\<close> and the \<open>shell\<close> operators succeeds exactly when it exits with code 0 and
  writes nothing or JSON to stdout; the attempt is retried exactly for the exit code 75, a lost lease, the
  timeout and a cancellation, and the last two kill the program; every other end is permanent.\<close>

theorem program_attempts:
  assumes "pr_run pr (tk_step task) command stdin timeout w = (q, w1)"
    and "run_program oc pr task command stdin timeout w = (r, w')"
  shows "w' = (if q = ProgramCancelled \<or> q = ProgramTimeout then pr_kill pr w1 else w1) \<and>
    (\<forall>out. r = Inr out \<longleftrightarrow>
      (\<exists>stdout stderr. q = Exited (Some 0) stdout stderr \<and>
        (trim_ascii stdout = [] \<and> out = OpSucceeded JNull \<or>
         trim_ascii stdout \<noteq> [] \<and> (\<exists>v. oc_parse oc (trim_ascii stdout) = Inr v \<and> out = OpSucceeded v)))) \<and>
    ((\<exists>m. r = Inl (StepTransient m)) \<longleftrightarrow>
      (\<exists>stdout stderr. q = Exited (Some 75) stdout stderr) \<or> (\<exists>e. q = ProgramLease e) \<or>
      q = ProgramCancelled \<or> q = ProgramTimeout)"
  using assms
  by (cases q) (auto simp: run_program_def exit_outcome_def lease_failed_def ex_tempfail_def Let_def
    split: option.splits if_splits sum.splits)

subsection \<open>Concrete inputs\<close>

text \<open>A job that reports \<open>running\<close> at every poll, and a codec of a deadline.\<close>

definition example_op_codecs :: op_codecs where
  "example_op_codecs =
     \<lparr>oc_enc_deadline = (\<lambda>d. JNumber (PosInt (of_nat d))),
      oc_dec_deadline = (\<lambda>v. case v of JNumber (PosInt n) \<Rightarrow> Inr (unat n) | _ \<Rightarrow> Inl ''not a deadline''),
      oc_parse = (\<lambda>bs. if bs = ''1'' then Inr (JObject [(''state'', JString ''running'')]) else Inl ''not JSON''),
      oc_text = (\<lambda>v. ''value'')\<rparr>"

definition example_step :: "(unit, unit) step" where
  "example_step = \<lparr>stp_payload = (), stp_headers = (\<lambda>h. None), stp_max_attempts = 1, stp_attempts = 1, stp_cancelled = (\<lambda>w. False)\<rparr>"

definition example_task :: "json option \<Rightarrow> nat \<Rightarrow> (unit, unit) task" where
  "example_task state now =
     \<lparr>tk_step = example_step, tk_identity = example_identity, tk_params = JNull, tk_inputs = [], tk_state = state, tk_now_ms = now\<rparr>"

definition example_client :: "nat \<Rightarrow> (unit, unit) http_client" where
  "example_client status = \<lparr>hc_method = (\<lambda>m. m = ''GET''), hc_send = (\<lambda>step hp w. (RaceDone (Inr (status, ''1'')), w))\<rparr>"

definition example_http :: "poll_params option \<Rightarrow> http_params" where
  "example_http poll = \<lparr>hp_method = ''GET'', hp_url = ''http://jobs/7'', hp_headers = [], hp_body = None, hp_timeout = 60, hp_poll = poll\<rparr>"

definition example_poll :: poll_params where
  "example_poll = \<lparr>pl_path = ''state'', pl_done = [JString ''done''], pl_failed = [], pl_interval = 20, pl_timeout = 30\<rparr>"

definition example_stores :: "(unit, unit) object_stores" where
  "example_stores = \<lparr>os_parse = (\<lambda>t. Inr \<lparr>url_text = t, url_origin = t\<rparr>), os_path = (\<lambda>u. Inr ''a''),
     os_open = (\<lambda>t. Inr ()), os_head = (\<lambda>store path w. (Inl ObjectNotFound, w))\<rparr>"

lemma example_codec: "d \<le> u64_max \<Longrightarrow> oc_dec_deadline example_op_codecs (oc_enc_deadline example_op_codecs d) = Inr d"
  by (simp add: example_op_codecs_def unat_of_nat take_bit_eq_mod)

lemmas example_poll_defs =
  http_run_def http_response_def http_poll_def http_body_def http_request_def deadline_of_def deadline_passed_def poll_after_def
  poll_segments_def object_exists_run_def object_open_def object_outcome_def io_defs io_lift_def
  example_op_codecs_def example_client_def example_http_def example_poll_def example_task_def example_stores_def

lemma example_json: "trim_ascii ''1'' = ''1''" "split_on CHR ''.'' ''state'' = [''state'']"
  by code_simp+

lemma example_http_poll:
  "http_run example_op_codecs (example_client 200) (example_task None 0) (example_http (Some example_poll)) () =
     (Inr (OpContinue (JNumber (PosInt 30000)) (20 * second)), ())"
  "http_run example_op_codecs (example_client 200) (example_task (Some (JNumber (PosInt 30000))) 20000) (example_http (Some example_poll)) () =
     (Inr (OpContinue (JNumber (PosInt 30000)) (20 * second)), ())"
  by (simp_all add: example_poll_defs example_json json_get_def)

lemma example_object_poll:
  "object_exists_run example_op_codecs example_stores (example_task None 0) \<lparr>op_url = ''s'', op_interval = 5, op_timeout = 30\<rparr>
     \<lparr>ox_world = (), ox_stores = []\<rparr> = (Inr (OpContinue (JNumber (PosInt 30000)) (5 * second)), \<lparr>ox_world = (), ox_stores = [(''s'', ())]\<rparr>)"
  by (simp add: example_poll_defs)


theorem http_attempts_witness:
  "fst (http_run example_op_codecs (example_client 200) (example_task None 0) (example_http None) ()) =
     Inr (OpSucceeded (JObject [(''body'', JObject [(''state'', JString ''running'')]), (''status'', JNumber (PosInt 200))]))"
proof -
  obtain r w' where r: "http_run example_op_codecs (example_client 200) (example_task None 0) (example_http None) () = (r, w')"
    by (cases "http_run example_op_codecs (example_client 200) (example_task None 0) (example_http None) ()")
  have "http_body example_op_codecs ''1'' = JObject [(''state'', JString ''running'')]"
    by (simp add: http_body_def example_json example_op_codecs_def)
  then show ?thesis
    using http_attempts [OF _ _ r, of "RaceDone (Inr (200, ''1''))" "()"] r by (simp add: example_client_def example_http_def)
qed

definition example_programs :: "program_end \<Rightarrow> (unit, unit) programs" where
  "example_programs e = \<lparr>pr_run = (\<lambda>step command stdin timeout w. (e, w)), pr_kill = id\<rparr>"

theorem program_attempts_witness:
  "\<exists>m. fst (run_program example_op_codecs (example_programs (Exited (Some 75) [] [])) (example_task None 0)
     \<lparr>cmd_program = ''load'', cmd_args = [], cmd_env = []\<rparr> None None ()) = Inl (StepTransient m)"
proof -
  let ?pr = "example_programs (Exited (Some 75) [] [])" and ?c = "\<lparr>cmd_program = ''load'', cmd_args = [], cmd_env = []\<rparr>"
  obtain r w' where r: "run_program example_op_codecs ?pr (example_task None 0) ?c None None () = (r, w')"
    by (cases "run_program example_op_codecs ?pr (example_task None 0) ?c None None ()")
  have "pr_run ?pr (tk_step (example_task None 0)) ?c None None () = (Exited (Some 75) [] [], ())"
    by (simp add: example_programs_def)
  from program_attempts [OF this r] show ?thesis using r by simp
qed

end
