(* ===== verification/Status.thy ===== *)
theory Status
  imports Dispatch
begin

section \<open>The status of a deployment (\<open>status.rs\<close>)\<close>

text \<open>
  The reads of another process. Its view of the queue is the reads of the services of its environment;
  the calls that only the status makes are the record \<open>views\<close>: the descending entries of a prefix, the
  inbox and the jobs of the queue, and the workflow view of a pool. All of them are \<open>taquba\<close>'s and
  \<open>taquba-workflow\<close>'s. \<open>StatusPanicked\<close> stands for the loop of the readiness rule and for the index of
  its result, which the source does not return as an error.
\<close>

datatype status_error =
    StatusQueue lib_error
  | StatusWorkflow workflow_error
  | StatusDefinition definition_error
  | StatusRecord bytes string
  | StatusUnknownDefinition string
  | StatusPanicked

definition status_error_of :: "read_error \<Rightarrow> status_error" where
  "status_error_of e = (case e of ReadQueue q \<Rightarrow> StatusQueue q | ReadRecord key message \<Rightarrow> StatusRecord key message)"

record run_counts =
  rc_active :: nat
  rc_cancelled :: nat
  rc_complete :: nat
  rc_failed :: nat

record run_status_summary =
  rsm_partition :: partition
  rsm_record :: graph_run_record

record graph_status =
  gst_name :: string
  gst_adopted :: "graph_record option"
  gst_runs :: run_counts
  gst_latest :: "run_status_summary option"

datatype instance_state =
    InstPending | InstScheduled | InstWaiting | InstRunning | InstCancelling | InstDeadLettered

definition show_instance_state :: "instance_state \<Rightarrow> string" where
  "show_instance_state s =
     (case s of
       InstPending \<Rightarrow> ''pending''
     | InstScheduled \<Rightarrow> ''scheduled''
     | InstWaiting \<Rightarrow> ''waiting''
     | InstRunning \<Rightarrow> ''running''
     | InstCancelling \<Rightarrow> ''cancelling''
     | InstDeadLettered \<Rightarrow> ''dead_lettered'')"

text \<open>The state of a run of the runtime, without the data that the status does not read.\<close>

datatype run_state =
    StPending | StScheduled | StWaiting | StRunning | StCancelling | StDeadLettered | StTerminated terminal_status

datatype request_state =
    RequestWaiting "string option" | RequestApplied request_record | RequestRejected string | RequestFailed string

record member_counts =
  mc_total :: nat
  mc_pending :: nat
  mc_succeeded :: nat
  mc_failed :: nat
  mc_cancelled :: nat

definition terminated :: "member_counts \<Rightarrow> nat" where
  "terminated c = mc_succeeded c + mc_failed c + mc_cancelled c"

definition member_counts_of :: "group_status \<Rightarrow> member_counts" where
  "member_counts_of st =
     \<lparr>mc_total = gs_total st, mc_pending = gs_pending st, mc_succeeded = gs_succeeded st, mc_failed = gs_failed st,
      mc_cancelled = gs_cancelled st\<rparr>"

record task_instance =
  tin_run_id :: string
  tin_state :: instance_state
  tin_members :: "member_counts option"

record node_status =
  nst_name :: string
  nst_pool :: string
  nst_state :: node_state
  nst_record :: "node_record option"
  nst_instance :: "task_instance option"

record graph_run_status =
  grs_graph :: string
  grs_partition :: partition
  grs_record :: graph_run_record
  grs_nodes :: "node_status list"

datatype inbox_outcome = InboxRejected string | InboxOther

datatype job_status = JobDead | JobDone | JobOther

text \<open>The data of a job that the status and its commands read; the run id is the one of its headers.\<close>

record job_record =
  jr_id :: string
  jr_status :: job_status
  jr_last_error :: "string option"
  jr_run_id :: "string option"
  jr_attempts :: u32
  jr_max_attempts :: u32
  jr_enqueued_at :: nat

text \<open>
  The views. \<open>vw_descending\<close> is the entries of a prefix from the last key down to a start, as the list of what
  the stream gives at each read; the status of a run is its state and the number of its step.
\<close>

record ('w, 'b, 'q) views =
  vw_descending :: "bytes \<Rightarrow> bytes option \<Rightarrow> 'w \<Rightarrow> (lib_error + bytes \<times> 'b) list \<times> 'w"
  vw_inbox :: "string \<Rightarrow> string \<Rightarrow> ('w, lib_error, inbox_outcome option) io"
  vw_job :: "string \<Rightarrow> ('w, lib_error, job_record option) io"
  vw_status :: "string \<Rightarrow> string \<Rightarrow> ('w, workflow_error, (run_state \<times> nat) option) io"
  vw_group_status :: "string \<Rightarrow> string \<Rightarrow> ('w, workflow_error, group_status option) io"
  vw_queues :: "('w, lib_error, string list) io"
  vw_stats :: "string \<Rightarrow> ('w, lib_error, 'q) io"
  vw_dead_jobs :: "string \<Rightarrow> nat \<Rightarrow> ('w, lib_error, job_record list) io"

definition status_queue :: "('w, lib_error, 'a) io \<Rightarrow> (('w, 'x) process, status_error, 'a) io" where
  "status_queue m = io_map_error StatusQueue (world_io m)"

definition status_read :: "('w, read_error, 'a) io \<Rightarrow> (('w, 'x) process, status_error, 'a) io" where
  "status_read m = io_map_error status_error_of (world_io m)"

definition status_workflow :: "('w, workflow_error, 'a) io \<Rightarrow> (('w, 'x) process, status_error, 'a) io" where
  "status_workflow m = io_map_error StatusWorkflow (world_io m)"

definition status_panics :: "'a option \<Rightarrow> ('s, status_error, 'a) io" where
  "status_panics v = io_of_sum (case v of None \<Rightarrow> Inl StatusPanicked | Some a \<Rightarrow> Inr a)"

subsection \<open>The graphs\<close>

definition no_runs :: run_counts where
  "no_runs = \<lparr>rc_active = 0, rc_cancelled = 0, rc_complete = 0, rc_failed = 0\<rparr>"

definition count_run :: "graph_run_state \<Rightarrow> run_counts \<Rightarrow> run_counts" where
  "count_run state c =
     (case state of
       RunActive \<Rightarrow> c\<lparr>rc_active := rc_active c + 1\<rparr>
     | RunCancelled \<Rightarrow> c\<lparr>rc_cancelled := rc_cancelled c + 1\<rparr>
     | RunComplete \<Rightarrow> c\<lparr>rc_complete := rc_complete c + 1\<rparr>
     | RunFailed \<Rightarrow> c\<lparr>rc_failed := rc_failed c + 1\<rparr>)"

text \<open>The entry of a graph, a new one when it is absent.\<close>

definition graph_entry :: "string \<Rightarrow> (string, graph_status) btree \<Rightarrow> graph_status" where
  "graph_entry name graphs =
     (case bt_get graphs name of
       Some st \<Rightarrow> st
     | None \<Rightarrow> \<lparr>gst_name = name, gst_adopted = None, gst_runs = no_runs, gst_latest = None\<rparr>)"

definition add_adopted :: "bytes \<times> 'b \<times> graph_record \<Rightarrow> (string, graph_status) btree \<Rightarrow> (string, graph_status) btree" where
  "add_adopted = (\<lambda>(key, bs, r) graphs.
     case parse_graph_key key of
       None \<Rightarrow> graphs
     | Some name \<Rightarrow> bt_insert name ((graph_entry name graphs)\<lparr>gst_adopted := Some r\<rparr>) graphs)"

definition add_run :: "bytes \<times> 'b \<times> graph_run_record \<Rightarrow> (string, graph_status) btree \<Rightarrow> (string, graph_status) btree" where
  "add_run = (\<lambda>(key, bs, r) graphs.
     case parse_graph_run_key key of
       None \<Rightarrow> graphs
     | Some (name, p) \<Rightarrow>
         let st = graph_entry name graphs
         in bt_insert name (st\<lparr>gst_runs := count_run (run_state r) (gst_runs st),
              gst_latest := Some \<lparr>rsm_partition = p, rsm_record = r\<rparr>\<rparr>) graphs)"

definition status_graphs :: "('w, 'b, 'x, 'r) env \<Rightarrow> (('w, 'x) process, status_error, graph_status list) io" where
  "status_graphs en =
     io_bind (status_queue (scan_records (en_backend en) (dec_graph (en_codecs en)) graphs_prefix)) (\<lambda>adopted.
       io_bind (status_queue (scan_records (en_backend en) (dec_run (en_codecs en)) graph_runs_prefix)) (\<lambda>runs.
         io_return (map snd (fold add_run runs (fold add_adopted adopted [])))))"

subsection \<open>The runs of a graph\<close>

text \<open>The reads of the stream end at the limit, so an error after it is not seen.\<close>

fun scan_last_loop ::
  "('b \<Rightarrow> string + 'a) \<Rightarrow> nat \<Rightarrow> (bytes \<times> 'b \<times> 'a) list \<Rightarrow> (lib_error + bytes \<times> 'b) list \<Rightarrow>
   lib_error + (bytes \<times> 'b \<times> 'a) list" where
  "scan_last_loop dec limit records [] = Inr records"
| "scan_last_loop dec limit records (x # xs) =
     (if limit \<le> length records then Inr records
      else case x of
        Inl e \<Rightarrow> Inl e
      | Inr e \<Rightarrow> scan_last_loop dec limit (records @ parsed_entries dec [e]) xs)"

definition scan_last ::
  "('w, 'b, 'q) views \<Rightarrow> ('b \<Rightarrow> string + 'a) \<Rightarrow> bytes \<Rightarrow> bytes option \<Rightarrow> nat \<Rightarrow> ('w, lib_error, (bytes \<times> 'b \<times> 'a) list) io" where
  "scan_last vw dec prefix start limit w =
     (case vw_descending vw prefix start w of (es, w') \<Rightarrow>
       (case scan_last_loop dec limit [] es of Inl e \<Rightarrow> (Inl e, w') | Inr records \<Rightarrow> (Inr (rev records), w')))"

definition status_runs ::
  "('w, 'b, 'x, 'r) env \<Rightarrow> ('w, 'b, 'q) views \<Rightarrow> string \<Rightarrow> partition option \<Rightarrow> nat \<Rightarrow>
   (('w, 'x) process, status_error, run_status_summary list) io" where
  "status_runs en vw graph from limit =
     io_bind (status_queue (scan_last vw (dec_run (en_codecs en)) (graph_runs_prefix @ graph @ ''/'')
         (map_option (graph_run_key graph) from) limit)) (\<lambda>entries.
       io_return (List.map_filter (\<lambda>(key, bs, r).
         map_option (\<lambda>(name, p). \<lparr>rsm_partition = p, rsm_record = r\<rparr>) (parse_graph_run_key key)) entries))"

subsection \<open>A graph run\<close>

definition instance_state_of :: "run_state \<Rightarrow> instance_state option" where
  "instance_state_of s =
     (case s of
       StPending \<Rightarrow> Some InstPending
     | StScheduled \<Rightarrow> Some InstScheduled
     | StWaiting \<Rightarrow> Some InstWaiting
     | StRunning \<Rightarrow> Some InstRunning
     | StCancelling \<Rightarrow> Some InstCancelling
     | StDeadLettered \<Rightarrow> Some InstDeadLettered
     | StTerminated t \<Rightarrow> None)"

definition instance_of ::
  "('w, 'b, 'q) views \<Rightarrow> string \<Rightarrow> string \<Rightarrow> string option \<Rightarrow> (('w, 'x) process, status_error, task_instance option) io" where
  "instance_of vw pool rid grp =
     io_bind (status_workflow (vw_status vw pool rid)) (\<lambda>v.
       case v of
         None \<Rightarrow> io_return None
       | Some (state, number) \<Rightarrow>
           (case instance_state_of state of
             None \<Rightarrow> io_return None
           | Some inst \<Rightarrow>
               io_bind (case grp of
                   Some g \<Rightarrow> if 0 < number
                     then io_bind (status_workflow (vw_group_status vw pool g)) (\<lambda>st. io_return (map_option member_counts_of st))
                     else io_return None
                 | None \<Rightarrow> io_return None) (\<lambda>members.
                 io_return (Some \<lparr>tin_run_id = rid, tin_state = inst, tin_members = members\<rparr>))))"

definition status_records ::
  "('w, 'b, 'x, 'r) env \<Rightarrow> string \<Rightarrow> partition \<Rightarrow> node list \<Rightarrow> (('w, 'x) process, status_error, records) io" where
  "status_records en graph p nodes =
     io_fold (\<lambda>n records.
       io_bind (status_read (read_record (en_backend en) (dec_node (en_codecs en)) (node_record_key graph p n))) (\<lambda>v.
         io_return (case v of None \<Rightarrow> records | Some r \<Rightarrow> bt_insert (node_name n) r records))) nodes []"

definition node_status_of ::
  "('w, 'b, 'q) views \<Rightarrow> 'x graph \<Rightarrow> string \<Rightarrow> partition \<Rightarrow> graph_run_record \<Rightarrow> states \<Rightarrow> node \<Rightarrow> records \<times> node_status list \<Rightarrow>
   (('w, 'x) process, status_error, records \<times> node_status list) io" where
  "node_status_of vw g graph p run states n = (\<lambda>(records, nodes).
     io_bind (case unrecorded_run_id g p run n records of
         None \<Rightarrow> io_return None
       | Some rid \<Rightarrow> instance_of vw (node_pool n) rid
           (case node_each n of None \<Rightarrow> None | Some each \<Rightarrow> Some (group_id graph p (node_name n)))) (\<lambda>inst.
       io_bind (status_panics (bt_get states (node_name n))) (\<lambda>state.
         io_return (bt_remove (node_name n) records,
           nodes @ [\<lparr>nst_name = node_name n, nst_pool = node_pool n, nst_state = state,
             nst_record = bt_get records (node_name n), nst_instance = inst\<rparr>]))))"

definition status_run ::
  "('w, 'b, 'x, 'r) env \<Rightarrow> ('w, 'b, 'q) views \<Rightarrow> string \<Rightarrow> partition \<Rightarrow>
   (('w, 'x) process, status_error, graph_run_status option) io" where
  "status_run en vw graph p =
     io_bind (status_read (read_record (en_backend en) (dec_run (en_codecs en)) (graph_run_key graph p))) (\<lambda>v.
       case v of
         None \<Rightarrow> io_return None
       | Some run \<Rightarrow>
           io_bind (io_map_error StatusDefinition (definition_get en (run_definition run))) (\<lambda>got.
             case got of
               None \<Rightarrow> io_fail (StatusUnknownDefinition (run_definition run))
             | Some g \<Rightarrow>
                 io_bind (status_records en graph p (gr_nodes g)) (\<lambda>records.
                   io_bind (status_panics (node_states g (current_records run records))) (\<lambda>states.
                     io_bind (io_fold (node_status_of vw g graph p run states) (gr_nodes g) (records, [])) (\<lambda>(left, nodes).
                       io_return (Some \<lparr>grs_graph = graph, grs_partition = p, grs_record = run, grs_nodes = nodes\<rparr>))))))"

subsection \<open>Requests, queues and dead jobs\<close>

definition status_request ::
  "('w, 'b, 'x, 'r) env \<Rightarrow> ('w, 'b, 'q) views \<Rightarrow> request_id \<Rightarrow> (('w, 'x) process, status_error, request_state) io" where
  "status_request en vw i =
     (let read = status_read (read_record (en_backend en) (dec_request (en_codecs en)) (request_key i)) in
      io_bind read (\<lambda>v.
        case v of
          Some r \<Rightarrow> io_return (RequestApplied r)
        | None \<Rightarrow>
            io_bind (status_queue (vw_inbox vw ''swale-requests'' (request_id_text i))) (\<lambda>inbox.
              case inbox of
                Some (InboxRejected reason) \<Rightarrow> io_return (RequestRejected reason)
              | _ \<Rightarrow>
                  io_bind (status_queue (vw_job vw (request_id_text i))) (\<lambda>job.
                    let again = io_bind read (\<lambda>v. io_return (case v of
                          Some r \<Rightarrow> RequestApplied r | None \<Rightarrow> RequestWaiting None))
                    in case job of
                      None \<Rightarrow> again
                    | Some j \<Rightarrow>
                        (case jr_status j of
                          JobDead \<Rightarrow> io_return (RequestFailed (case jr_last_error j of None \<Rightarrow> [] | Some e \<Rightarrow> e))
                        | JobDone \<Rightarrow> again
                        | JobOther \<Rightarrow> io_return (RequestWaiting (jr_last_error j)))))))"

definition status_queues :: "('w, 'b, 'q) views \<Rightarrow> (('w, 'x) process, status_error, 'q list) io" where
  "status_queues vw =
     io_bind (status_queue (vw_queues vw)) (\<lambda>names.
       io_fold (\<lambda>name stats. io_bind (status_queue (vw_stats vw name)) (\<lambda>st. io_return (stats @ [st]))) (sort names) [])"

definition status_dead_jobs ::
  "('w, 'b, 'q) views \<Rightarrow> string \<Rightarrow> nat \<Rightarrow> (('w, 'x) process, status_error, job_record list option) io" where
  "status_dead_jobs vw queue limit =
     io_bind (status_queue (vw_queues vw)) (\<lambda>names.
       if queue \<in> set names then io_bind (status_queue (vw_dead_jobs vw queue limit)) (\<lambda>jobs. io_return (Some jobs))
       else io_return None)"

end
