(* ===== verification/Status_Correct.thy ===== *)
theory Status_Correct
  imports Status Scheduler_Runs
begin

section \<open>The status agrees with the scheduler\<close>

text \<open>
  The status of a graph run against the records of the store and the rule that the scheduler applies.
\<close>

lemma status_read_Inr [simp]: "status_read m s = (Inr a, s') \<longleftrightarrow> read_io m s = (Inr a, s')"
  by (simp add: status_read_def read_io_def)

lemma status_panics_Inr [simp]: "status_panics v s = (Inr a, s') \<longleftrightarrow> v = Some a \<and> s' = s"
  by (auto simp: status_panics_def split: option.split)

text \<open>The records that the status reads are those that the scheduler reads.\<close>

lemma status_records_Inr:
  assumes "status_records en (gr_name g) p ns s = (Inr records, s')"
  shows "io_fold (\<lambda>n records. io_bind (read_node_record en g p n) (\<lambda>v.
     io_return (case v of None \<Rightarrow> records | Some r \<Rightarrow> bt_insert (node_name n) r records))) ns [] s = (Inr records, s')"
proof -
  have "io_fold (\<lambda>n records.
       io_bind (status_read (read_record (en_backend en) (dec_node (en_codecs en)) (node_record_key (gr_name g) p n))) (\<lambda>v.
         io_return (case v of None \<Rightarrow> records | Some r \<Rightarrow> bt_insert (node_name n) r records))) ns acc s = (Inr records, s') \<Longrightarrow>
    io_fold (\<lambda>n records. io_bind (read_node_record en g p n) (\<lambda>v.
     io_return (case v of None \<Rightarrow> records | Some r \<Rightarrow> bt_insert (node_name n) r records))) ns acc s = (Inr records, s')" for acc
    by (induction ns arbitrary: acc s) (auto simp: io_bind_Inr read_node_record_def)
  then show ?thesis using assms by (simp add: status_records_def)
qed

lemma status_run_record:
  assumes "by_itself en obs" and "read_io (read_record (en_backend en) (dec_run (en_codecs en)) (graph_run_key name p)) s = (Inr v, s')"
  shows "obs (st_world s') = obs (st_world s) \<and> v = stored_run en (obs (st_world s)) name p \<and>
    (v = None \<longrightarrow> ob_kv (obs (st_world s)) (graph_run_key name p) = None)"
proof -
  have same: "obs (st_world s') = obs (st_world s)"
    by (rule quiet_same [OF quiet_reads_record [OF reads_record [OF by_itself_backend [OF assms(1)]]] assms(2)])
  obtain b w where get: "kv_get (en_backend en) (graph_run_key name p) (st_world s) = (Inr b, w)"
    and b: "case b of None \<Rightarrow> v = None | Some bs \<Rightarrow> \<exists>r. dec_run (en_codecs en) bs = Inr r \<and> v = Some r"
    using assms(2) by (fastforce simp: read_record_def io_results split: option.splits)
  have "b = ob_kv (obs (st_world s)) (graph_run_key name p)"
    using alone_value [OF backend_kv_get [OF by_itself_backend [OF assms(1)]] get] by simp
  then show ?thesis using b same by (auto simp: stored_run_def split: option.splits)
qed

text \<open>The nodes of a status, one for every node of the graph in its order.\<close>

lemma node_status_result:
  "node_status_of vw g graph p run states n (records, nodes0) s = (Inr st1, s1) \<Longrightarrow>
     \<exists>state inst. bt_get states (node_name n) = Some state \<and>
       st1 = (bt_remove (node_name n) records, nodes0 @ [\<lparr>nst_name = node_name n, nst_pool = node_pool n,
         nst_state = state, nst_record = bt_get records (node_name n), nst_instance = inst\<rparr>])"
  by (fastforce simp: node_status_of_def io_bind_Inr)

lemma node_statuses:
  assumes "io_fold (node_status_of vw g graph p run states) ns (records, nodes0) s = (Inr (left, nodes), s')"
    and "distinct (map node_name ns)"
  shows "\<exists>xs. nodes = nodes0 @ xs \<and> list_all2 (\<lambda>n x. nst_name x = node_name n \<and> nst_pool x = node_pool n \<and>
     bt_get states (node_name n) = Some (nst_state x) \<and> nst_record x = bt_get records (node_name n)) ns xs"
  using assms
proof (induction ns arbitrary: records nodes0 s)
  case (Cons n ns)
  obtain st1 s1 where first: "node_status_of vw g graph p run states n (records, nodes0) s = (Inr st1, s1)"
    and "io_fold (node_status_of vw g graph p run states) ns st1 s1 = (Inr (left, nodes), s')"
    using Cons.prems(1) by (auto simp: io_bind_Inr)
  moreover obtain inst state where state: "bt_get states (node_name n) = Some state"
    and st1: "st1 = (bt_remove (node_name n) records, nodes0 @ [\<lparr>nst_name = node_name n, nst_pool = node_pool n,
      nst_state = state, nst_record = bt_get records (node_name n), nst_instance = inst\<rparr>])"
    using node_status_result [OF first] by blast
  ultimately have rest: "io_fold (node_status_of vw g graph p run states) ns (bt_remove (node_name n) records,
      nodes0 @ [\<lparr>nst_name = node_name n, nst_pool = node_pool n, nst_state = state,
             nst_record = bt_get records (node_name n), nst_instance = inst\<rparr>]) s1 = (Inr (left, nodes), s')"
    by simp
  from Cons.IH [OF rest] Cons.prems(2) obtain xs where
    "nodes = nodes0 @ [\<lparr>nst_name = node_name n, nst_pool = node_pool n, nst_state = state,
             nst_record = bt_get records (node_name n), nst_instance = inst\<rparr>] @ xs"
    and "list_all2 (\<lambda>m x. nst_name x = node_name m \<and> nst_pool x = node_pool m \<and>
     bt_get states (node_name m) = Some (nst_state x) \<and> nst_record x = bt_get (bt_remove (node_name n) records) (node_name m)) ns xs"
    by auto
  moreover from this(2) Cons.prems(2) have "list_all2 (\<lambda>m x. nst_name x = node_name m \<and> nst_pool x = node_pool m \<and>
     bt_get states (node_name m) = Some (nst_state x) \<and> nst_record x = bt_get records (node_name m)) ns xs"
    by (auto simp: list_all2_conv_all_nth image_iff) (metis nth_mem)+
  ultimately show ?case using state by (intro exI [of _ "_ # xs"]) auto
qed simp

lemma list_all2_right: "list_all2 P xs ys \<Longrightarrow> y \<in> set ys \<Longrightarrow> \<exists>x \<in> set xs. P x y"
  by (induction xs ys rule: list_all2_induct) auto

lemma status_nodes_agree:
  assumes ok: "by_itself en obs" and g: "wf_graph g"
    and records: "status_records en (gr_name g) p (gr_nodes g) s = (Inr records, s')"
    and states: "node_states g (current_records run records) = Some states"
    and fold: "io_fold (node_status_of vw g graph p run states) (gr_nodes g) (records, []) s' = (Inr (left, nodes), s'')"
  shows "map nst_name nodes = graph_names g \<and>
    (\<forall>x \<in> set nodes. \<exists>n \<in> set (gr_nodes g). nst_name x = node_name n \<and>
       nst_record x = stored_record en (obs (st_world s)) g p n \<and>
       (nst_state x = NodeReady \<longleftrightarrow> ready_now en (obs (st_world s)) g p run n))"
proof
  let ?o = "obs (st_world s)"
  have "read_node_records en g p s = (Inr records, s')"
    using status_records_Inr [OF records] by (simp add: read_node_records_def)
  note stored = node_records_alone(1) [OF ok this]
  have "distinct (map node_name (gr_nodes g))" using g by (simp add: wf_graph_def graph_names_def)
  from node_statuses [OF fold this]
  have nodes: "list_all2 (\<lambda>n x. nst_name x = node_name n \<and> nst_pool x = node_pool n \<and>
    bt_get states (node_name n) = Some (nst_state x) \<and> nst_record x = bt_get records (node_name n)) (gr_nodes g) nodes" by auto
  then show "map nst_name nodes = graph_names g"
    by (auto simp: list_all2_conv_all_nth graph_names_def intro: nth_equalityI)
  show "\<forall>x \<in> set nodes. \<exists>n \<in> set (gr_nodes g). nst_name x = node_name n \<and> nst_record x = stored_record en ?o g p n \<and>
      (nst_state x = NodeReady \<longleftrightarrow> ready_now en ?o g p run n)"
  proof
    fix x
    assume "x \<in> set nodes"
    then obtain n where n: "n \<in> set (gr_nodes g)" "nst_name x = node_name n" "bt_get states (node_name n) = Some (nst_state x)"
      "nst_record x = bt_get records (node_name n)"
      using list_all2_right [OF nodes] by blast
    have "ready_now en ?o g p run n \<longleftrightarrow> state_at states (node_name n) = NodeReady"
      by (rule ready_now_state [OF g n(1) states [unfolded stored]])
    moreover have "state_at states (node_name n) = nst_state x" by (simp add: state_at_def n(3))
    moreover have "nst_record x = stored_record en ?o g p n" unfolding n(4) stored by (rule stored_records_get [OF g n(1)])
    ultimately show "\<exists>n \<in> set (gr_nodes g). nst_name x = node_name n \<and> nst_record x = stored_record en ?o g p n \<and>
        (nst_state x = NodeReady \<longleftrightarrow> ready_now en ?o g p run n)" using n(1,2) by metis
  qed
qed

text \<open>The steps of a status that returns.\<close>

lemma status_run_steps:
  assumes run: "status_run en vw graph p s = (Inr v, s')"
  obtains (absent) s1 where "read_io (read_record (en_backend en) (dec_run (en_codecs en)) (graph_run_key graph p)) s = (Inr None, s1)"
      "v = None"
    | (found) r s1 g s2 records s3 states left nodes s4 where
      "read_io (read_record (en_backend en) (dec_run (en_codecs en)) (graph_run_key graph p)) s = (Inr (Some r), s1)"
      "definition_get en (run_definition r) s1 = (Inr (Some g), s2)"
      "status_records en graph p (gr_nodes g) s2 = (Inr records, s3)"
      "node_states g (current_records r records) = Some states"
      "io_fold (node_status_of vw g graph p r states) (gr_nodes g) (records, []) s3 = (Inr (left, nodes), s4)"
      "v = Some \<lparr>grs_graph = graph, grs_partition = p, grs_record = r, grs_nodes = nodes\<rparr>"
  using run by (auto simp: status_run_def io_bind_Inr split: option.splits)

text \<open>C12. The status of a graph run and the scheduler agree. Read from a store that no one writes, the status has the run
  record, one entry for every node of the definition in its order with the record of the node, and
  shows a node as ready exactly when a pass of the scheduler over that store would submit it; without
  a run record it is absent.\<close>

theorem status_agrees_with_scheduler:
  assumes ok: "by_itself en obs" and cache: "cache_ok en s" and run: "status_run en vw graph p s = (Inr v, s')"
  shows "case v of
      None \<Rightarrow> ob_kv (obs (st_world s)) (graph_run_key graph p) = None
    | Some st \<Rightarrow> stored_run en (obs (st_world s)) graph p = Some (grs_record st) \<and>
        (\<exists>g t. env_hash en t = run_definition (grs_record st) \<and> env_load en t = Inr g \<and>
          (gr_name g = graph \<longrightarrow> map nst_name (grs_nodes st) = graph_names g \<and>
            (\<forall>x \<in> set (grs_nodes st). \<exists>n \<in> set (gr_nodes g). nst_name x = node_name n \<and>
              nst_record x = stored_record en (obs (st_world s)) g p n \<and>
              (nst_state x = NodeReady \<longleftrightarrow> ready_now en (obs (st_world s)) g p (grs_record st) n))))"
  using run
proof (cases rule: status_run_steps)
  case (absent s1)
  then show ?thesis using status_run_record [OF ok absent(1)] by simp
next
  case (found r s1 g s2 records s3 states left nodes s4)
  note stored = status_run_record [OF ok found(1)]
  have cache1: "cache_ok en s1" using found(1) cache by (auto simp: read_io_Inr)
  obtain t where t: "env_hash en t = run_definition r" "env_load en t = Inr g"
    using definition_get_graph [OF cache1 found(2)] by blast
  have "obs (st_world s2) = obs (st_world s)"
    using quiet_same [OF quiet_definition_get [OF by_itself_backend [OF ok]] found(2)] stored by simp
  then have nodes: "gr_name g = graph \<longrightarrow> map nst_name nodes = graph_names g \<and>
      (\<forall>x \<in> set nodes. \<exists>n \<in> set (gr_nodes g). nst_name x = node_name n \<and>
         nst_record x = stored_record en (obs (st_world s)) g p n \<and>
         (nst_state x = NodeReady \<longleftrightarrow> ready_now en (obs (st_world s)) g p r n))"
    using status_nodes_agree [OF ok definition_get_wf(1) [OF cache1 found(2)] _ found(4,5), of s2] found(3) by simp
  show ?thesis
    unfolding found(6) option.case using stored nodes t
    by (intro conjI exI [of _ g] exI [of _ t] impI) simp_all
qed

subsection \<open>A concrete status\<close>

text \<open>The status after the extract of the example graph succeeded, with views that have no task instance.\<close>

definition example_views :: "(stored memory, stored, unit) views" where
  "example_views =
     \<lparr>vw_descending = (\<lambda>prefix start m. ([], m)), vw_inbox = (\<lambda>queue i m. (Inr None, m)), vw_job = (\<lambda>i m. (Inr None, m)),
      vw_status = (\<lambda>pool i m. (Inr None, m)), vw_group_status = (\<lambda>pool i m. (Inr None, m)), vw_queues = (\<lambda>m. (Inr [], m)),
      vw_stats = (\<lambda>queue m. (Inr (), m)), vw_dead_jobs = (\<lambda>queue limit m. (Inr [], m))\<rparr>"

lemma example_status_read:
  "status_read (read_record (memory_backend [''default''] 50) dec key) (example_process m) =
     (case bt_get (mem_kv m) key of
       None \<Rightarrow> (Inr None, example_process m)
     | Some b \<Rightarrow> (case dec b of Inl e \<Rightarrow> (Inl (StatusRecord key e), example_process m) | Inr r \<Rightarrow> (Inr (Some r), example_process m)))"
  by (simp add: status_read_def world_io_def io_lift_def read_record_def parse_record_def io_defs status_error_of_def
      split: option.split sum.split)

lemma example_instance [simp]:
  "instance_of example_views pool rid grp (example_process m) = (Inr None, example_process m)"
  by (simp add: instance_of_def status_workflow_def world_io_def io_lift_def example_views_def io_defs)

lemma example_status_records:
  "status_records example_env ''orders'' partition_none [extract_node, load_node, alert_node] (example_process extracted_memory) =
     (Inr [(''extract'', node_record_of extract_node 0 Succeeded)], example_process extracted_memory)"
  by (simp add: status_records_def example_status_read io_bind_def io_return_def extracted_memory_def bt_get_def stored_codecs_def)

lemma example_status:
  "\<exists>nodes. status_run example_env example_views ''orders'' partition_none (example_process extracted_memory) =
     (Inr (Some \<lparr>grs_graph = ''orders'', grs_partition = partition_none, grs_record = example_run, grs_nodes = nodes\<rparr>),
      example_process extracted_memory)"
proof -
  have get: "definition_get example_env ''ab'' (example_process m) = (Inr (Some example_graph), example_process m)" for m
    by (simp add: definition_get_def cached_graph_def example_process_def io_defs)
  have run: "run_definition example_run = ''ab''" by (simp add: example_run_def new_run_record_def)
  have read: "status_read (read_record (memory_backend [''default''] 50) (dec_run stored_codecs) ''swale/runs/orders/none'')
      (example_process extracted_memory) = (Inr (Some example_run), example_process extracted_memory)"
    by (simp add: example_status_read extracted_memory_def bt_get_def stored_codecs_def)
  show ?thesis
    by (simp add: status_run_def io_bind_def io_map_error_def io_return_def read run get example_nodes example_status_records
        extracted_states status_panics_def io_of_sum_def node_status_of_def bt_get_def split: option.split)
qed

theorem status_agrees_with_scheduler_witness:
  "\<exists>st. fst (status_run example_env example_views ''orders'' partition_none (example_process extracted_memory)) = Inr (Some st) \<and>
     map nst_name (grs_nodes st) = [''extract'', ''load'', ''alert'']"
proof -
  obtain nodes where run: "status_run example_env example_views ''orders'' partition_none (example_process extracted_memory) =
     (Inr (Some \<lparr>grs_graph = ''orders'', grs_partition = partition_none, grs_record = example_run, grs_nodes = nodes\<rparr>),
      example_process extracted_memory)" using example_status by blast
  from status_agrees_with_scheduler [OF by_itself_example example_cache run]
  have "\<exists>g t. env_hash example_env t = run_definition example_run \<and> env_load example_env t = Inr g \<and>
      (gr_name g = ''orders'' \<longrightarrow> map nst_name nodes = graph_names g)"
    by (simp only: option.case graph_run_status.simps) blast
  then obtain g t where g: "env_hash example_env t = run_definition example_run" "env_load example_env t = Inr g"
    "gr_name g = ''orders'' \<longrightarrow> map nst_name nodes = graph_names g"
    by blast
  have "run_definition example_run = ''ab''" by (simp add: example_run_def new_run_record_def)
  then have graph: "g = example_graph" using example_hash_graph [of t g] g(1,2) by (simp only:)
  have "map nst_name nodes = graph_names example_graph" using g(3) unfolding graph by (simp only: example_name simp_thms)
  then have "map nst_name nodes = [''extract'', ''load'', ''alert'']" by (simp add: graph_names_def example_nodes)
  then show ?thesis unfolding run by simp
qed

end
