(* ===== verification/Pools.thy ===== *)
theory Pools
  imports Dispatch Definition_Store
begin

section \<open>The pools (\<open>pools.rs\<close>)\<close>

text \<open>
  The settings of the builder and the runtimes it builds, one for each name of a pool. A runtime is the
  workflow library's, built from the settings of its pool, and a parameter; so is its run group. The
  runner of a runtime refers to the runtimes, so a runner takes the group of a node from them.
\<close>

record ('w, 'b) pools_builder =
  pb_dispatch :: "('w, 'b) dispatch"
  pb_poll_interval :: nat
  pb_memo_retention :: nat
  pb_store_prefix :: string
  pb_pools :: "(string \<times> nat) list"

record pool_settings =
  ps_pool :: string
  ps_queue :: string
  ps_memo_prefix :: string
  ps_steps :: nat
  ps_poll_interval :: nat
  ps_memo_retention :: nat

definition memo_prefix :: "string \<Rightarrow> string \<Rightarrow> string" where
  "memo_prefix prefix pool = store_path prefix (''memos/'' @ pool)"

text \<open>A poll interval of 250 milliseconds and a retention of seven days.\<close>

definition pools_builder_new :: "('w, 'b) dispatch \<Rightarrow> ('w, 'b) pools_builder" where
  "pools_builder_new dp =
     \<lparr>pb_dispatch = dp, pb_poll_interval = 250000000, pb_memo_retention = 7 * 86400 * second,
      pb_store_prefix = [], pb_pools = []\<rparr>"

definition builder_pool :: "string \<Rightarrow> nat \<Rightarrow> ('w, 'b) pools_builder \<Rightarrow> ('w, 'b) pools_builder" where
  "builder_pool name steps pb = pb\<lparr>pb_pools := pb_pools pb @ [(name, steps)]\<rparr>"

definition builder_poll_interval :: "nat \<Rightarrow> ('w, 'b) pools_builder \<Rightarrow> ('w, 'b) pools_builder" where
  "builder_poll_interval interval pb = pb\<lparr>pb_poll_interval := interval\<rparr>"

definition builder_memo_retention :: "nat \<Rightarrow> ('w, 'b) pools_builder \<Rightarrow> ('w, 'b) pools_builder" where
  "builder_memo_retention retention pb = pb\<lparr>pb_memo_retention := retention\<rparr>"

definition builder_member_poll_interval :: "nat \<Rightarrow> ('w, 'b) pools_builder \<Rightarrow> ('w, 'b) pools_builder" where
  "builder_member_poll_interval interval pb = pb\<lparr>pb_dispatch := (pb_dispatch pb)\<lparr>dp_poll_interval := interval\<rparr>\<rparr>"

definition builder_member_poll_max_interval :: "nat \<Rightarrow> ('w, 'b) pools_builder \<Rightarrow> ('w, 'b) pools_builder" where
  "builder_member_poll_max_interval interval pb = pb\<lparr>pb_dispatch := (pb_dispatch pb)\<lparr>dp_poll_max_interval := interval\<rparr>\<rparr>"

definition builder_store_prefix :: "string \<Rightarrow> ('w, 'b) pools_builder \<Rightarrow> ('w, 'b) pools_builder" where
  "builder_store_prefix prefix pb = pb\<lparr>pb_store_prefix := prefix\<rparr>"

definition settings_of :: "('w, 'b) pools_builder \<Rightarrow> string \<times> nat \<Rightarrow> pool_settings" where
  "settings_of pb = (\<lambda>(name, steps).
     \<lparr>ps_pool = name, ps_queue = ''swale-pool-'' @ name, ps_memo_prefix = memo_prefix (pb_store_prefix pb) name,
      ps_steps = steps, ps_poll_interval = pb_poll_interval pb, ps_memo_retention = pb_memo_retention pb\<rparr>)"

text \<open>\<open>None\<close> is the panic for a runtime that the library does not build. A pool that is added twice has the
  settings it was added with last.\<close>

definition pools_build :: "(pool_settings \<Rightarrow> 'r option) \<Rightarrow> ('w, 'b) pools_builder \<Rightarrow> (string \<Rightarrow> 'r option) option" where
  "pools_build runtime_build pb =
     (case those (map (\<lambda>p. map_option (Pair (fst p)) (runtime_build (settings_of pb p))) (pb_pools pb)) of
       None \<Rightarrow> None
     | Some runtimes \<Rightarrow> Some (map_of (rev runtimes)))"

definition pools_runtime :: "(string \<Rightarrow> 'r option) \<Rightarrow> string \<Rightarrow> 'r option" where
  "pools_runtime pools name = pools name"

text \<open>The runner of the pool \<open>name\<close> among some runtimes.\<close>

definition in_pool ::
  "('r \<Rightarrow> string \<Rightarrow> ('w, 'b) run_group) \<Rightarrow> (string \<Rightarrow> 'r option) \<Rightarrow> string \<Rightarrow> ('w, 'b) dispatch \<Rightarrow> ('w, 'b) dispatch" where
  "in_pool grp pools name dp =
     dp\<lparr>dp_group := (\<lambda>id. case pools_runtime pools name of None \<Rightarrow> None | Some rt \<Rightarrow> Some (grp rt id))\<rparr>"

subsection \<open>The runtimes\<close>

lemma those_in:
  assumes "those xs = Some ys" and "x \<in> set xs"
  shows "x \<noteq> None"
  using assms by (induction xs arbitrary: ys) (auto split: option.splits)

lemma those_pairs_in:
  assumes "those (map (\<lambda>p. map_option (Pair (fst p)) (f p)) ps) = Some rs" and "map_of (rev ps) name = Some v"
  shows "f (name, v) \<noteq> None"
proof -
  have "(name, v) \<in> set ps" using assms(2) map_of_SomeD by force
  then show ?thesis using those_in [OF assms(1), of "map_option (Pair name) (f (name, v))"] by force
qed

lemma those_map_of:
  assumes "those (map (\<lambda>p. map_option (Pair (fst p)) (f p)) ps) = Some rs"
  shows "map_of (rev rs) name = (case map_of (rev ps) name of None \<Rightarrow> None | Some v \<Rightarrow> f (name, v))"
  using assms
proof (induction ps arbitrary: rs)
  case (Cons p ps)
  then obtain r rs' where "rs = (fst p, r) # rs'" "f p = Some r"
      "those (map (\<lambda>p. map_option (Pair (fst p)) (f p)) ps) = Some rs'"
    by (auto split: option.splits)
  with Cons.IH those_pairs_in [of f ps rs' name] show ?case by (cases p) (auto simp: map_add_def split: option.splits)
qed simp

text \<open>The pools that build have a runtime for exactly the names that were added, with the settings of the
  last addition.\<close>

lemma pools_build_runtime:
  assumes "pools_build runtime_build pb = Some pools"
  shows "pools_runtime pools name =
     (case map_of (rev (pb_pools pb)) name of
       None \<Rightarrow> None
     | Some steps \<Rightarrow> runtime_build (settings_of pb (name, steps)))"
  using assms those_map_of by (force simp: pools_build_def pools_runtime_def split: option.splits)

lemma settings_apart:
  "ps_queue (settings_of pb (a, m)) = ps_queue (settings_of pb (b, n)) \<longleftrightarrow> a = b"
  "ps_memo_prefix (settings_of pb (a, m)) = ps_memo_prefix (settings_of pb (b, n)) \<longleftrightarrow> a = b"
  by (auto simp: settings_of_def memo_prefix_def store_path_def)

text \<open>The runner of a pool that was added has the group of every mapped node, so \<open>run_mapped\<close> does not fail for it.\<close>

lemma in_pool_group:
  assumes "pools_build runtime_build pb = Some pools" and "name \<in> fst ` set (pb_pools pb)"
  shows "dp_group (in_pool grp pools name dp) gid \<noteq> None"
proof -
  obtain steps where steps: "map_of (rev (pb_pools pb)) name = Some steps"
    using assms(2) by (metis map_of_eq_None_iff option.exhaust set_rev)
  moreover have "runtime_build (settings_of pb (name, steps)) \<noteq> None"
    using assms(1) those_pairs_in [of "\<lambda>p. runtime_build (settings_of pb p)", OF _ steps]
    by (auto simp: pools_build_def split: option.splits)
  ultimately show ?thesis using pools_build_runtime [OF assms(1), of name] by (auto simp: in_pool_def)
qed

end
