(* ===== verification/Command_Text.thy ===== *)
theory Command_Text
  imports Status Requests Error_Text
begin

section \<open>The arguments and the tables of the command line (\<open>cli/\<close>)\<close>

text \<open>
  The argument parsers, the location of a store and the text of a table. A text is its UTF-8 bytes, so the
  count of its characters is the count of the bytes that start one. The URL parser, the home directory and
  the text of a time are parameters.
\<close>

subsection \<open>Arguments (\<open>cli/daemon.rs\<close>, \<open>cli/mod.rs\<close>, \<open>cli/run.rs\<close>)\<close>

definition parse_pool_arg :: "string \<Rightarrow> string + string \<times> nat" where
  "parse_pool_arg raw =
     (let invalid = Inl (''`'' @ raw @ ''` is not `name=steps`, such as `warehouse=2`'')
      in case split_once CHR ''='' raw of
        None \<Rightarrow> invalid
      | Some (name, steps) \<Rightarrow>
          (case parse_unsigned u64_max steps of
            None \<Rightarrow> invalid
          | Some n \<Rightarrow> if \<not> is_name name \<or> n = 0 then invalid else Inr (name, n)))"

definition daemon_pool_sizes :: "nat \<Rightarrow> (string \<times> nat) list \<Rightarrow> (string, nat) btree" where
  "daemon_pool_sizes concurrency pools = fold (\<lambda>(name, n). bt_insert name n) pools [(''default'', concurrency)]"

definition run_pool_sizes :: "'x graph \<Rightarrow> nat \<Rightarrow> (string, nat) btree" where
  "run_pool_sizes g concurrency = fold (\<lambda>n. bt_insert (node_pool n) concurrency) (gr_nodes g) []"

definition run_partition :: "'x graph \<Rightarrow> partition option \<Rightarrow> string + partition" where
  "run_partition g given =
     (case given of
       Some p \<Rightarrow> Inr p
     | None \<Rightarrow>
         if gr_partitioning g = Unpartitioned then Inr partition_none
         else Inl ''the graph is partitioned: pass --partition <key>'')"

subsection \<open>The store (\<open>cli/store.rs\<close>)\<close>

definition queue_path_name :: string where "queue_path_name = ''swale''"

definition contains_scheme :: "string \<Rightarrow> bool" where
  "contains_scheme t \<longleftrightarrow> find_sub ''://'' t \<noteq> None"

text \<open>\<open>url_scheme\<close> is the scheme of a URL, or why the text is not one; \<open>enabled\<close> are the features of the build.\<close>

definition parse_store_arg :: "(string \<Rightarrow> string + string) \<Rightarrow> (string \<Rightarrow> bool) \<Rightarrow> string \<Rightarrow> string + string" where
  "parse_store_arg url_scheme enabled raw =
     (let is_url = contains_scheme raw \<and> (case raw of [] \<Rightarrow> False | c # cs \<Rightarrow> is_ascii_alphabetic c)
      in if \<not> is_url then Inr raw
         else case url_scheme raw of
           Inl e \<Rightarrow> Inl (''`'' @ raw @ ''` is not a URL: '' @ e)
         | Inr scheme \<Rightarrow>
             let needs = (\<lambda>feature.
               if enabled feature then Inr raw
               else Inl (''scheme `'' @ scheme @ ''` needs a build with the `'' @ feature @ ''` feature''))
             in if scheme = ''file'' then Inr raw
                else if scheme = ''s3'' then needs ''aws''
                else if scheme = ''gs'' then needs ''gcp''
                else if scheme \<in> {''az'', ''abfs'', ''abfss''} then needs ''azure''
                else Inl (''scheme `'' @ scheme @ ''` is not one of s3, gs, az, abfs, abfss or file''))"

text \<open>A relative path joined to a path that is not empty, on Unix.\<close>

definition path_join :: "string \<Rightarrow> string \<Rightarrow> string" where
  "path_join dir name = (if last dir = CHR ''/'' then dir @ name else dir @ ''/'' @ name)"

definition default_store :: "string option \<Rightarrow> string option" where
  "default_store home =
     (case home of
       None \<Rightarrow> None
     | Some dir \<Rightarrow> if dir = [] then None else Some (path_join (path_join dir ''.swale'') ''store''))"

definition store_location :: "string option \<Rightarrow> string option \<Rightarrow> string + string" where
  "store_location home arg =
     (case arg of
       Some raw \<Rightarrow> Inr raw
     | None \<Rightarrow>
         (case default_store home of
           None \<Rightarrow> Inl ''the default store needs a home directory: pass --store <dir or URL>''
         | Some dir \<Rightarrow> Inr dir))"

record 'o cli_store =
  clo_objects :: 'o
  clo_prefix :: string
  clo_queue_path :: string

definition open_location ::
  "(string \<Rightarrow> string + 'o \<times> string) \<Rightarrow> (string \<Rightarrow> string + 'o) \<Rightarrow> string \<Rightarrow> string + 'o cli_store" where
  "open_location open_url open_dir location =
     (case (if contains_scheme location then open_url location
            else case open_dir location of Inl e \<Rightarrow> Inl e | Inr objects \<Rightarrow> Inr (objects, [])) of
       Inl e \<Rightarrow> Inl e
     | Inr (objects, prefix) \<Rightarrow>
         Inr \<lparr>clo_objects = objects, clo_prefix = prefix, clo_queue_path = store_path prefix queue_path_name\<rparr>)"

subsection \<open>Tables (\<open>cli/table.rs\<close>)\<close>

definition continuation_byte :: "char \<Rightarrow> bool" where
  "continuation_byte c \<longleftrightarrow> 128 \<le> byte_val c \<and> byte_val c < 192"

definition char_count :: "string \<Rightarrow> nat" where
  "char_count t = length (filter (\<lambda>c. \<not> continuation_byte c) t)"

text \<open>The first characters of a text.\<close>

fun take_chars :: "nat \<Rightarrow> string \<Rightarrow> string" where
  "take_chars n [] = []"
| "take_chars n (c # cs) =
     (if continuation_byte c then c # take_chars n cs
      else case n of 0 \<Rightarrow> [] | Suc k \<Rightarrow> c # take_chars k cs)"

definition short_hash :: "string \<Rightarrow> string" where
  "short_hash hash = take_chars 12 hash"

text \<open>\<open>rfc3339\<close> is the text of a time within the range of the calendar.\<close>

definition format_time :: "(nat \<Rightarrow> string option) \<Rightarrow> nat \<Rightarrow> string" where
  "format_time rfc3339 ms =
     (case (if ms \<le> i64_max then rfc3339 ms else None) of None \<Rightarrow> show_nat ms | Some t \<Rightarrow> t)"

definition column_widths :: "string list \<Rightarrow> string list list \<Rightarrow> nat list" where
  "column_widths header rows =
     fold (\<lambda>row widths. map2 (\<lambda>width cell. max width (length cell)) widths row) rows (map length header)"

definition pad_cell :: "nat \<Rightarrow> string \<Rightarrow> string" where
  "pad_cell width cell = cell @ replicate (width - char_count cell) CHR '' ''"

definition table_line :: "nat list \<Rightarrow> string list \<Rightarrow> string" where
  "table_line widths cells = trim_end (join_with ''  '' (map2 (\<lambda>cell width. pad_cell width cell) cells widths)) @ [CHR 0x0A]"

definition format_table :: "string list \<Rightarrow> string list list \<Rightarrow> string" where
  "format_table header rows =
     (let widths = column_widths header rows in concat (map (table_line widths) (header # rows)))"

subsection \<open>The columns of a table are aligned\<close>

lemma char_count_le: "char_count t \<le> length t"
  by (simp add: char_count_def)

lemma char_count_pad: "char_count (pad_cell width cell) = max width (char_count cell)"
proof -
  have "\<not> continuation_byte CHR '' ''" by code_simp
  then show ?thesis by (simp add: char_count_def pad_cell_def)
qed

lemma column_widths_fold:
  assumes "\<forall>row \<in> set rows. length row = length widths" and "i < length widths"
  shows "length (fold (\<lambda>row widths. map2 (\<lambda>width cell. max width (length cell)) widths row) rows widths) = length widths \<and>
     (let w = fold (\<lambda>row widths. map2 (\<lambda>width cell. max width (length cell)) widths row) rows widths ! i
      in widths ! i \<le> w \<and> (\<forall>row \<in> set rows. length (row ! i) \<le> w))"
  using assms
proof (induction rows arbitrary: widths)
  case (Cons row rows)
  let ?w = "map2 (\<lambda>width cell. max width (length cell)) widths row"
  have "length ?w = length widths" "?w ! i = max (widths ! i) (length (row ! i))" using Cons.prems by simp_all
  then show ?case using Cons.IH [of ?w] Cons.prems by (auto simp: Let_def)
qed simp

text \<open>Every cell of a column has the same count of characters, those of the header included; only the spaces at
  the end of a line are removed.\<close>

lemma table_cells_aligned:
  assumes "\<forall>row \<in> set rows. length row = length header" and "i < length header" and "row \<in> set (header # rows)"
  shows "char_count (pad_cell (column_widths header rows ! i) (row ! i)) = column_widths header rows ! i"
proof -
  have "length (row ! i) \<le> column_widths header rows ! i"
    using column_widths_fold [of rows "map length header" i] assms unfolding column_widths_def by (auto simp: Let_def)
  then show ?thesis using char_count_le [of "row ! i"] by (simp add: char_count_pad)
qed

end
