(* ===== verification/Command_Line.thy ===== *)
theory Command_Line
  imports Command_Text Pools
begin

section \<open>The commands (\<open>cli/\<close>)\<close>

text \<open>
  What each command prints and its exit code. A command that reads prints after its reads, so its result
  is the text or the error; a command that waits has what it printed in its result. The time between two
  reads of a wait is the function \<open>tick\<close>, which is whether an interrupt ended it and in which the other
  workers of the store can do anything. \<open>Command_Store\<close> opens the store of a command.
\<close>

datatype command_error =
    CommandText string
  | CommandLoad load_error
  | CommandDefinition definition_error
  | CommandStatus status_error
  | CommandScheduler scheduler_error
  | CommandRead read_error

definition new_line :: string where "new_line = [CHR 0x0A]"

text \<open>The lines on stderr for an error; \<open>other\<close> is the text of the error of a library.\<close>

definition error_lines :: "(command_error \<Rightarrow> string) \<Rightarrow> command_error \<Rightarrow> string list" where
  "error_lines other e =
     (case e of
       CommandLoad (InvalidDefinition problems) \<Rightarrow> map (\<lambda>p. ''error: '' @ show_problem p) problems
     | CommandDefinition (DefinitionInvalid (InvalidDefinition problems)) \<Rightarrow> map (\<lambda>p. ''error: '' @ show_problem p) problems
     | CommandText t \<Rightarrow> [''error: '' @ t]
     | CommandLoad l \<Rightarrow> [''error: '' @ show_load_error l]
     | CommandDefinition d \<Rightarrow> [''error: '' @ show_definition_error d]
     | _ \<Rightarrow> [''error: '' @ other e])"

subsection \<open>validate and publish\<close>

definition validate ::
  "(string \<Rightarrow> string + string) \<Rightarrow> ('w, 'b, 'x, 'r) env \<Rightarrow> string \<Rightarrow> command_error + string" where
  "validate read_to_string en path =
     (case load_path read_to_string (en_toml en) (en_utc en) (en_cron en) (en_operators en) path of
       Inl e \<Rightarrow> Inl (CommandLoad e)
     | Inr g \<Rightarrow> Inr (gr_name g @ '': '' @ show_nat (length (gr_nodes g)) @ '' nodes, '' @
         show_nat (graph_edge_count g) @ '' edges'' @ new_line))"

definition publish_command :: "('w, 'b, 'x, 'r) env \<Rightarrow> string \<Rightarrow> (('w, 'x) process, command_error, string) io" where
  "publish_command en t =
     io_bind (io_map_error CommandDefinition (definition_publish en t)) (\<lambda>published.
       io_return (gr_name (pub_graph published) @ '': '' @
         (if pub_changed published then ''published'' else ''unchanged'') @ '' '' @ pub_hash published @ new_line))"

subsection \<open>status (\<open>cli/status.rs\<close>)\<close>

definition graph_row :: "graph_status \<Rightarrow> string list" where
  "graph_row g =
     [gst_name g,
      (case gst_adopted g of None \<Rightarrow> ''-'' | Some r \<Rightarrow> short_hash (adopted_definition r)),
      show_nat (rc_active (gst_runs g)), show_nat (rc_complete (gst_runs g)),
      show_nat (rc_failed (gst_runs g)), show_nat (rc_cancelled (gst_runs g)),
      (case gst_latest g of
        None \<Rightarrow> ''-''
      | Some run \<Rightarrow> as_str (rsm_partition run) @ '' '' @ show_graph_run_state (run_state (rsm_record run)))]"

definition run_row :: "(nat \<Rightarrow> string option) \<Rightarrow> run_status_summary \<Rightarrow> string list" where
  "run_row rfc3339 run =
     [as_str (rsm_partition run), show_graph_run_state (run_state (rsm_record run)),
      format_time rfc3339 (run_requested_at_ms (rsm_record run)), short_hash (run_definition (rsm_record run))]"

definition node_row :: "(nat \<Rightarrow> string option) \<Rightarrow> node_status \<Rightarrow> string list" where
  "node_row rfc3339 n =
     [nst_name n, nst_pool n, show_node_state (nst_state n),
      (case nst_instance n of None \<Rightarrow> ''-'' | Some i \<Rightarrow> show_instance_state (tin_state i)),
      (case Option.bind (nst_instance n) tin_members of
        None \<Rightarrow> ''-''
      | Some m \<Rightarrow> show_nat (terminated m) @ ''/'' @ show_nat (mc_total m)),
      (case nst_instance n of
        Some i \<Rightarrow> tin_run_id i
      | None \<Rightarrow> (case nst_record n of None \<Rightarrow> ''-'' | Some r \<Rightarrow> rec_run_id r)),
      (case nst_record n of None \<Rightarrow> ''-'' | Some r \<Rightarrow> format_time rfc3339 (rec_terminated_at_ms r))]"

definition node_error_line :: "node_status \<Rightarrow> string" where
  "node_error_line n =
     (case Option.bind (nst_record n) rec_error of
       None \<Rightarrow> []
     | Some e \<Rightarrow> nst_name n @ '': '' @ e @ new_line)"

definition graph_run_text :: "(nat \<Rightarrow> string option) \<Rightarrow> string \<Rightarrow> partition \<Rightarrow> graph_run_status \<Rightarrow> string" where
  "graph_run_text rfc3339 graph p run =
     graph @ ''/'' @ as_str p @ '': '' @ show_graph_run_state (run_state (grs_record run)) @ '', requested '' @
     format_time rfc3339 (run_requested_at_ms (grs_record run)) @ '', definition '' @
     short_hash (run_definition (grs_record run)) @ new_line @
     format_table [''NODE'', ''POOL'', ''STATE'', ''INSTANCE'', ''MEMBERS'', ''RUN'', ''TERMINATED'']
       (map (node_row rfc3339) (grs_nodes run)) @
     concat (map node_error_line (grs_nodes run))"

definition print_status ::
  "('w, 'b, 'x, 'r) env \<Rightarrow> ('w, 'b, 'q) views \<Rightarrow> (nat \<Rightarrow> string option) \<Rightarrow> string option \<Rightarrow> partition option \<Rightarrow>
   partition option \<Rightarrow> nat \<Rightarrow> (('w, 'x) process, command_error, string) io" where
  "print_status en vw rfc3339 graph at from limit =
     (case graph of
       None \<Rightarrow>
         io_bind (io_map_error CommandStatus (status_graphs en)) (\<lambda>graphs.
           io_return (format_table [''GRAPH'', ''DEFINITION'', ''ACTIVE'', ''COMPLETE'', ''FAILED'', ''CANCELLED'', ''LATEST'']
             (map graph_row graphs)))
     | Some g \<Rightarrow>
         (case at of
           None \<Rightarrow>
             io_bind (io_map_error CommandStatus (status_runs en vw g from limit)) (\<lambda>runs.
               if runs = [] then
                 io_fail (CommandText (''graph `'' @ g @ ''` does not have a graph run'' @
                   (case from of None \<Rightarrow> [] | Some p \<Rightarrow> '' at or after `'' @ as_str p @ ''`'')))
               else io_return (format_table [''PARTITION'', ''STATE'', ''REQUESTED'', ''DEFINITION''] (map (run_row rfc3339) runs)))
         | Some p \<Rightarrow>
             io_bind (io_map_error CommandStatus (status_run en vw g p)) (\<lambda>v.
               case v of
                 None \<Rightarrow> io_fail (CommandText (''graph `'' @ g @ ''` does not have a run for partition `'' @ as_str p @ ''`''))
               | Some run \<Rightarrow> io_return (graph_run_text rfc3339 g p run))))"

subsection \<open>queues (\<open>cli/queues.rs\<close>)\<close>

record queue_stats =
  qs_queue :: string
  qs_pending :: nat
  qs_scheduled :: nat
  qs_claimed :: nat
  qs_done :: nat
  qs_dead :: nat

definition queue_row :: "queue_stats \<Rightarrow> string list" where
  "queue_row q =
     [qs_queue q, show_nat (qs_pending q), show_nat (qs_scheduled q), show_nat (qs_claimed q),
      show_nat (qs_done q), show_nat (qs_dead q)]"

definition job_row :: "(nat \<Rightarrow> string option) \<Rightarrow> job_record \<Rightarrow> string list" where
  "job_row rfc3339 j =
     [jr_id j, (case jr_run_id j of None \<Rightarrow> ''-'' | Some t \<Rightarrow> t),
      show_u32 (jr_attempts j) @ ''/'' @ show_u32 (jr_max_attempts j), format_time rfc3339 (jr_enqueued_at j)]"

definition job_error_line :: "job_record \<Rightarrow> string" where
  "job_error_line j = (case jr_last_error j of None \<Rightarrow> [] | Some e \<Rightarrow> jr_id j @ '': '' @ e @ new_line)"

definition print_queues ::
  "('w, 'b, queue_stats) views \<Rightarrow> (nat \<Rightarrow> string option) \<Rightarrow> string option \<Rightarrow> nat \<Rightarrow> (('w, 'x) process, command_error, string) io" where
  "print_queues vw rfc3339 queue limit =
     (case queue of
       None \<Rightarrow>
         io_bind (io_map_error CommandStatus (status_queues vw)) (\<lambda>stats.
           io_return (format_table [''QUEUE'', ''PENDING'', ''SCHEDULED'', ''CLAIMED'', ''DONE'', ''DEAD''] (map queue_row stats)))
     | Some q \<Rightarrow>
         io_bind (io_map_error CommandStatus (status_dead_jobs vw q limit)) (\<lambda>v.
           case v of
             None \<Rightarrow> io_fail (CommandText (''queue `'' @ q @ ''` does not exist''))
           | Some jobs \<Rightarrow>
               io_return (format_table [''JOB'', ''RUN'', ''ATTEMPTS'', ''ENQUEUED''] (map (job_row rfc3339) jobs) @
                 concat (map job_error_line jobs))))"

subsection \<open>start, rerun and cancel (\<open>cli/request.rs\<close>)\<close>

definition request_text :: "request_id \<Rightarrow> string" where
  "request_text i = ''request '' @ request_id_text i @ '': ''"

datatype wait_end = WaitRecord request_record | WaitText string | WaitInterrupted

text \<open>The wait for the record of a request. It may not end: \<open>None\<close>.\<close>

partial_function (option) wait_request ::
  "('s \<Rightarrow> (status_error + request_state) \<times> 's) \<Rightarrow> ('s \<Rightarrow> bool \<times> 's) \<Rightarrow> request_id \<Rightarrow> 's \<Rightarrow>
   ((status_error + wait_end) \<times> 's) option" where
  "wait_request read tick i s =
     (case read s of
       (Inl e, s') \<Rightarrow> Some (Inl e, s')
     | (Inr st, s') \<Rightarrow>
         (case st of
           RequestApplied r \<Rightarrow> Some (Inr (WaitRecord r), s')
         | RequestRejected reason \<Rightarrow> Some (Inr (WaitText (request_text i @ ''rejected by the inbox, '' @ reason)), s')
         | RequestFailed e \<Rightarrow> Some (Inr (WaitText (request_text i @ ''failed, '' @ e)), s')
         | RequestWaiting e \<Rightarrow>
             (case tick s' of
               (interrupted, s'') \<Rightarrow>
                 if interrupted then Some (Inr WaitInterrupted, s'') else wait_request read tick i s'')))"

definition outcome_text :: "request_id \<Rightarrow> request_outcome \<Rightarrow> command_error + string" where
  "outcome_text i outcome =
     (case outcome of
       StartedOutcome partitions \<Rightarrow>
         Inr (request_text i @
           (if partitions = [] then ''every partition has a graph run''
            else ''started '' @ join_with '', '' (map as_str partitions)) @ new_line)
     | RerunOutcome rid \<Rightarrow> Inr (request_text i @ ''submitted '' @ rid @ new_line)
     | CancelledOutcome \<Rightarrow> Inr (request_text i @ ''cancelled'' @ new_line)
     | RefusedOutcome reason \<Rightarrow> Inl (CommandText (request_text i @ ''refused, '' @ reason)))"

text \<open>What a command prints on stdout and its exit code.\<close>

type_synonym exit = "string \<times> nat"

definition interrupt_code :: nat where "interrupt_code = 130"

text \<open>The end of a wait: the outcome of the record, or the error.\<close>

definition wait_outcome :: "request_id \<Rightarrow> wait_end \<Rightarrow> command_error + exit" where
  "wait_outcome i e =
     (case e of
       WaitInterrupted \<Rightarrow> Inr ([], interrupt_code)
     | WaitText t \<Rightarrow> Inl (CommandText t)
     | WaitRecord record \<Rightarrow>
         (case outcome_text i (rr_outcome record) of Inl err \<Rightarrow> Inl err | Inr t \<Rightarrow> Inr (t, 0)))"

end
