(* ===== verification/Command_Store.thy ===== *)
theory Command_Store
  imports Command_Line Status_Correct Operation_Properties
begin

section \<open>The store of a command (\<open>cli/store.rs\<close>)\<close>

text \<open>
  A command opens its store: the objects at the location, the queue within them, the pools and the
  scheduler; a command that only reads opens a reader. The calls of the host system and of the libraries are the
  record \<open>host\<close>, on the state of the services. What the process is, whatever store it opens (the codecs, the
  operators and the calendar), is its \<open>ho_env\<close>.
\<close>

record ('w, 'b, 'x, 'r, 'o, 'q, 'p) host =
  ho_read_file :: "string \<Rightarrow> string + string"
  ho_home :: "string option"
  ho_create_dir :: "string \<Rightarrow> ('w, string, unit) io"
  ho_open_url :: "string \<Rightarrow> string + 'o \<times> string"
  ho_open_dir :: "'w \<Rightarrow> string \<Rightarrow> string + 'o"
  ho_env :: "('w, 'b, 'x, 'r) env"
  ho_backend :: "'o cli_store \<Rightarrow> ('w, 'b) backend"
  ho_views :: "'o cli_store \<Rightarrow> ('w, 'b, 'q) views"
  ho_dispatch :: "('w, 'b) dispatch"
  ho_pool_runtime :: "pool_settings \<Rightarrow> 'p option"
  ho_open_queue :: "'o cli_store \<Rightarrow> ('w, string, unit) io"
  ho_close_queue :: "'o cli_store \<Rightarrow> ('w, string, unit) io"
  ho_open_reader :: "'o cli_store \<Rightarrow> ('w, string, unit) io"
  ho_close_reader :: "'o cli_store \<Rightarrow> ('w, string, unit) io"
  ho_inbox_send :: "'o cli_store \<Rightarrow> 'b inbox_entry \<Rightarrow> ('w, string, unit) io"
  ho_request_id :: "'w \<Rightarrow> request_id \<times> 'w"

definition host_io :: "('w, string, 'a) io \<Rightarrow> (('w, 'x) process, command_error, 'a) io" where
  "host_io m = io_map_error CommandText (world_io m)"

subsection \<open>Opening\<close>

definition open_at ::
  "('w, 'b, 'x, 'r, 'o, 'q, 'p) host \<Rightarrow> string \<Rightarrow> (('w, 'x) process, command_error, 'o cli_store) io" where
  "open_at ho location s =
     (case open_location (ho_open_url ho) (ho_open_dir ho (st_world s)) location of
       Inl e \<Rightarrow> (Inl (CommandText e), s)
     | Inr st \<Rightarrow> (Inr st, s))"

definition create_store ::
  "('w, 'b, 'x, 'r, 'o, 'q, 'p) host \<Rightarrow> string option \<Rightarrow> (('w, 'x) process, command_error, 'o cli_store) io" where
  "create_store ho arg =
     io_bind (io_map_error CommandText (io_of_sum (store_location (ho_home ho) arg))) (\<lambda>location.
       io_bind (if contains_scheme location then io_return () else host_io (ho_create_dir ho location)) (\<lambda>u.
         open_at ho location))"

definition open_store ::
  "('w, 'b, 'x, 'r, 'o, 'q, 'p) host \<Rightarrow> string option \<Rightarrow> (('w, 'x) process, command_error, 'o cli_store) io" where
  "open_store ho arg =
     io_bind (io_map_error CommandText (io_of_sum (store_location (ho_home ho) arg))) (open_at ho)"

text \<open>The definition store and the queue of an open store, before there are pools.\<close>

definition store_env ::
  "('w, 'b, 'x, 'r, 'o, 'q, 'p) host \<Rightarrow> 'o cli_store \<Rightarrow> ('w, 'b, 'x, 'r) env" where
  "store_env ho st = (ho_env ho)\<lparr>en_backend := ho_backend ho st, en_store_prefix := clo_prefix st\<rparr>"

text \<open>The scheduler on some pools submits to the pools that have a runtime.\<close>

definition scheduler_new ::
  "(string \<Rightarrow> 'p option) \<Rightarrow> ('w, 'b, 'x, 'r) env \<Rightarrow> ('w, 'b, 'x, 'r) env" where
  "scheduler_new pools en =
     en\<lparr>en_backend := (en_backend en)\<lparr>pool_exists := (\<lambda>name. pools_runtime pools name \<noteq> None)\<rparr>\<rparr>"

text \<open>The pools poll their queues every 100 milliseconds.\<close>

definition runtime_builder :: "('w, 'b) dispatch \<Rightarrow> string \<Rightarrow> (string, nat) btree \<Rightarrow> ('w, 'b) pools_builder" where
  "runtime_builder dp prefix sizes =
     fold (\<lambda>(name, steps). builder_pool name steps) sizes
       (builder_store_prefix prefix (builder_poll_interval 100000000 (pools_builder_new dp)))"

definition runtime_open ::
  "('w, 'b, 'x, 'r, 'o, 'q, 'p) host \<Rightarrow> 'o cli_store \<Rightarrow> (string, nat) btree \<Rightarrow>
   (('w, 'x) process, command_error, ('w, 'b, 'x, 'r) env) io" where
  "runtime_open ho st sizes =
     io_bind (host_io (ho_open_queue ho st)) (\<lambda>u.
       case pools_build (ho_pool_runtime ho) (runtime_builder (ho_dispatch ho) (clo_prefix st) sizes) of
         None \<Rightarrow> io_fail (CommandScheduler Panicked)
       | Some pools \<Rightarrow> io_return (scheduler_new pools (store_env ho st)))"

definition runtime_close ::
  "('w, 'b, 'x, 'r, 'o, 'q, 'p) host \<Rightarrow> 'o cli_store \<Rightarrow> (('w, 'x) process, command_error, unit) io" where
  "runtime_close ho st = host_io (ho_close_queue ho st)"

subsection \<open>The commands that read (\<open>cli/status.rs\<close>, \<open>cli/queues.rs\<close>)\<close>

definition open_status ::
  "('w, 'b, 'x, 'r, 'o, 'q, 'p) host \<Rightarrow> string option \<Rightarrow> (('w, 'x) process, command_error, 'o cli_store) io" where
  "open_status ho arg =
     io_bind (open_store ho arg) (\<lambda>st. io_bind (host_io (ho_open_reader ho st)) (\<lambda>u. io_return st))"

text \<open>The reader is closed before the result of the reads is.\<close>

definition with_reader ::
  "('w, 'b, 'x, 'r, 'o, 'q, 'p) host \<Rightarrow> string option \<Rightarrow>
   ('o cli_store \<Rightarrow> (('w, 'x) process, command_error, string) io) \<Rightarrow> (('w, 'x) process, command_error, exit) io" where
  "with_reader ho arg print =
     io_bind (open_status ho arg) (\<lambda>st.
       io_bind (io_try (print st)) (\<lambda>result.
         io_bind (host_io (ho_close_reader ho st)) (\<lambda>u.
           io_bind (io_of_sum result) (\<lambda>out. io_return (out, 0)))))"

definition status_command ::
  "('w, 'b, 'x, 'r, 'o, 'q, 'p) host \<Rightarrow> (nat \<Rightarrow> string option) \<Rightarrow> string option \<Rightarrow> string option \<Rightarrow> partition option \<Rightarrow>
   partition option \<Rightarrow> nat \<Rightarrow> (('w, 'x) process, command_error, exit) io" where
  "status_command ho rfc3339 arg graph at from limit =
     with_reader ho arg (\<lambda>st. print_status (store_env ho st) (ho_views ho st) rfc3339 graph at from limit)"

definition queues_command ::
  "('w, 'b, 'x, 'r, 'o, queue_stats, 'p) host \<Rightarrow> (nat \<Rightarrow> string option) \<Rightarrow> string option \<Rightarrow> string option \<Rightarrow> nat \<Rightarrow>
   (('w, 'x) process, command_error, exit) io" where
  "queues_command ho rfc3339 arg queue limit =
     with_reader ho arg (\<lambda>st. print_queues (ho_views ho st) rfc3339 queue limit)"

subsection \<open>The commands that send a request (\<open>cli/request.rs\<close>)\<close>

text \<open>The request is sent under an id that the library generates.\<close>

definition request_sent ::
  "('w, 'b, 'x, 'r, 'o, 'q, 'p) host \<Rightarrow> request \<Rightarrow> string option \<Rightarrow>
   (('w, 'x) process, command_error, request_id \<times> 'o cli_store) io" where
  "request_sent ho req arg =
     io_bind (world_io (\<lambda>w. case ho_request_id ho w of (i, w') \<Rightarrow> (Inr i, w'))) (\<lambda>i.
       io_bind (open_store ho arg) (\<lambda>st.
         io_bind (host_io (ho_inbox_send ho st (request_send (en_codecs (ho_env ho)) req i))) (\<lambda>u.
           io_return (i, st))))"

text \<open>The wait with its reader, and the end of the command: an error of a read ends it at once.\<close>

definition request_wait ::
  "('w, 'b, 'x, 'r, 'o, 'q, 'p) host \<Rightarrow> (('w, 'x) process \<Rightarrow> bool \<times> ('w, 'x) process) \<Rightarrow> request_id \<Rightarrow> 'o cli_store \<Rightarrow>
   ('w, 'x) process \<Rightarrow> ((command_error + exit) \<times> ('w, 'x) process) option" where
  "request_wait ho tick i st s =
     (case host_io (ho_open_reader ho st) s of
       (Inl e, s1) \<Rightarrow> Some (Inl e, s1)
     | (Inr u, s1) \<Rightarrow>
         map_option (\<lambda>(r, s2). case r of
             Inl e \<Rightarrow> (Inl (CommandStatus e), s2)
           | Inr e \<Rightarrow> io_bind (host_io (ho_close_reader ho st)) (\<lambda>u. io_of_sum (wait_outcome i e)) s2)
           (wait_request (status_request (store_env ho st) (ho_views ho st) i) tick i s1))"

definition send_request ::
  "('w, 'b, 'x, 'r, 'o, 'q, 'p) host \<Rightarrow> (('w, 'x) process \<Rightarrow> bool \<times> ('w, 'x) process) \<Rightarrow> request \<Rightarrow> string option \<Rightarrow> bool \<Rightarrow>
   ('w, 'x) process \<Rightarrow> ((command_error + exit) \<times> ('w, 'x) process) option" where
  "send_request ho tick req arg wait s =
     (case request_sent ho req arg s of
       (Inl e, s1) \<Rightarrow> Some (Inl e, s1)
     | (Inr (i, st), s1) \<Rightarrow>
         if \<not> wait then Some (Inr (request_text i @ ''sent, the writer of the store applies it'' @ new_line, 0), s1)
         else request_wait ho tick i st s1)"

subsection \<open>Contracts of the host\<close>

text \<open>Every store that opens has the laws of the services, and opening and closing writes no record.\<close>

definition host_ok :: "('w, 'b, 'x, 'r, 'o, 'q, 'p) host \<Rightarrow> ('w \<Rightarrow> 'b obs) \<Rightarrow> bool" where
  "host_ok ho obs \<longleftrightarrow> codecs_ok (en_codecs (ho_env ho)) \<and>
     (\<forall>st. backend_ok alone (ho_backend ho st) obs \<and>
        reads alone obs (ho_open_queue ho st) \<and> reads alone obs (ho_close_queue ho st) \<and>
        reads alone obs (ho_open_reader ho st) \<and> reads alone obs (ho_close_reader ho st))"

lemma host_stores:
  assumes "host_ok ho obs"
  shows "by_itself (store_env ho st) obs" and "by_itself (scheduler_new pools (store_env ho st)) obs"
  using assms by (simp_all add: host_ok_def by_itself_def store_env_def scheduler_new_def backend_ok_def)

lemma store_env_simps [simp]:
  "env_load (store_env ho st) t = env_load (ho_env ho) t" "env_hash (store_env ho st) t = env_hash (ho_env ho) t"
  "env_load (scheduler_new pools en) t = env_load en t" "env_hash (scheduler_new pools en) t = env_hash en t"
  "stored_run (store_env ho st) = stored_run (ho_env ho)" "stored_run (scheduler_new pools en) = stored_run en"
  "stored_request (store_env ho st) = stored_request (ho_env ho)"
  by (simp_all add: env_load_def env_hash_def store_env_def scheduler_new_def fun_eq_iff stored_run_def stored_request_def
    cong: option.case_cong)

lemma host_io_Inr:
  "host_io m s = (Inr a, s') \<longleftrightarrow> (\<exists>w. m (st_world s) = (Inr a, w) \<and> s' = s\<lparr>st_world := w\<rparr>)"
  by (auto simp: host_io_def io_map_error_Inr world_io_result)

lemma host_close:
  assumes "host_ok ho obs"
  shows "host_io (ho_close_queue ho st) s = (Inr u, s') \<Longrightarrow> obs (st_world s') = obs (st_world s)"
    and "host_io (ho_close_reader ho st) s = (Inr u, s') \<Longrightarrow> obs (st_world s') = obs (st_world s)"
  using assms by (auto simp: host_io_Inr host_ok_def intro: alone_reads)

lemma open_at_Inr: "open_at ho location s = (Inr st, s') \<Longrightarrow> s' = s"
  by (auto simp: open_at_def split: sum.splits)

lemma create_store_graphs: "create_store ho arg s = (Inr st, s') \<Longrightarrow> st_graphs s' = st_graphs s"
  by (auto simp: create_store_def io_bind_Inr host_io_Inr split: if_splits dest!: open_at_Inr)

subsection \<open>The pools of a runtime\<close>

lemma runtime_builder_pools:
  fixes dp :: "('w, 'b) dispatch"
  shows "pb_pools (runtime_builder dp prefix sizes) = sizes"
proof -
  have "pb_pools (fold (\<lambda>(name, steps). builder_pool name steps) sizes pb) = pb_pools pb @ sizes" for pb :: "('w, 'b) pools_builder"
    by (induction sizes arbitrary: pb) (auto simp: builder_pool_def)
  then show ?thesis by (simp add: runtime_builder_def builder_store_prefix_def builder_poll_interval_def pools_builder_new_def)
qed

text \<open>A runtime that opens has a pool for exactly the names it was opened with.\<close>

lemma runtime_open_pools:
  fixes ho :: "('w, 'b, 'x, 'r, 'o, 'q, 'p) host"
  assumes "runtime_open ho st sizes s = (Inr en, s')"
  shows "pool_exists (en_backend en) name \<longleftrightarrow> name \<in> fst ` set sizes"
    and "\<exists>pools :: string \<Rightarrow> 'p option. en = scheduler_new pools (store_env ho st)" and "st_graphs s' = st_graphs s"
proof -
  obtain pools where pools: "pools_build (ho_pool_runtime ho) (runtime_builder (ho_dispatch ho) (clo_prefix st) sizes) = Some pools"
    and en: "en = scheduler_new pools (store_env ho st)" and graphs: "st_graphs s' = st_graphs s"
    using assms by (auto simp: runtime_open_def io_bind_Inr host_io_Inr split: option.splits)
  show "pool_exists (en_backend en) name \<longleftrightarrow> name \<in> fst ` set sizes"
  proof (cases "map_of (rev sizes) name")
    case None
    then have "name \<notin> fst ` set sizes" by (simp add: map_of_eq_None_iff)
    then show ?thesis
      using pools_build_runtime [OF pools, of name] None by (simp add: en scheduler_new_def runtime_builder_pools)
  next
    case (Some steps)
    then have "name \<in> fst ` set sizes" by (metis map_of_eq_None_iff option.distinct(1) set_rev)
    moreover have "ho_pool_runtime ho (settings_of (runtime_builder (ho_dispatch ho) (clo_prefix st) sizes) (name, steps)) \<noteq> None"
      using pools those_pairs_in [OF _ Some, of "\<lambda>p. ho_pool_runtime ho (settings_of (runtime_builder (ho_dispatch ho) (clo_prefix st) sizes) p)"]
      by (auto simp: pools_build_def runtime_builder_pools split: option.splits)
    ultimately show ?thesis
      using pools_build_runtime [OF pools, of name] Some by (simp add: en scheduler_new_def runtime_builder_pools)
  qed
  show "\<exists>pools :: string \<Rightarrow> 'p option. en = scheduler_new pools (store_env ho st)" using en by blast
  show "st_graphs s' = st_graphs s" by (rule graphs)
qed

subsection \<open>What the wait for a request reports\<close>

lemma wait_request_record:
  assumes "wait_request read tick i s = Some (Inr (WaitRecord r), s')"
  shows "\<exists>s1. read s1 = (Inr (RequestApplied r), s')"
proof -
  have "\<forall>r s'. y = (Inr (WaitRecord r), s') \<longrightarrow> (\<exists>s1. read s1 = (Inr (RequestApplied r), s'))"
    if "wait_request read tick i s = Some y" for y
    by (rule wait_request.raw_induct [of "\<lambda>read tick i s y. \<forall>r s'. y = (Inr (WaitRecord r), s') \<longrightarrow>
          (\<exists>s1. read s1 = (Inr (RequestApplied r), s'))", OF _ that])
      (auto split: prod.splits if_splits sum.splits request_state.splits)
  then show ?thesis using assms by blast
qed

lemma request_record_read:
  assumes "by_itself en obs" and "status_read (read_record (en_backend en) (dec_request (en_codecs en)) (request_key i)) s = (Inr (Some r), s')"
  shows "stored_request en (obs (st_world s')) i = Some r"
proof -
  obtain b w where get: "kv_get (en_backend en) (request_key i) (st_world s) = (Inr (Some b), w)" and s': "s' = s\<lparr>st_world := w\<rparr>"
    and b: "dec_request (en_codecs en) b = Inr r"
    using assms(2) by (fastforce simp: read_record_def io_results split: option.splits)
  have "ob_kv (obs (st_world s)) (request_key i) = Some b" "obs w = obs (st_world s)"
    using alone_value [OF backend_kv_get [OF by_itself_backend [OF assms(1)]] get] by simp_all
  then show ?thesis using b s' by (simp add: stored_request_def)
qed

lemma request_applied_stored:
  assumes "by_itself en obs" and "status_request en vw i s = (Inr (RequestApplied r), s')"
  shows "stored_request en (obs (st_world s')) i = Some r"
proof -
  let ?read = "status_read (read_record (en_backend en) (dec_request (en_codecs en)) (request_key i)) ::
    (_, status_error, request_record option) io"
  have again: "\<exists>s1. ?read s1 = (Inr (Some r), s')"
    if "io_bind ?read (\<lambda>v. io_return (case v of Some r \<Rightarrow> RequestApplied r | None \<Rightarrow> RequestWaiting None)) s2 = (Inr (RequestApplied r), s')"
    for s2
    using that by (auto simp: io_bind_Inr simp del: status_read_Inr split: option.splits)
  have later: "\<exists>s1. ?read s1 = (Inr (Some r), s')"
    if "(case job of None \<Rightarrow> io_bind ?read (\<lambda>v. io_return (case v of Some r \<Rightarrow> RequestApplied r | None \<Rightarrow> RequestWaiting None))
       | Some j \<Rightarrow> (case jr_status j of
            JobDead \<Rightarrow> io_return (RequestFailed (case jr_last_error j of None \<Rightarrow> [] | Some e \<Rightarrow> e))
          | JobDone \<Rightarrow> io_bind ?read (\<lambda>v. io_return (case v of Some r \<Rightarrow> RequestApplied r | None \<Rightarrow> RequestWaiting None))
          | JobOther \<Rightarrow> io_return (RequestWaiting (jr_last_error j)))) s2 = (Inr (RequestApplied r), s')" for job s2
    using that again by (cases job) (auto split: job_status.splits)
  have "\<exists>s1. ?read s1 = (Inr (Some r), s')"
    using assms(2) unfolding status_request_def Let_def
    by (elim io_bind_InrE) (auto split: option.splits inbox_outcome.splits elim!: io_bind_InrE intro: later simp del: status_read_Inr)
  then show ?thesis using request_record_read [OF assms(1)] by blast
qed

end
