(* ===== verification/Command_Run.thy ===== *)
theory Command_Run
  imports Command_Store
begin

section \<open>The run command (\<open>cli/run.rs\<close>)\<close>

text \<open>
  The command starts a graph run and waits for it. Its wait alternates a \<open>tick\<close>, in which the workers of
  the process run, with a read of the records of the nodes that it did not print yet and of the record of
  the graph run. The loop may not end. The workers are spawned before the start and stopped at the end
  by calls of the libraries.
\<close>

text \<open>The names of the nodes that were printed, and what was printed.\<close>

type_synonym watched = "string list \<times> string"

definition command_read :: "('w, read_error, 'a) io \<Rightarrow> (('w, 'x) process, command_error, 'a) io" where
  "command_read m = io_map_error CommandRead (world_io m)"

definition node_line :: "node \<Rightarrow> node_record \<Rightarrow> string" where
  "node_line n r =
     ''  '' @ node_name n @ '': '' @ show_record_status (rec_status r) @ '' ('' @ rec_run_id r @ '')'' @ new_line @
     (case rec_error r of None \<Rightarrow> [] | Some e \<Rightarrow> ''    '' @ e @ new_line)"

definition watch_node ::
  "('w, 'b, 'x, 'r) env \<Rightarrow> string \<Rightarrow> partition \<Rightarrow> node \<Rightarrow> watched \<Rightarrow> (('w, 'x) process, command_error, watched) io" where
  "watch_node en graph p n = (\<lambda>(printed, out).
     if node_name n \<in> set printed then io_return (printed, out)
     else io_bind (command_read (read_record (en_backend en) (dec_node (en_codecs en)) (node_record_key graph p n))) (\<lambda>v.
       io_return (case v of
         None \<Rightarrow> (printed, out)
       | Some r \<Rightarrow> (printed @ [node_name n], out @ node_line n r))))"

text \<open>One iteration after its tick: the final state of the run, if it has one, and what was printed.\<close>

definition watch_run ::
  "('w, 'b, 'x, 'r) env \<Rightarrow> 'x graph \<Rightarrow> partition \<Rightarrow> watched \<Rightarrow>
   (('w, 'x) process, command_error, graph_run_state option \<times> watched) io" where
  "watch_run en g p watched =
     io_bind (io_fold (watch_node en (gr_name g) p) (gr_nodes g) watched) (\<lambda>watched'.
       io_bind (command_read (read_record (en_backend en) (dec_run (en_codecs en)) (graph_run_key (gr_name g) p))) (\<lambda>v.
         io_return (case v of
           None \<Rightarrow> (None, watched')
         | Some run \<Rightarrow> (if run_state run \<noteq> RunActive then Some (run_state run) else None, watched'))))"

partial_function (option) run_wait ::
  "(watched \<Rightarrow> 's \<Rightarrow> (command_error + graph_run_state option \<times> watched) \<times> 's) \<Rightarrow> ('s \<Rightarrow> bool \<times> 's) \<Rightarrow> watched \<Rightarrow> 's \<Rightarrow>
   ((command_error + graph_run_state option \<times> watched) \<times> 's) option" where
  "run_wait watch tick watched s =
     (case tick s of
       (interrupted, s1) \<Rightarrow>
         if interrupted then Some (Inr (None, watched), s1)
         else (case watch watched s1 of
           (Inl e, s2) \<Rightarrow> Some (Inl e, s2)
         | (Inr (final, watched'), s2) \<Rightarrow>
             if final \<noteq> None then Some (Inr (final, watched'), s2) else run_wait watch tick watched' s2))"

definition started_text :: "'x graph \<Rightarrow> partition \<Rightarrow> start_outcome \<Rightarrow> string" where
  "started_text g p outcome =
     gr_name g @ ''/'' @ as_str p @ '': '' @
     (if so_started outcome then ''started, '' @ show_nat (length (so_submitted outcome)) @ '' root node(s) submitted''
      else ''run exists, resuming'') @ new_line"

definition run_exit :: "'x graph \<Rightarrow> partition \<Rightarrow> graph_run_state option \<times> watched \<Rightarrow> exit" where
  "run_exit g p = (\<lambda>(final, printed, out).
     case final of
       None \<Rightarrow> (out, interrupt_code)
     | Some state \<Rightarrow>
         (out @ gr_name g @ ''/'' @ as_str p @ '': '' @ show_graph_run_state state @ new_line,
          if state = RunComplete then 0 else 1))"

text \<open>The command until its runtime is open: the definition is loaded and written, and its nodes have pools.\<close>

definition run_open ::
  "('w, 'b, 'x, 'r, 'o, 'q, 'p) host \<Rightarrow> string \<Rightarrow> string option \<Rightarrow> partition option \<Rightarrow> nat \<Rightarrow>
   (('w, 'x) process, command_error, 'o cli_store \<times> ('w, 'b, 'x, 'r) env \<times> string \<times> 'x graph \<times> partition) io" where
  "run_open ho file arg given concurrency =
     io_bind (io_map_error CommandText (io_of_sum (ho_read_file ho file))) (\<lambda>t.
       io_bind (io_map_error CommandLoad (io_of_sum (env_load (ho_env ho) t))) (\<lambda>g.
         io_bind (io_map_error CommandText (io_of_sum (run_partition g given))) (\<lambda>p.
           io_bind (create_store ho arg) (\<lambda>st.
             io_bind (io_map_error CommandDefinition (definition_put (store_env ho st) t)) (\<lambda>(hash, g').
               io_bind (runtime_open ho st (run_pool_sizes g' concurrency)) (\<lambda>en.
                 io_return (st, en, hash, g', p)))))))"

definition run_command ::
  "('w, 'b, 'x, 'r, 'o, 'q, 'p) host \<Rightarrow> (('w, 'x) process \<Rightarrow> bool \<times> ('w, 'x) process) \<Rightarrow> string \<Rightarrow> string option \<Rightarrow>
   partition option \<Rightarrow> nat \<Rightarrow> ('w, 'x) process \<Rightarrow> ((command_error + exit) \<times> ('w, 'x) process) option" where
  "run_command ho tick file arg given concurrency s =
     (case run_open ho file arg given concurrency s of
       (Inl e, s1) \<Rightarrow> Some (Inl e, s1)
     | (Inr (st, en, hash, g, p), s1) \<Rightarrow>
         (case io_map_error CommandScheduler (start_run en hash p) s1 of
           (Inl e, s2) \<Rightarrow> Some (Inl e, s2)
         | (Inr outcome, s2) \<Rightarrow>
             map_option (\<lambda>(r, s3). case r of
                 Inl e \<Rightarrow> (Inl e, s3)
               | Inr x \<Rightarrow> io_bind (runtime_close ho st) (\<lambda>u. io_return (run_exit g p x)) s3)
               (run_wait (watch_run en g p) tick ([], started_text g p outcome) s2)))"

subsection \<open>What the wait reports\<close>

lemma run_wait_end:
  assumes "run_wait watch tick watched s = Some (Inr (final, x), s')"
  shows "final = None \<or> (\<exists>watched1 s1. watch watched1 s1 = (Inr (final, x), s'))"
proof -
  have "\<forall>final x s'. y = (Inr (final, x), s') \<longrightarrow> final = None \<or> (\<exists>watched1 s1. watch watched1 s1 = (Inr (final, x), s'))"
    if "run_wait watch tick watched s = Some y" for y
    by (rule run_wait.raw_induct [of "\<lambda>watch tick watched s y. \<forall>final x s'. y = (Inr (final, x), s') \<longrightarrow>
          final = None \<or> (\<exists>watched1 s1. watch watched1 s1 = (Inr (final, x), s'))", OF _ that])
      (auto split: prod.splits if_splits sum.splits)
  then show ?thesis using assms by blast
qed

lemma command_read_Inr: "command_read m s = (Inr v, s') \<longleftrightarrow> read_io m s = (Inr v, s')"
  by (simp add: command_read_def read_io_def io_map_error_Inr)

lemma watch_run_final:
  assumes "by_itself en obs" and "watch_run en g p watched s = (Inr (Some state, x), s')"
  shows "\<exists>run. stored_run en (obs (st_world s')) (gr_name g) p = Some run \<and> run_state run = state \<and> state \<noteq> RunActive"
proof -
  obtain s1 run where read: "command_read (read_record (en_backend en) (dec_run (en_codecs en)) (graph_run_key (gr_name g) p)) s1 =
      (Inr (Some run), s')" and run: "run_state run = state" "state \<noteq> RunActive"
    using assms(2) by (auto simp: watch_run_def io_bind_Inr split: option.splits if_splits)
  show ?thesis using status_run_record [OF assms(1) read [unfolded command_read_Inr]] run by metis
qed

text \<open>A process that has no graphs yet has the graph of the text it writes, and keeps it.\<close>

lemma definition_put_first:
  assumes "definition_put en t s = (Inr (hash, g), s')" and "st_graphs s = Map.empty"
  shows "env_load en t = Inr g" and "hash = env_hash en t" and "st_graphs s' = [env_hash en t \<mapsto> g]"
proof -
  obtain h s1 where load: "env_load en t = Inr h"
    and world: "world_io (prefix_put (en_backend en) (definition_path en (env_hash en t)) t) s = (Inr (), s1)"
    and cache: "cache_graph (env_hash en t) h s1 = (Inr g :: definition_error + _, s')" and hash: "hash = env_hash en t"
    using assms(1)
    by (auto simp: definition_put_def definition_write_def io_bind_Inr io_map_error_Inr Let_def eq_commute [of _ "env_load en t"])
  have "st_graphs s1 = Map.empty" using world assms(2) by (auto simp: world_io_result)
  with load cache hash show "env_load en t = Inr g" "hash = env_hash en t" "st_graphs s' = [env_hash en t \<mapsto> g]"
    by (auto simp: cache_graph_def)
qed

lemma run_open_Inr:
  assumes "run_open ho file arg given concurrency s = (Inr (st, en, hash, g, p), s1)"
  obtains t s2 s3 where "ho_read_file ho file = Inr t" and "given = Some p \<or> given = None \<and> p = partition_none"
    and "st_graphs s2 = st_graphs s" and "definition_put (store_env ho st) t s2 = (Inr (hash, g), s3)"
    and "runtime_open ho st (run_pool_sizes g concurrency) s3 = (Inr en, s1)"
  using assms
  by (cases given)
    (auto simp: run_open_def run_partition_def io_bind_Inr io_map_error_Inr split: if_splits dest!: create_store_graphs,
      (metis)+)

text \<open>A run has a pool for every node, and its scheduler has the graph of the definition: no node of it is refused for its pool.\<close>

lemma run_pools:
  fixes sizes :: "(string, nat) btree"
  assumes "n \<in> set ns"
  shows "node_pool n \<in> fst ` set (fold (\<lambda>n. bt_insert (node_pool n) c) ns sizes)"
proof -
  have keep: "k \<in> fst ` set sizes \<Longrightarrow> k \<in> fst ` set (fold (\<lambda>n. bt_insert (node_pool n) c) ns sizes)" for k ns and sizes :: "(string, nat) btree"
    by (induction ns arbitrary: sizes) (simp_all add: bt_insert_fst)
  show ?thesis
    using assms by (induction ns arbitrary: sizes) (auto simp: bt_insert_fst intro: keep)
qed

lemma run_open_pools:
  assumes "run_open ho file arg given concurrency s = (Inr (st, en, hash, g, p), s1)" and "st_graphs s = Map.empty"
  shows "st_graphs s1 hash = Some g" and "\<forall>n \<in> set (gr_nodes g). pool_exists (en_backend en) (node_pool n)"
proof -
  from assms(1) obtain t s2 s3 where put: "definition_put (store_env ho st) t s2 = (Inr (hash, g), s3)"
    and s2: "st_graphs s2 = Map.empty" and opened: "runtime_open ho st (run_pool_sizes g concurrency) s3 = (Inr en, s1)"
    by (rule run_open_Inr) (simp add: assms(2))
  show "st_graphs s1 hash = Some g"
    using definition_put_first [OF put s2] runtime_open_pools(3) [OF opened] by simp
  show "\<forall>n \<in> set (gr_nodes g). pool_exists (en_backend en) (node_pool n)"
    using runtime_open_pools(1) [OF opened] run_pools [of _ "gr_nodes g"] by (simp add: run_pool_sizes_def)
qed

lemma run_command_Inr:
  assumes "run_command ho tick file arg given concurrency s = Some (Inr (out, code), s')"
  obtains st en hash g p s1 final watched watched' s2 s3 where
    "run_open ho file arg given concurrency s = (Inr (st, en, hash, g, p), s1)"
    and "run_wait (watch_run en g p) tick watched s2 = Some (Inr (final, watched'), s3)"
    and "runtime_close ho st s3 = (Inr (), s')" and "run_exit g p (final, watched') = (out, code)"
proof -
  obtain st en hash g p s1 where opened: "run_open ho file arg given concurrency s = (Inr (st, en, hash, g, p), s1)"
    using assms by (cases "run_open ho file arg given concurrency s") (auto simp: run_command_def split: sum.splits)
  obtain outcome s2 where started: "io_map_error CommandScheduler (start_run en hash p) s1 = (Inr outcome, s2)"
    using assms opened by (cases "io_map_error CommandScheduler (start_run en hash p) s1") (auto simp: run_command_def split: sum.splits)
  obtain r s3 where wait: "run_wait (watch_run en g p) tick ([], started_text g p outcome) s2 = Some (r, s3)"
    and rest: "(case r of Inl e \<Rightarrow> (Inl e, s3) | Inr x \<Rightarrow> io_bind (runtime_close ho st) (\<lambda>u. io_return (run_exit g p x)) s3) =
      (Inr (out, code), s')"
    using assms opened started by (auto simp: run_command_def)
  obtain final watched' where "r = Inr (final, watched')" and "runtime_close ho st s3 = (Inr (), s')"
    and "run_exit g p (final, watched') = (out, code)"
    using rest by (cases r) (auto simp: io_bind_Inr)
  with that [OF opened] wait show thesis by simp
qed

text \<open>C13. The exit code of a run tells how the graph run ended: unless an interrupt ended the wait (130), the store
  has at the end the record of a settled graph run of the file's graph for the partition, and
  the code is 0 when it is complete and 1 when it failed or was cancelled, whatever the other workers did
  between the reads and whether the command started the run or found it.\<close>

theorem run_command_exit:
  fixes ho :: "('w, 'b, 'x, 'r, 'o, 'q, 'p) host"
  assumes "host_ok ho obs" and "st_graphs s = Map.empty"
    and "run_command ho tick file arg given concurrency s = Some (Inr (out, code), s')"
  shows "code = 130 \<or>
     (\<exists>t g p run. ho_read_file ho file = Inr t \<and> env_load (ho_env ho) t = Inr g \<and>
        (given = Some p \<or> given = None \<and> p = partition_none) \<and>
        stored_run (ho_env ho) (obs (st_world s')) (gr_name g) p = Some run \<and> run_state run \<noteq> RunActive \<and>
        code = (if run_state run = RunComplete then 0 else 1))"
proof -
  from assms(3) obtain st en hash g p s1 final watched watched' s2 s3
    where opened: "run_open ho file arg given concurrency s = (Inr (st, en, hash, g, p), s1)"
    and wait: "run_wait (watch_run en g p) tick watched s2 = Some (Inr (final, watched'), s3)"
    and closed: "runtime_close ho st s3 = (Inr (), s')" and exit: "run_exit g p (final, watched') = (out, code)"
    by (rule run_command_Inr)
  from opened obtain t s4 s5 where read: "ho_read_file ho file = Inr t" "given = Some p \<or> given = None \<and> p = partition_none"
    and put: "definition_put (store_env ho st) t s4 = (Inr (hash, g), s5)" and s4: "st_graphs s4 = Map.empty"
    and runtime: "runtime_open ho st (run_pool_sizes g concurrency) s5 = (Inr en, s1)"
    by (rule run_open_Inr) (simp add: assms(2))
  have load: "env_load (ho_env ho) t = Inr g" using definition_put_first(1) [OF put s4] by simp
  obtain pools :: "string \<Rightarrow> 'p option" where en: "en = scheduler_new pools (store_env ho st)" using runtime_open_pools(2) [OF runtime] by blast
  have same: "obs (st_world s') = obs (st_world s3)"
    using host_close(1) [OF assms(1)] closed unfolding runtime_close_def by blast
  show ?thesis
  proof (cases final)
    case None
    then show ?thesis using exit by (auto simp: run_exit_def interrupt_code_def split: prod.splits)
  next
    case (Some state)
    then obtain w s6 where "watch_run en g p w s6 = (Inr (Some state, watched'), s3)" using run_wait_end [OF wait] by auto
    from watch_run_final [OF host_stores(2) [OF assms(1), of pools st, folded en] this]
    obtain run where "stored_run (ho_env ho) (obs (st_world s')) (gr_name g) p = Some run" "run_state run = state" "state \<noteq> RunActive"
      by (auto simp: en same)
    with Some exit read load show ?thesis
      by (intro disjI2 exI [of _ t] exI [of _ g] exI [of _ p] exI [of _ run]) (auto simp: run_exit_def split: prod.splits)
  qed
qed

subsection \<open>A concrete run\<close>

text \<open>A run of the example graph that has failed: the command finds it and reports its nodes and its end.\<close>

lemma example_command_read:
  "command_read (read_record (memory_backend [''default''] 50) dec key) (example_process m) =
     (case bt_get (mem_kv m) key of
       None \<Rightarrow> (Inr None, example_process m)
     | Some b \<Rightarrow> (case dec b of Inl e \<Rightarrow> (Inl (CommandRead (ReadRecord key e)), example_process m) | Inr r \<Rightarrow> (Inr (Some r), example_process m)))"
  by (simp add: command_read_def world_io_def io_lift_def read_record_def parse_record_def io_defs
      split: option.split sum.split)

definition command_process :: "stored memory \<Rightarrow> (stored memory, nat) process" where
  "command_process m = \<lparr>st_world = m, st_graphs = Map.empty\<rparr>"

lemma example_put:
  "\<exists>m'. mem_kv m' = mem_kv m \<and>
     definition_put example_env ''orders'' (command_process m) = (Inr (''ab'', example_graph), example_process m')"
  by (intro exI [of _ "m\<lparr>mem_objects := bt_insert (definition_path example_env ''ab'') ''orders'' (mem_objects m)\<rparr>"])
    (simp add: definition_put_def definition_write_def prefix_calls example_load example_hash io_bind_def io_return_def io_map_error_def
      io_of_sum_def world_io_def io_lift_def memory_backend_def cache_graph_def Let_def example_process_def command_process_def)

lemma example_resumes:
  assumes "bt_get (mem_kv m) ''swale/runs/orders/none'' = Some b"
  shows "start_run example_env ''ab'' partition_none (example_process m) =
     (Inr \<lparr>so_started = False, so_submitted = []\<rparr>, example_process m)"
  using assms by (simp add: start_run_def io_bind_def io_return_def)

lemma example_watch:
  assumes "mem_kv m = mem_kv failed_memory"
  shows "\<exists>watched'. watch_run example_env example_graph partition_none watched (example_process m) =
     (Inr (Some RunFailed, watched'), example_process m)"
  by (cases watched)
    (simp add: watch_run_def watch_node_def example_nodes io_bind_def io_return_def example_command_read assms
      failed_memory_def alerted_memory_def bt_get_def stored_codecs_def failed_run_def)

definition host_dispatch :: "(stored memory, stored) dispatch" where
  "host_dispatch =
     \<lparr>dp_operators = [], dp_env = [], dp_poll_interval = default_member_poll_interval,
      dp_poll_max_interval = default_member_poll_max_interval, dp_group = (\<lambda>i. None), dp_clock = clock_now (memory_backend [] 50),
      dp_hook = example_hook, dp_codecs = stored_codecs, dp_json_text = (\<lambda>j. []), dp_json_parse = (\<lambda>t. Inr JNull),
      dp_enc_phase = (\<lambda>p. JNull), dp_dec_phase = (\<lambda>j. Inl ''no phase'')\<rparr>"

definition example_host :: "(stored memory, stored, nat, unit, unit, queue_stats, string) host" where
  "example_host =
     \<lparr>ho_read_file = (\<lambda>path. if path = ''orders.toml'' then Inr ''orders'' else Inl ''not found''), ho_home = Some ''/home/u'',
      ho_create_dir = (\<lambda>dir. io_return ()), ho_open_url = (\<lambda>url. Inl ''unsupported''), ho_open_dir = (\<lambda>w dir. Inr ()),
      ho_env = example_env, ho_backend = (\<lambda>st. memory_backend [''default''] 50),
      ho_views = (\<lambda>st. \<lparr>vw_descending = (\<lambda>p k w. ([], w)), vw_inbox = (\<lambda>q i. io_return None), vw_job = (\<lambda>i. io_return None),
        vw_status = (\<lambda>p i. io_return None), vw_group_status = (\<lambda>p i. io_return None), vw_queues = io_return [],
        vw_stats = (\<lambda>q. io_fail (LibError True ''no queue'')), vw_dead_jobs = (\<lambda>q n. io_return [])\<rparr>),
      ho_dispatch = host_dispatch, ho_pool_runtime = (\<lambda>settings. Some (ps_queue settings)),
      ho_open_queue = (\<lambda>st. io_return ()), ho_close_queue = (\<lambda>st. io_return ()), ho_open_reader = (\<lambda>st. io_return ()),
      ho_close_reader = (\<lambda>st. io_return ()), ho_inbox_send = (\<lambda>st e. io_return ()), ho_request_id = (\<lambda>w. (RequestId ''r1'', w))\<rparr>"

lemma example_host_env: "store_env example_host st = example_env\<lparr>en_store_prefix := clo_prefix st\<rparr>"
  by (simp add: store_env_def example_host_def example_env_def)

lemma example_host_ok: "host_ok example_host memory_obs"
  using by_itself_example
  by (auto simp: host_ok_def example_host_def by_itself_def reads_def io_keeps_def io_return_def later_def)

definition example_store :: "unit cli_store" where
  "example_store = \<lparr>clo_objects = (), clo_prefix = [], clo_queue_path = ''swale''\<rparr>"

lemma example_create: "create_store example_host (Some ''/tmp/store'') s = (Inr example_store, s)"
proof -
  have "\<not> contains_scheme ''/tmp/store''" by code_simp
  then show ?thesis
    by (simp add: create_store_def open_at_def open_location_def store_location_def store_path_def queue_path_name_def example_store_def
      example_host_def host_io_def world_io_def io_lift_def io_defs)
qed

lemma example_sizes: "run_pool_sizes example_graph 4 = [(''default'', 4)]"
  by (simp add: run_pool_sizes_def example_nodes)

lemma example_runtime:
  "runtime_open example_host example_store [(''default'', 4)] s = (Inr example_env, s)"
proof -
  have "(memory_backend [''default''] 50)\<lparr>pool_exists := (\<lambda>name. name = ''default'')\<rparr> = memory_backend [''default''] 50"
    by (simp add: memory_backend_def)
  then have "scheduler_new [''default'' \<mapsto> x] example_env = example_env" for x :: string
    by (simp add: scheduler_new_def example_env_def pools_runtime_def)
  moreover have "store_env example_host example_store = example_env"
    by (simp add: example_host_env example_store_def) (simp add: example_env_def)
  ultimately show ?thesis
    by (simp add: runtime_open_def pools_build_def runtime_builder_pools host_io_def world_io_def io_lift_def io_defs)
      (simp add: example_host_def io_defs)
qed

lemma example_open:
  "\<exists>m. mem_kv m = mem_kv failed_memory \<and>
     run_open example_host ''orders.toml'' (Some ''/tmp/store'') (Some partition_none) 4 (command_process failed_memory) =
       (Inr (example_store, example_env, ''ab'', example_graph, partition_none), example_process m)"
proof -
  obtain m where m: "mem_kv m = mem_kv failed_memory"
    and put: "definition_put example_env ''orders'' (command_process failed_memory) = (Inr (''ab'', example_graph), example_process m)"
    using example_put by blast
  have "store_env example_host example_store = example_env"
    by (simp add: example_host_env example_store_def) (simp add: example_env_def)
  moreover have "ho_read_file example_host ''orders.toml'' = Inr ''orders''" "ho_env example_host = example_env"
    by (simp_all add: example_host_def)
  ultimately show ?thesis
    using m by (intro exI [of _ m]) (simp add: run_open_def run_partition_def io_bind_def io_return_def io_map_error_def
      io_of_sum_def example_load example_create put example_sizes example_runtime)
qed

theorem run_command_exit_witness:
  "\<exists>out s run. run_command example_host (\<lambda>s. (False, s)) ''orders.toml'' (Some ''/tmp/store'') (Some partition_none) 4
       (command_process failed_memory) = Some (Inr (out, 1), s) \<and>
     stored_run example_env (memory_obs (st_world s)) ''orders'' partition_none = Some run \<and> run_state run \<notin> {RunActive, RunComplete}"
proof -
  let ?start = "\<lparr>so_started = False, so_submitted = []\<rparr> :: start_outcome"
  obtain m where m: "mem_kv m = mem_kv failed_memory"
    and opened: "run_open example_host ''orders.toml'' (Some ''/tmp/store'') (Some partition_none) 4 (command_process failed_memory) =
      (Inr (example_store, example_env, ''ab'', example_graph, partition_none), example_process m)"
    using example_open by blast
  have "bt_get (mem_kv m) ''swale/runs/orders/none'' = Some (StoredRun failed_run)"
    by (simp add: m failed_memory_def bt_insert_get)
  note resumes = example_resumes [OF this]
  obtain watched where watch: "watch_run example_env example_graph partition_none
      ([], started_text example_graph partition_none ?start) (example_process m) = (Inr (Some RunFailed, watched), example_process m)"
    using example_watch [OF m] by blast
  have close: "runtime_close example_host example_store s = (Inr (), s)" for s :: "(stored memory, nat) process"
    by (simp add: runtime_close_def host_io_def example_host_def world_io_def io_lift_def io_defs)
  obtain out where command: "run_command example_host (\<lambda>s. (False, s)) ''orders.toml'' (Some ''/tmp/store'') (Some partition_none) 4
      (command_process failed_memory) = Some (Inr (out, 1), example_process m)"
    by (cases watched) (simp add: run_command_def opened resumes run_wait.simps watch run_exit_def close io_map_error_def
      io_bind_def io_return_def)
  from run_command_exit [OF example_host_ok _ command]
  obtain t g run where g: "ho_read_file example_host ''orders.toml'' = Inr t" "env_load example_env t = Inr g"
    and run: "stored_run example_env (memory_obs m) (gr_name g) partition_none = Some run" "run_state run \<noteq> RunActive"
      "(1::nat) = (if run_state run = RunComplete then 0 else 1)"
    by (auto simp: command_process_def example_process_def example_host_def)
  have "t = ''orders''" using g(1) by (simp add: example_host_def)
  then have "gr_name g = ''orders''" using g(2) by (simp add: example_load)
  then show ?thesis using command run
    by (intro exI [of _ out] exI [of _ "example_process m"] exI [of _ run]) (simp add: example_process_def split: if_splits)
qed

end
