(* ===== verification/Daemon_Run.thy ===== *)
theory Daemon_Run
  imports Daemon_Correct Retention
begin

section \<open>The loops of the daemon (\<open>Daemon::run\<close>, \<open>Scheduler::run\<close>)\<close>

text \<open>
  The iterations of the two loops. A pass that fails is logged and the loop goes on. The time between two
  iterations is the function \<open>tick\<close>, which is whether the shutdown resolved and in which the workers run.
  The spawn of the workers and the wait for their end are calls of the libraries.
\<close>

record scheduler_options =
  sop_concurrency :: nat
  sop_poll_interval :: nat
  sop_reconcile_interval :: nat

text \<open>In milliseconds.\<close>

definition default_scheduler_options :: scheduler_options where
  "default_scheduler_options = \<lparr>sop_concurrency = 4, sop_poll_interval = 250, sop_reconcile_interval = 60000\<rparr>"

record daemon_options =
  dop_scheduler :: scheduler_options
  dop_sync_interval :: nat
  dop_retention :: nat

definition default_daemon_options :: daemon_options where
  "default_daemon_options =
     \<lparr>dop_scheduler = default_scheduler_options, dop_sync_interval = 30000, dop_retention = 90 * 86400 * 1000\<rparr>"

subsection \<open>The daemon\<close>

text \<open>The sync pass with the registration of its schedules, then the retention pass.\<close>

definition daemon_pass ::
  "('w, 'b, 'x, 'r) env \<Rightarrow> ('c \<Rightarrow> 'x cron_schedule list \<Rightarrow> cron_refusal option \<times> 'c) \<Rightarrow> daemon_options \<Rightarrow>
   'c \<times> ('w, 'x) daemon_state \<Rightarrow> ('c \<times> ('w, 'x) daemon_state) option" where
  "daemon_pass en replace_all options = (\<lambda>(c, d).
     let registered =
       (case sync en d of
         (Inr (rep, schedules), d1) \<Rightarrow> daemon_register replace_all schedules c d1
       | (Inl e, d1) \<Rightarrow> Some (c, d1))
     in map_option (\<lambda>(c', d'). (c', snd (process_io (expire en (dop_retention options)) d'))) registered)"

partial_function (option) daemon_loop ::
  "('s \<Rightarrow> 's option) \<Rightarrow> ('s \<Rightarrow> bool \<times> 's) \<Rightarrow> 's \<Rightarrow> 's option" where
  "daemon_loop pass tick s =
     Option.bind (pass s) (\<lambda>s1. case tick s1 of
       (stopped, s2) \<Rightarrow> if stopped then Some s2 else daemon_loop pass tick s2)"

definition daemon_run ::
  "('w, 'b, 'x, 'r) env \<Rightarrow> ('c \<Rightarrow> 'x cron_schedule list \<Rightarrow> cron_refusal option \<times> 'c) \<Rightarrow> daemon_options \<Rightarrow>
   ('c \<times> ('w, 'x) daemon_state \<Rightarrow> bool \<times> ('c \<times> ('w, 'x) daemon_state)) \<Rightarrow> 'c \<times> ('w, 'x) daemon_state \<Rightarrow>
   ('c \<times> ('w, 'x) daemon_state) option" where
  "daemon_run en replace_all options tick = daemon_loop (daemon_pass en replace_all options) tick"

subsection \<open>The reconciler\<close>

text \<open>The first tick of an interval is immediate, so the first pass is an interval after the start.\<close>

partial_function (option) reconcile_loop ::
  "('w, 'b, 'x, 'r) env \<Rightarrow> (('w, 'x) process \<Rightarrow> bool \<times> ('w, 'x) process) \<Rightarrow> ('w, 'x) process \<Rightarrow> ('w, 'x) process option" where
  "reconcile_loop en tick s =
     (case tick s of
       (stopped, s1) \<Rightarrow> if stopped then Some s1 else reconcile_loop en tick (snd (reconcile en s1)))"

subsection \<open>The loops go on until the shutdown\<close>

text \<open>A pass of the daemon returns, whatever fails in it, when the cron scheduler rejects only what it is given.\<close>

lemma daemon_pass_returns:
  assumes "\<And>c xs c' name. replace_all c xs = (Some (UnboundedStart name), c') \<Longrightarrow> name \<in> cs_name ` set xs"
  shows "daemon_pass en replace_all options s \<noteq> None"
proof -
  have "\<exists>x. daemon_register replace_all schedules c d = Some x" for schedules c d
    using daemon_register_returns [of replace_all schedules c d] assms by auto
  then show ?thesis by (auto simp: daemon_pass_def split: prod.split sum.split)
qed

text \<open>A loop whose passes return ends when the shutdown comes nearer with every iteration.\<close>

lemma daemon_loop_ends:
  fixes left :: "'s \<Rightarrow> nat"
  assumes "\<And>s. pass s \<noteq> None"
    and "\<And>s s1 s2. pass s = Some s1 \<Longrightarrow> tick s1 = (False, s2) \<Longrightarrow> left s2 < left s"
  shows "\<exists>s'. daemon_loop pass tick s = Some s'"
proof (induction "left s" arbitrary: s rule: less_induct)
  case less
  obtain s1 where s1: "pass s = Some s1" using assms(1) by blast
  obtain stopped s2 where tick: "tick s1 = (stopped, s2)" by fastforce
  show ?case
    using less [of s2] assms(2) [OF s1, of s2] tick by (subst daemon_loop.simps) (cases stopped, simp_all add: s1)
qed

end
