(* ===== verification/Command_Main.thy ===== *)
theory Command_Main
  imports Command_Run Daemon_Run
begin

section \<open>The command line (\<open>cli/mod.rs\<close>)\<close>

text \<open>
  A command with its parsed arguments, its run, and the end of the process: the text on stdout of a command that
  succeeds, the lines on stderr of one that fails, and the exit code. What a command printed before
  it failed is left out. A command may wait without an end: \<open>None\<close>.
\<close>

subsection \<open>The arguments\<close>

definition parse_partition_arg :: "string \<Rightarrow> invalid_partition + partition" where
  "parse_partition_arg raw = partition_new raw"

text \<open>The store of a command is the value of \<open>--store\<close>; the interval and the retention of a daemon are in seconds.\<close>

datatype cli_command =
    ValidateCommand string
  | RunCommand string "string option" "partition option" nat
  | PublishCommand string "string option"
  | DaemonCommand "string option" nat "(string \<times> nat) list" nat nat
  | StartCommand string "partition list" "string option" bool
  | RerunCommand string partition string "string option" bool
  | CancelCommand string partition "string option" bool
  | StatusCommand "string option" "partition option" "string option" "partition option" nat
  | QueuesCommand "string option" "string option" nat

subsection \<open>publish (\<open>cli/publish.rs\<close>)\<close>

definition publish_file ::
  "('w, 'b, 'x, 'r, 'o, 'q, 'p) host \<Rightarrow> string \<Rightarrow> string option \<Rightarrow> (('w, 'x) process, command_error, exit) io" where
  "publish_file ho file arg =
     io_bind (io_map_error CommandText (io_of_sum (ho_read_file ho file))) (\<lambda>t.
       io_bind (create_store ho arg) (\<lambda>st.
         io_bind (publish_command (store_env ho st) t) (\<lambda>out. io_return (out, 0))))"

subsection \<open>daemon (\<open>cli/daemon.rs\<close>)\<close>

text \<open>What surrounds a command: the waits, the cron scheduler, and how the workers of the daemon end.\<close>

record ('w, 'x, 'c) surroundings =
  sd_tick :: "('w, 'x) process \<Rightarrow> bool \<times> ('w, 'x) process"
  sd_daemon_tick :: "'c \<times> ('w, 'x) daemon_state \<Rightarrow> bool \<times> ('c \<times> ('w, 'x) daemon_state)"
  sd_cron :: 'c
  sd_replace_all :: "'c \<Rightarrow> 'x cron_schedule list \<Rightarrow> cron_refusal option \<times> 'c"
  sd_workers_end :: "'c \<times> ('w, 'x) daemon_state \<Rightarrow> scheduler_error + unit"
  sd_rfc3339 :: "nat \<Rightarrow> string option"
  sd_error_text :: "command_error \<Rightarrow> string"

definition daemon_new :: "('w, 'x) process \<Rightarrow> ('w, 'x) daemon_state" where
  "daemon_new s = \<lparr>dm_process = s, dm_logged = {}, dm_log = []\<rparr>"

definition daemon_open ::
  "('w, 'b, 'x, 'r, 'o, 'q, 'p) host \<Rightarrow> string option \<Rightarrow> nat \<Rightarrow> (string \<times> nat) list \<Rightarrow>
   (('w, 'x) process, command_error, 'o cli_store \<times> ('w, 'b, 'x, 'r) env) io" where
  "daemon_open ho arg concurrency pools =
     io_bind (create_store ho arg) (\<lambda>st.
       io_bind (runtime_open ho st (daemon_pool_sizes concurrency pools)) (\<lambda>en. io_return (st, en)))"

definition daemon_command ::
  "('w, 'b, 'x, 'r, 'o, 'q, 'p) host \<Rightarrow> ('w, 'x, 'c) surroundings \<Rightarrow> string option \<Rightarrow> nat \<Rightarrow> (string \<times> nat) list \<Rightarrow> nat \<Rightarrow> nat \<Rightarrow>
   ('w, 'x) process \<Rightarrow> ((command_error + exit) \<times> ('w, 'x) process) option" where
  "daemon_command ho sd arg concurrency pools sync_interval retention s =
     (case daemon_open ho arg concurrency pools s of
       (Inl e, s1) \<Rightarrow> Some (Inl e, s1)
     | (Inr (st, en), s1) \<Rightarrow>
         map_option (\<lambda>(c, d).
             io_bind (runtime_close ho st) (\<lambda>u.
               io_bind (io_map_error CommandScheduler (io_of_sum (sd_workers_end sd (c, d)))) (\<lambda>u. io_return ([], 0))) (dm_process d))
           (daemon_run en (sd_replace_all sd)
             (default_daemon_options\<lparr>dop_sync_interval := 1000 * sync_interval, dop_retention := 1000 * retention\<rparr>)
             (sd_daemon_tick sd) (sd_cron sd, daemon_new s1)))"

subsection \<open>The dispatch\<close>

definition run_cli ::
  "('w, 'b, 'x, 'r, 'o, queue_stats, 'p) host \<Rightarrow> ('w, 'x, 'c) surroundings \<Rightarrow> cli_command \<Rightarrow> ('w, 'x) process \<Rightarrow>
   ((command_error + exit) \<times> ('w, 'x) process) option" where
  "run_cli ho sd cmd s =
     (case cmd of
       ValidateCommand file \<Rightarrow> Some (map_sum id (\<lambda>out. (out, 0)) (validate (ho_read_file ho) (ho_env ho) file), s)
     | RunCommand file arg given concurrency \<Rightarrow> run_command ho (sd_tick sd) file arg given concurrency s
     | PublishCommand file arg \<Rightarrow> Some (publish_file ho file arg s)
     | DaemonCommand arg concurrency pools sync_interval retention \<Rightarrow>
         daemon_command ho sd arg concurrency pools sync_interval retention s
     | StartCommand graph ps arg wait \<Rightarrow> send_request ho (sd_tick sd) (StartRequest graph ps) arg wait s
     | RerunCommand graph p node arg wait \<Rightarrow> send_request ho (sd_tick sd) (RerunRequest graph p node) arg wait s
     | CancelCommand graph p arg wait \<Rightarrow> send_request ho (sd_tick sd) (CancelRequest graph p) arg wait s
     | StatusCommand graph at arg from limit \<Rightarrow> Some (status_command ho (sd_rfc3339 sd) arg graph at from limit s)
     | QueuesCommand queue arg limit \<Rightarrow> Some (queues_command ho (sd_rfc3339 sd) arg queue limit s))"

text \<open>The text on stdout, the lines on stderr and the exit code.\<close>

definition cli_main ::
  "('w, 'b, 'x, 'r, 'o, queue_stats, 'p) host \<Rightarrow> ('w, 'x, 'c) surroundings \<Rightarrow> cli_command \<Rightarrow> ('w, 'x) process \<Rightarrow>
   ((string \<times> string list \<times> nat) \<times> ('w, 'x) process) option" where
  "cli_main ho sd cmd s =
     map_option (\<lambda>(r, s'). (case r of
         Inr (out, code) \<Rightarrow> (out, [], code)
       | Inl e \<Rightarrow> ([], error_lines (sd_error_text sd) e, 1), s'))
       (run_cli ho sd cmd s)"

end
