(* ===== verification/Command_Correct.thy ===== *)
theory Command_Correct
  imports Command_Main Core_Properties "HOL-Library.Sublist"
begin

section \<open>The end of a command\<close>

text \<open>
  What a process that sent a request and waited for it reports, and what a process that fails reports. \<open>fails_in\<close>
  is the property of a program that all its errors are of a kind.
\<close>

subsection \<open>A request that is waited for\<close>

lemma request_wait_Inr:
  assumes "request_wait ho tick i st s = Some (Inr x, s')"
  obtains s2 e s3 where "wait_request (status_request (store_env ho st) (ho_views ho st) i) tick i s2 = Some (Inr e, s3)"
    and "host_io (ho_close_reader ho st) s3 = (Inr (), s')" and "wait_outcome i e = Inr x"
proof -
  obtain s2 where opened: "host_io (ho_open_reader ho st) s = (Inr (), s2)"
    using assms by (cases "host_io (ho_open_reader ho st) s") (auto simp: request_wait_def split: sum.splits)
  then obtain r s3 where waited: "wait_request (status_request (store_env ho st) (ho_views ho st) i) tick i s2 = Some (r, s3)"
    and rest: "(case r of Inl e \<Rightarrow> (Inl (CommandStatus e), s3)
      | Inr e \<Rightarrow> io_bind (host_io (ho_close_reader ho st)) (\<lambda>u. io_of_sum (wait_outcome i e)) s3) = (Inr x, s')"
    using assms by (auto simp: request_wait_def)
  show thesis using rest waited by (cases r) (auto simp: io_bind_Inr io_of_sum_result intro: that)
qed

text \<open>C14. A command that waits for its request and is not interrupted succeeds exactly with the outcome in the
  store: the record of the request, under the id that was generated for it, is there at the end, it is not a refusal, and
  the command prints its outcome, whatever the daemon and the other workers did in between.\<close>

theorem request_command_exit:
  assumes "host_ok ho obs" and "send_request ho tick req arg True s = Some (Inr (out, code), s')"
    and "ho_request_id ho (st_world s) = (i, w)"
  shows "code = 130 \<and> out = [] \<or>
     code = 0 \<and> (\<exists>r. stored_request (ho_env ho) (obs (st_world s')) i = Some r \<and>
       (\<forall>reason. rr_outcome r \<noteq> RefusedOutcome reason) \<and> outcome_text i (rr_outcome r) = Inr out)"
proof -
  obtain st s1 where sent: "request_sent ho req arg s = (Inr (i, st), s1)" and wait: "request_wait ho tick i st s1 = Some (Inr (out, code), s')"
    using assms(2,3)
    by (auto simp: send_request_def request_sent_def io_bind_Inr world_io_result split: prod.splits sum.splits)
  from wait obtain s2 e s3 where waited: "wait_request (status_request (store_env ho st) (ho_views ho st) i) tick i s2 = Some (Inr e, s3)"
    and closed: "host_io (ho_close_reader ho st) s3 = (Inr (), s')" and e: "wait_outcome i e = Inr (out, code)"
    by (rule request_wait_Inr)
  have same: "obs (st_world s') = obs (st_world s3)" by (rule host_close(2) [OF assms(1) closed])
  show ?thesis
  proof (cases e)
    case (WaitRecord r)
    obtain s4 where "status_request (store_env ho st) (ho_views ho st) i s4 = (Inr (RequestApplied r), s3)"
      using wait_request_record [OF waited [unfolded WaitRecord]] by blast
    from request_applied_stored [OF host_stores(1) [OF assms(1)] this]
    show ?thesis using e same WaitRecord by (auto simp: wait_outcome_def outcome_text_def split: sum.splits)
  qed (use e in \<open>auto simp: wait_outcome_def interrupt_code_def\<close>)
qed

text \<open>The cancel of the example, that the daemon has applied.\<close>

lemma example_open_store: "open_store example_host (Some ''/tmp/store'') s = (Inr example_store, s)"
proof -
  have "\<not> contains_scheme ''/tmp/store''" by code_simp
  then show ?thesis
    by (simp add: open_store_def open_at_def open_location_def store_location_def store_path_def queue_path_name_def example_store_def
      example_host_def io_defs)
qed

lemma example_waits:
  "send_request example_host (\<lambda>s. (False, s)) example_request (Some ''/tmp/store'') True (command_process requested_memory) =
     Some (Inr (''request r1: cancelled'' @ new_line, 0), command_process requested_memory)"
proof -
  have host: "ho_request_id example_host w = (RequestId ''r1'', w)" "ho_inbox_send example_host st e w = (Inr (), w)"
    "ho_open_reader example_host st w = (Inr (), w)" "ho_close_reader example_host st w = (Inr (), w)" for st e w
    by (simp_all add: example_host_def io_return_def)
  have env: "store_env example_host example_store = example_env"
    by (simp add: example_host_env example_store_def) (simp add: example_env_def)
  have "read_record (memory_backend [''default''] 50) (dec_request stored_codecs) ''swale/requests/r1'' requested_memory =
      (Inr (Some example_request_record), requested_memory)"
    by (simp add: read_record_def parse_record_def io_defs requested_memory_def stored_codecs_def bt_get_def)
  then have "status_request example_env vw (RequestId ''r1'') (command_process requested_memory) =
      (Inr (RequestApplied example_request_record), command_process requested_memory)" for vw :: "(stored memory, stored, queue_stats) views"
    by (simp add: status_request_def Let_def status_read_def world_io_def io_lift_def command_process_def io_defs)
  then show ?thesis
    by (simp add: send_request_def request_sent_def request_wait_def example_open_store host env host_io_def world_io_def io_lift_def io_defs
      wait_request.simps wait_outcome_def outcome_text_def example_request_record_def request_text_def command_process_def)
qed

theorem request_command_exit_witness:
  "\<exists>r. stored_request example_env (memory_obs requested_memory) (RequestId ''r1'') = Some r \<and>
     outcome_text (RequestId ''r1'') (rr_outcome r) = Inr (''request r1: cancelled'' @ new_line)"
  using request_command_exit [OF example_host_ok example_waits, of "RequestId ''r1''"]
  by (auto simp: example_host_def command_process_def)

subsection \<open>A command that fails says why\<close>

text \<open>The errors that have a line on stderr: all but a rejection of a definition without a fault.\<close>

fun said :: "command_error \<Rightarrow> bool" where
  "said (CommandLoad (InvalidDefinition [])) \<longleftrightarrow> False"
| "said (CommandDefinition (DefinitionInvalid (InvalidDefinition []))) \<longleftrightarrow> False"
| "said e \<longleftrightarrow> True"

lemma said_lines: "said e \<longleftrightarrow> error_lines other e \<noteq> []"
  by (cases e rule: said.cases) (auto simp: error_lines_def split: load_error.split definition_error.split)

definition fails_in :: "('e \<Rightarrow> bool) \<Rightarrow> ('s, 'e, 'a) io \<Rightarrow> bool" where
  "fails_in E m \<longleftrightarrow> (\<forall>s e s'. m s = (Inl e, s') \<longrightarrow> E e)"

lemma fails_bind: "fails_in E m \<Longrightarrow> (\<And>a. fails_in E (f a)) \<Longrightarrow> fails_in E (io_bind m f)"
  by (fastforce simp: fails_in_def elim!: io_bind_cases)

lemma fails_return: "fails_in E (io_return a)" "fails_in E (io_try m)"
  by (auto simp: fails_in_def io_return_def io_try_def split: prod.splits)

lemma fails_fail: "E e \<Longrightarrow> fails_in E (io_fail e)"
  by (simp add: fails_in_def io_fail_def)

lemma fails_of_sum: "(\<And>e. r = Inl e \<Longrightarrow> E e) \<Longrightarrow> fails_in E (io_of_sum r)"
  by (auto simp: fails_in_def io_of_sum_def)

lemma fails_map_error: "fails_in (\<lambda>e. E (f e)) m \<Longrightarrow> fails_in E (io_map_error f m)"
  by (fastforce simp: fails_in_def io_map_error_Inl)

lemma fails_fold: "(\<And>a b. fails_in E (f a b)) \<Longrightarrow> fails_in E (io_fold f as b)"
  by (induction as arbitrary: b) (auto intro: fails_bind fails_return)

lemma fails_any: "(\<And>e. E e) \<Longrightarrow> fails_in E m"
  by (simp add: fails_in_def)

abbreviation says :: "('s, command_error, 'a) io \<Rightarrow> bool" where
  "says \<equiv> fails_in said"

abbreviation says_definition :: "('s, definition_error, 'a) io \<Rightarrow> bool" where
  "says_definition \<equiv> fails_in (\<lambda>e. said (CommandDefinition e))"

lemma env_load_said:
  assumes "env_load en t = Inl e"
  shows "said (CommandLoad e)" and "said (CommandDefinition (DefinitionInvalid e))"
proof -
  have "e \<noteq> InvalidDefinition []"
  proof
    assume e: "e = InvalidDefinition []"
    then obtain f where "the (build (en_utc en) (en_cron en) (en_operators en) (file_spec f)) = Inl []"
      using assms by (auto simp: env_load_def load_str_def split: sum.splits if_splits)
    then show False using build_returns [of "en_utc en" "en_cron en" "en_operators en" "file_spec f"] by auto
  qed
  then show "said (CommandLoad e)" "said (CommandDefinition (DefinitionInvalid e))"
    by (cases e; cases "\<exists>ps. e = InvalidDefinition ps"; auto simp: neq_Nil_conv)+
qed

lemma says_load:
  "says_definition (io_map_error DefinitionInvalid (io_of_sum (env_load en t)))"
  "says (io_map_error CommandLoad (io_of_sum (env_load en t)))"
  by (auto intro!: fails_map_error fails_of_sum env_load_said)

lemma says_calls:
  "says_definition (io_map_error DefinitionObjectStore m)" "says_definition (cached_graph hash)" "says_definition (cache_graph hash g)"
  by (auto simp: fails_in_def cached_graph_def cache_graph_def io_map_error_Inl split: option.splits)

text \<open>The errors of the libraries and of the reads.\<close>

lemma says_other:
  "says (host_io m1)" "says (io_map_error CommandText m2)" "says (io_map_error CommandStatus m3)"
  "says (io_map_error CommandScheduler m4)" "says (command_read m5)" "says (open_at ho location)"
  by (auto simp: fails_in_def host_io_def command_read_def io_map_error_Inl open_at_def split: sum.splits)

lemmas says_intros = fails_bind fails_return fails_fail fails_fold says_load says_calls says_other

lemma says_text: "says_definition (read_text en path)"
  unfolding read_text_def by (auto intro!: says_intros split: option.split)

lemma says_get: "says_definition (definition_get en hash)"
  unfolding definition_get_def Let_def by (auto intro!: says_intros says_text split: option.split)

lemma says_current: "says_definition (definition_current en)"
  unfolding definition_current_def by (auto intro!: says_intros says_text split: option.split)

lemma says_write: "says_definition (definition_write en t g)"
  unfolding definition_write_def Let_def by (auto intro!: says_intros)

lemma says_publish: "says_definition (definition_publish en t)"
  unfolding definition_publish_def check_conflicts_def Let_def
  by (auto intro!: says_intros says_get says_current says_write split: option.split)

lemma says_store: "says (create_store ho arg)" "says (open_store ho arg)"
  unfolding create_store_def open_store_def by (auto intro!: says_intros)

lemma says_runtime: "says (runtime_open ho st sizes)" "says (runtime_close ho st)"
  unfolding runtime_open_def runtime_close_def by (auto intro!: says_intros split: option.split)

lemma says_run_open: "says (run_open ho file arg given concurrency)"
  unfolding run_open_def definition_put_def
  by (auto intro!: says_intros says_store says_runtime says_write intro: fails_map_error)

lemma says_publish_file: "says (publish_file ho file arg)"
  unfolding publish_file_def publish_command_def
  by (auto intro!: says_intros says_store says_publish intro: fails_map_error)

lemma says_daemon_open: "says (daemon_open ho arg concurrency pools)"
  unfolding daemon_open_def by (auto intro!: says_intros says_store says_runtime)

lemma says_watch: "says (watch_run en g p watched)"
  unfolding watch_run_def watch_node_def by (auto intro!: says_intros split: option.split)

lemma says_sent: "says (request_sent ho req arg)"
  unfolding request_sent_def by (auto intro!: says_intros says_store) (auto simp: fails_in_def world_io_def io_lift_def split: prod.splits)

lemma says_print: "says (print_status en vw rfc3339 graph at from limit)" "says (print_queues vw' rfc3339 queue limit)"
  unfolding print_status_def print_queues_def by (auto intro!: says_intros split: option.split)

text \<open>How a command may end: with an error that is said, or with a code; the code 1 comes with a text on stdout.\<close>

fun ended :: "command_error + exit \<Rightarrow> bool" where
  "ended (Inl e) \<longleftrightarrow> said e"
| "ended (Inr (out, code)) \<longleftrightarrow> code = 0 \<or> code = 130 \<or> code = 1 \<and> out \<noteq> []"

lemma ended_says: "says m \<Longrightarrow> m s = (Inl e, s') \<Longrightarrow> said e"
  by (auto simp: fails_in_def)

lemma says_status: "says (open_status ho arg)"
  unfolding open_status_def by (auto intro!: says_intros says_store)

lemma with_reader_ended:
  assumes "\<And>st. says (print st)" and "with_reader ho arg print s = (r, s')"
  shows "ended r"
proof (cases r)
  case (Inl e)
  from assms(2)[unfolded with_reader_def] show ?thesis
  proof (cases rule: io_bind_cases)
    case (error e)
    then show ?thesis using Inl by (auto intro: ended_says [OF says_status])
  next
    case (ok st s1)
    obtain result s2 where result: "print st s1 = (result, s2)" by fastforce
    have "says (io_bind (host_io (ho_close_reader ho st)) (\<lambda>u. io_bind (io_of_sum result) (\<lambda>out. io_return (out, 0 :: nat))))"
      using ended_says [OF assms(1)] result by (auto intro!: says_intros fails_of_sum)
    moreover have "io_bind (host_io (ho_close_reader ho st)) (\<lambda>u. io_bind (io_of_sum result) (\<lambda>out. io_return (out, 0 :: nat))) s2 = (Inl e, s')"
      using ok(2) result Inl by (simp add: io_bind_def io_try_def)
    ultimately show ?thesis using Inl by (auto intro: ended_says)
  qed
next
  case (Inr x)
  then show ?thesis using assms(2) by (auto simp: with_reader_def io_bind_Inr)
qed

lemma run_wait_ended:
  assumes "run_wait watch tick watched s = Some (Inl e, s')" and "\<And>watched. says (watch watched)"
  shows "said e"
proof -
  have "\<forall>e s'. y = (Inl e, s') \<longrightarrow> (\<exists>watched1 s1. watch watched1 s1 = (Inl e, s'))"
    if "run_wait watch tick watched s = Some y" for y
    by (rule run_wait.raw_induct [of "\<lambda>watch tick watched s y. \<forall>e s'. y = (Inl e, s') \<longrightarrow>
          (\<exists>watched1 s1. watch watched1 s1 = (Inl e, s'))", OF _ that])
      (auto split: prod.splits if_splits sum.splits)
  then show ?thesis using assms(1) by (auto intro: ended_says [OF assms(2)])
qed

lemma run_exit_ended: "ended (Inr (run_exit g p x))"
  by (auto simp: run_exit_def interrupt_code_def split: prod.split option.split)

lemma run_command_ended:
  assumes "run_command ho tick file arg given concurrency s = Some (r, s')"
  shows "ended r"
proof (cases "run_open ho file arg given concurrency s")
  case (Pair opened s1)
  show ?thesis
  proof (cases opened)
    case (Inl e)
    then show ?thesis using assms Pair by (auto simp: run_command_def intro: ended_says [OF says_run_open])
  next
    case (Inr x)
    obtain st en hash g p where x: "x = (st, en, hash, g, p)" by (cases x)
    obtain started s2 where started: "io_map_error CommandScheduler (start_run en hash p) s1 = (started, s2)" by fastforce
    show ?thesis
    proof (cases started)
      case (Inl e)
      then show ?thesis using assms Pair Inr x started by (auto simp: run_command_def intro: ended_says [OF says_other(4)])
    next
      case outcome: (Inr outcome)
      obtain w s3 where wait: "run_wait (watch_run en g p) tick ([], started_text g p outcome) s2 = Some (w, s3)"
        and rest: "(case w of Inl e \<Rightarrow> (Inl e, s3) | Inr x \<Rightarrow> io_bind (runtime_close ho st) (\<lambda>u. io_return (run_exit g p x)) s3) = (r, s')"
        using assms Pair Inr x started outcome by (auto simp: run_command_def)
      show ?thesis
      proof (cases w)
        case (Inl e)
        then show ?thesis using run_wait_ended [OF _ says_watch] wait rest by auto
      next
        case settled: (Inr x)
        have "says (io_bind (runtime_close ho st) (\<lambda>u. io_return (run_exit g p x)))" by (auto intro!: says_intros says_runtime)
        then show ?thesis
          using rest settled run_exit_ended [of g p x] by (cases r) (auto simp: io_bind_Inr intro: ended_says)
      qed
    qed
  qed
qed

lemma request_ended:
  assumes "send_request ho tick req arg wait s = Some (r, s')"
  shows "ended r"
proof (cases "request_sent ho req arg s")
  case (Pair sent s1)
  show ?thesis
  proof (cases sent)
    case (Inl e)
    then show ?thesis using assms Pair by (auto simp: send_request_def intro: ended_says [OF says_sent])
  next
    case (Inr x)
    obtain i st where x: "x = (i, st)" by fastforce
    have outcome: "ended (wait_outcome i e)" for e
      by (auto simp: wait_outcome_def outcome_text_def interrupt_code_def split: wait_end.split request_outcome.split)
    have close: "says (io_bind (host_io (ho_close_reader ho st)) (\<lambda>u. io_of_sum (wait_outcome i e)))" for e
      using outcome [of e] by (auto intro!: says_intros fails_of_sum)
    have waited: "ended r" if waited: "request_wait ho tick i st s1 = Some (r, s')"
    proof (cases "host_io (ho_open_reader ho st) s1")
      case opened: (Pair u s2)
      show ?thesis
      proof (cases u)
        case (Inl e)
        then show ?thesis using waited opened by (auto simp: request_wait_def intro: ended_says [OF says_other(1)])
      next
        case (Inr u)
        then obtain w s3 where
          "(case w of Inl e \<Rightarrow> (Inl (CommandStatus e), s3)
            | Inr e \<Rightarrow> io_bind (host_io (ho_close_reader ho st)) (\<lambda>u. io_of_sum (wait_outcome i e)) s3) = (r, s')"
          using waited opened by (auto simp: request_wait_def)
        then show ?thesis
          using outcome close by (cases w; cases r) (auto simp: io_bind_Inr io_of_sum_result intro: ended_says)
      qed
    qed
    then show ?thesis using assms Pair Inr x by (auto simp: send_request_def split: if_splits)
  qed
qed

lemma daemon_ended:
  assumes "daemon_command ho sd arg concurrency pools sync_interval retention s = Some (r, s')"
  shows "ended r"
proof (cases "daemon_open ho arg concurrency pools s")
  case (Pair opened s1)
  show ?thesis
  proof (cases opened)
    case (Inl e)
    then show ?thesis using assms Pair by (auto simp: daemon_command_def intro: ended_says [OF says_daemon_open])
  next
    case (Inr x)
    obtain st en where x: "x = (st, en)" by fastforce
    then obtain c d where
      "io_bind (runtime_close ho st) (\<lambda>u. io_bind (io_map_error CommandScheduler (io_of_sum (sd_workers_end sd (c, d))))
        (\<lambda>u. io_return ([], 0))) (dm_process d) = (r, s')"
      using assms Pair Inr by (auto simp: daemon_command_def)
    moreover have "says (io_bind (runtime_close ho st) (\<lambda>u. io_bind (io_map_error CommandScheduler (io_of_sum (sd_workers_end sd (c, d))))
        (\<lambda>u. io_return ([] :: string, 0 :: nat))))"
      by (auto intro!: says_intros says_runtime)
    ultimately show ?thesis by (cases r) (auto simp: io_bind_Inr intro: ended_says)
  qed
qed

lemma run_cli_ended:
  assumes "run_cli ho sd cmd s = Some (r, s')"
  shows "ended r"
proof (cases cmd)
  case (ValidateCommand path)
  then show ?thesis
    using assms env_load_said(1) [of "ho_env ho"]
    by (cases r) (auto simp: run_cli_def validate_def load_path_def env_load_def split: sum.splits)
next
  case (PublishCommand path arg)
  then have m: "publish_file ho path arg s = (r, s')" using assms by (simp add: run_cli_def)
  show ?thesis
  proof (cases r)
    case (Inl e)
    then show ?thesis using m by (auto intro: ended_says [OF says_publish_file])
  next
    case (Inr x)
    then show ?thesis using m by (auto simp: publish_file_def io_bind_Inr)
  qed
next
  case (RunCommand path arg given concurrency)
  then show ?thesis using assms run_command_ended by (simp add: run_cli_def)
next
  case (DaemonCommand arg concurrency pools sync_interval retention)
  then show ?thesis using assms daemon_ended by (simp add: run_cli_def)
next
  case (StatusCommand graph p arg lower limit)
  then show ?thesis using assms with_reader_ended [OF says_print(1)] by (auto simp: run_cli_def status_command_def)
next
  case (QueuesCommand queue arg limit)
  then show ?thesis using assms with_reader_ended [OF says_print(2)] by (auto simp: run_cli_def queues_command_def)
qed (use assms request_ended in \<open>auto simp: run_cli_def\<close>)


definition example_surroundings :: "(stored memory, nat, unit) surroundings" where
  "example_surroundings =
     \<lparr>sd_tick = (\<lambda>s. (True, s)), sd_daemon_tick = (\<lambda>s. (True, s)), sd_cron = (), sd_replace_all = (\<lambda>c xs. (None, c)),
      sd_workers_end = (\<lambda>s. Inr ()), sd_rfc3339 = (\<lambda>t. None), sd_error_text = (\<lambda>e. ''failed'')\<rparr>"


end
