(* ===== verification/Run_Steps.thy ===== *)
theory Run_Steps
  imports Graph_Keys System Scheduler_Outcomes Scheduler_Properties "HOL-Library.Multiset"
begin

section \<open>The steps of one graph run\<close>

text \<open>
  The terminal hook, the readiness rule and the scheduler close a loop: the termination of a run stages
  its record and an event, and the event submits the runs below it. A state of this loop is the process,
  the events of the graph run that wait in the queue and the ids of its runs that have terminated. In a
  step of it a submitted run terminates, an event is handled (and may be delivered again, when its handling
  fails or is not acknowledged), the reconciler visits the run, with an entry that it may have read
  earlier, a cancel arrives, or another part of the program writes what is not of this graph run.
  The steps that bring the run further are marked. Left out are a rerun, the expiry of the run, a hook whose
  staging the store refuses and an event whose failure is permanent.
\<close>

record ('w, 'x) run_world =
  rw_process :: "('w, 'x) process"
  rw_events :: "event multiset"
  rw_ended :: "string set"

text \<open>The hash of the run's definition names one graph.\<close>

definition hash_names :: "('w, 'b, 'x, 'r) env \<Rightarrow> string \<Rightarrow> 'x graph \<Rightarrow> bool" where
  "hash_names en h g \<longleftrightarrow>
     (\<exists>t. env_hash en t = h \<and> env_load en t = Inr g) \<and>
     (\<forall>t g'. env_hash en t = h \<longrightarrow> env_load en t = Inr g' \<longrightarrow> g' = g)"

text \<open>What the hook has staged, as writes of the store and events of the queue.\<close>

definition hook_effects :: "('w, 'b, 'x, 'r) env \<Rightarrow> staged \<Rightarrow> 'b effect list" where
  "hook_effects en stg = map (\<lambda>(k, r). PutEffect k (enc_node (en_codecs en) r)) (stg_puts stg)"

definition hook_events :: "staged \<Rightarrow> event multiset" where
  "hook_events stg = mset (map (\<lambda>(q, ev, k). ev) (stg_events stg))"

text \<open>The id of a run is one of the graph run.\<close>

definition run_of :: "'x graph \<Rightarrow> partition \<Rightarrow> node \<Rightarrow> u32 \<Rightarrow> string \<Rightarrow> bool" where
  "run_of g p n k rid \<longleftrightarrow> n \<in> set (gr_nodes g) \<and> rid = run_id (gr_name g) p (node_name n) k"

text \<open>A write of another part of the program: the records of the graph run stay, and no run of it is submitted.\<close>

definition same_run_keys :: "'x graph \<Rightarrow> partition \<Rightarrow> 'b obs \<Rightarrow> 'b obs \<Rightarrow> bool" where
  "same_run_keys g p o1 o2 \<longleftrightarrow>
     (\<forall>n \<in> set (gr_nodes g). ob_kv o2 (node_record_key (gr_name g) p n) = ob_kv o1 (node_record_key (gr_name g) p n))"

definition other_write :: "'x graph \<Rightarrow> partition \<Rightarrow> 'b obs \<Rightarrow> 'b obs \<Rightarrow> bool" where
  "other_write g p o1 o2 \<longleftrightarrow>
     same_run_keys g p o1 o2 \<and> ob_kv o2 (graph_run_key (gr_name g) p) = ob_kv o1 (graph_run_key (gr_name g) p) \<and>
     (\<exists>specs. ob_submits o2 = ob_submits o1 @ specs \<and> (\<forall>(pool, spec) \<in> set specs. \<forall>n k. \<not> run_of g p n k (rs_run_id spec)))"

inductive run_step ::
  "('w, 'b, 'x, 'r) env \<Rightarrow> ('w \<Rightarrow> 'b obs) \<Rightarrow> hook_env \<Rightarrow> 'x graph \<Rightarrow> string \<Rightarrow> partition \<Rightarrow>
   bool \<Rightarrow> ('w, 'x) run_world \<Rightarrow> ('w, 'x) run_world \<Rightarrow> bool"
  for en obs hk g h p where
  run_terminates:
    "(pool, spec) \<in> set (ob_submits (obs (st_world (rw_process c)))) \<Longrightarrow> run_of g p n k (rs_run_id spec) \<Longrightarrow>
     rs_run_id spec \<notin> rw_ended c \<Longrightarrow> oc_run_id outcome = rs_run_id spec \<Longrightarrow> oc_headers outcome = rs_headers spec \<Longrightarrow>
     staged = stage_effects hk now outcome \<Longrightarrow> stg_puts staged \<noteq> [] \<Longrightarrow> stg_events staged \<noteq> [] \<Longrightarrow>
     obs w = apply_effects (hook_effects en staged) (obs (st_world (rw_process c))) \<Longrightarrow>
     run_step en obs hk g h p True c
       (c\<lparr>rw_process := (rw_process c)\<lparr>st_world := w\<rparr>, rw_events := rw_events c + hook_events staged,
          rw_ended := insert (rs_run_id spec) (rw_ended c)\<rparr>)"
| run_event:
    "ev \<in># rw_events c \<Longrightarrow> dec_event (en_codecs en) (job_payload job) = Inr ev \<Longrightarrow>
     process_event en job (rw_process c) = (Inr (), s') \<Longrightarrow>
     run_step en obs hk g h p True c (c\<lparr>rw_process := s', rw_events := rw_events c - {#ev#}\<rparr>)"
| run_event_again:
    "ev \<in># rw_events c \<Longrightarrow> dec_event (en_codecs en) (job_payload job) = Inr ev \<Longrightarrow>
     process_event en job (rw_process c) = (r, s') \<Longrightarrow>
     run_step en obs hk g h p False c (c\<lparr>rw_process := s'\<rparr>)"
| run_reconciled:
    "dec_run (en_codecs en) bs = Inr run \<Longrightarrow> run_definition run = h \<Longrightarrow> run_expected_reruns run = [] \<Longrightarrow>
     reconcile_entry en (graph_run_key (gr_name g) p, bs, run) report (rw_process c) = (r', s') \<Longrightarrow>
     run_step en obs hk g h p False c (c\<lparr>rw_process := s'\<rparr>)"
| run_cancel:
    "cancel_run en (gr_name g) p (rw_process c) = (r'', s') \<Longrightarrow>
     run_step en obs hk g h p False c (c\<lparr>rw_process := s'\<rparr>)"
| run_other:
    "other_write g p (obs (st_world (rw_process c))) (obs (st_world s')) \<Longrightarrow> cache_ok en s' \<Longrightarrow>
     run_step en obs hk g h p False c (c\<lparr>rw_process := s'\<rparr>)"

inductive_cases run_stepE: "run_step en obs hk g h p b c c'"

text \<open>A sequence of steps, with the number of the marked ones.\<close>

inductive run_steps ::
  "('w, 'b, 'x, 'r) env \<Rightarrow> ('w \<Rightarrow> 'b obs) \<Rightarrow> hook_env \<Rightarrow> 'x graph \<Rightarrow> string \<Rightarrow> partition \<Rightarrow>
   nat \<Rightarrow> ('w, 'x) run_world \<Rightarrow> ('w, 'x) run_world \<Rightarrow> bool"
  for en obs hk g h p where
  steps_none: "run_steps en obs hk g h p 0 c c"
| steps_idle: "run_steps en obs hk g h p k c c' \<Longrightarrow> run_step en obs hk g h p False c' c'' \<Longrightarrow> run_steps en obs hk g h p k c c''"
| steps_more: "run_steps en obs hk g h p k c c' \<Longrightarrow> run_step en obs hk g h p True c' c'' \<Longrightarrow> run_steps en obs hk g h p (Suc k) c c''"

text \<open>The store has nothing of the graph run: no record of its nodes and no submitted run.\<close>

definition fresh_run :: "'b obs \<Rightarrow> 'x graph \<Rightarrow> partition \<Rightarrow> bool" where
  "fresh_run o1 g p \<longleftrightarrow>
     (\<forall>n \<in> set (gr_nodes g). ob_kv o1 (node_record_key (gr_name g) p n) = None) \<and>
     (\<forall>(pool, spec) \<in> set (ob_submits o1). \<forall>n k. \<not> run_of g p n k (rs_run_id spec))"

subsection \<open>Every operation keeps the cache\<close>

definition cache_kept :: "('w, 'b, 'x, 'r) env \<Rightarrow> ('w, 'x) process \<Rightarrow> ('w, 'x) process \<Rightarrow> bool" where
  "cache_kept en s s' \<longleftrightarrow>
     (cache_ok en s \<longrightarrow> cache_ok en s') \<and> (\<forall>hash g. st_graphs s hash = Some g \<longrightarrow> st_graphs s' hash = Some g)"

interpretation cache_kept: io_preorder "cache_kept en" for en
  by standard (auto simp: cache_kept_def)

lemma cache_kept_world: "io_keeps (cache_kept en) (world_io m)"
  by (auto simp: io_keeps_def cache_kept_def world_io_result)

lemma cache_kept_calls:
  "io_keeps (cache_kept en) (queue_io m)" "io_keeps (cache_kept en) (read_io m')" "io_keeps (cache_kept en) (workflow_io m'')"
  "io_keeps (cache_kept en) (clock_io en)" "io_keeps (cache_kept en) (panics v)"
  unfolding queue_io_def read_io_def workflow_io_def panics_def
  by (auto intro!: cache_kept.keeps_intros cache_kept_world) (auto simp: io_keeps_def cache_kept_def clock_io_result)

lemma cache_kept_get: "io_keeps (cache_kept en) (definition_get en hash)"
proof -
  have "io_keeps (cache_kept en) (io_bind (io_map_error DefinitionInvalid (io_of_sum (env_load en t)))
      (\<lambda>g. io_bind (cache_graph hash g) (\<lambda>g'. io_return (Some g'))))" if "env_hash en t = hash" for t
    using that by (auto simp: io_keeps_def cache_kept_def io_map_error_result cache_graph_def cache_ok_def
      elim!: io_bind_cases split: option.splits sum.splits if_splits)
  moreover have "io_keeps (cache_kept en) (cached_graph hash)" by (auto simp: io_keeps_def cache_kept_def cached_graph_def)
  moreover have "io_keeps (cache_kept en) (read_text en path)" for path
    unfolding read_text_def by (auto intro!: cache_kept.keeps_intros cache_kept_world split: option.split)
  ultimately show ?thesis
    unfolding definition_get_def by (auto intro!: cache_kept.keeps_intros split: option.split)
qed

lemmas cache_kept_intros = cache_kept.keeps_intros cache_kept_calls cache_kept_get

lemma cache_kept_submit: "io_keeps (cache_kept en) (submit_node en n i ups effects)"
  unfolding submit_node_def by (auto intro!: cache_kept_intros simp: Let_def)

lemma cache_kept_records: "io_keeps (cache_kept en) (read_node_records en g p)"
  unfolding read_node_records_def read_node_record_def by (auto intro!: cache_kept_intros)

lemma cache_kept_any_active: "io_keeps (cache_kept en) (any_active en g p run records ns)"
proof (induction ns)
  case (Cons n ns)
  have "io_keeps (cache_kept en) (run_is_active en n rid)" for rid
    unfolding run_is_active_def by (auto intro!: cache_kept_intros)
  then show ?case using Cons by (auto intro!: cache_kept_intros split: option.split)
qed (auto intro!: cache_kept_intros)

lemma cache_kept_commit: "io_keeps (cache_kept en) (commit_settled en name p bs settled)"
  unfolding commit_settled_def by (auto intro!: cache_kept_intros)

lemma cache_kept_advance: "io_keeps (cache_kept en) (advance en g p run bs ns)"
  unfolding advance_def settle_def submit_candidate_def
  by (auto intro!: cache_kept_intros cache_kept_records cache_kept_any_active cache_kept_commit cache_kept_submit split: option.split)

lemma cache_kept_graph: "io_keeps (cache_kept en) (scheduler_graph en hash)"
  unfolding scheduler_graph_def by (auto intro!: cache_kept_intros split: option.split)

lemma cache_kept_run: "io_keeps (cache_kept en) (graph_run en key)"
  unfolding graph_run_def by (auto intro!: cache_kept_intros split: option.split)

lemma cache_kept_event: "io_keeps (cache_kept en) (handle_event en ev)"
  unfolding handle_event_def
  by (auto intro!: cache_kept_intros cache_kept_run cache_kept_graph cache_kept_advance split: option.split)

lemma cache_kept_cancel_active: "io_keeps (cache_kept en) (cancel_active_runs en g p run)"
  unfolding cancel_active_runs_def cancel_node_def Let_def
  by (auto intro!: cache_kept_intros cache_kept_records split: option.split)

lemma cache_kept_cancel: "io_keeps (cache_kept en) (cancel_run en name p)"
  unfolding cancel_run_def
  by (auto intro!: cache_kept_intros cache_kept_run cache_kept_graph cache_kept_commit cache_kept_cancel_active split: option.split)

lemma cache_kept_start: "io_keeps (cache_kept en) (start_run en hash p)"
  unfolding start_run_def by (auto intro!: cache_kept_intros cache_kept_graph cache_kept_submit)

lemma cache_kept_entry: "io_keeps (cache_kept en) (reconcile_entry en e report)"
  unfolding reconcile_entry_def Let_def
  by (auto intro!: cache_kept_intros cache_kept_advance cache_kept_cancel_active split: option.split sum.split graph_run_state.split prod.split)

end
