(* ===== verification/Run_Invariant.thy ===== *)
theory Run_Invariant
  imports Run_Steps
begin

section \<open>An active graph run is never stuck\<close>

text \<open>
  The invariant of the steps of a graph run that has not been rerun. The records of the nodes are those of
  the terminated runs. While the run is active, a node that is ready has its run submitted or waits for an event
  of a node above it, and when no event waits then a submitted run has no record.
\<close>

subsection \<open>Readiness without reruns\<close>

lemma is_current_first [simp]: "run_expected_reruns run = [] \<Longrightarrow> is_current run name r"
  by (simp add: is_current_def)

lemma current_records_first [simp]: "run_expected_reruns run = [] \<Longrightarrow> current_records run records = records"
  by (simp add: current_records_def)

lemma ready_first:
  assumes "wf_graph g" and "n \<in> set (gr_nodes g)" and "run_expected_reruns run = []"
  shows "ready_now en o1 g p run n \<longleftrightarrow> stored_record en o1 g p n = None \<and> is_ready n (stored_records en o1 g p)"
  using assms by (simp add: ready_now_def stored_records_get)

lemma stored_record_kv:
  "ob_kv o2 (node_record_key (gr_name g) p n) = ob_kv o1 (node_record_key (gr_name g) p n) \<Longrightarrow>
     stored_record en o2 g p n = stored_record en o1 g p n"
  by (simp add: stored_record_def)

lemma same_run_keys_refl [simp]: "same_run_keys g p o1 o1"
  by (simp add: same_run_keys_def)

lemma same_keys_record:
  "same_run_keys g p o1 o2 \<Longrightarrow> n \<in> set (gr_nodes g) \<Longrightarrow> stored_record en o2 g p n = stored_record en o1 g p n"
  by (rule stored_record_kv) (simp add: same_run_keys_def)

text \<open>The readiness of a node depends on the records of the nodes above it.\<close>

lemma recorded_stored:
  assumes "wf_graph g" and "n \<in> set (gr_nodes g)"
  shows "recorded_status (stored_records en o1 g p) (node_name n) = map_option rec_status (stored_record en o1 g p n)"
  using assms by (simp add: recorded_status_def stored_records_get)

lemma is_ready_stored:
  assumes g: "wf_graph g" and n: "n \<in> set (gr_nodes g)"
    and same: "\<And>m. m \<in> set (gr_nodes g) \<Longrightarrow> node_name m \<in> set (nd_upstreams n) \<Longrightarrow>
        stored_record en o2 g p m = stored_record en o1 g p m"
  shows "is_ready n (stored_records en o2 g p) \<longleftrightarrow> is_ready n (stored_records en o1 g p)"
proof -
  have "recorded_status (stored_records en o2 g p) u = recorded_status (stored_records en o1 g p) u"
    if u: "u \<in> set (nd_upstreams n)" for u
  proof -
    obtain m where m: "m \<in> set (gr_nodes g)" "node_name m = u" by (rule upstream_node [OF g n u])
    then show ?thesis using recorded_stored [OF g m(1), of en _ p] same [OF m(1)] u by simp
  qed
  then show ?thesis
    by (auto simp: is_ready_def list_all_iff list_ex_iff split: trigger_rule.split)
qed

lemma ready_same_keys:
  assumes "wf_graph g" and "n \<in> set (gr_nodes g)" and "run_expected_reruns run = []" and "same_run_keys g p o1 o2"
  shows "ready_now en o2 g p run n \<longleftrightarrow> ready_now en o1 g p run n"
  using assms is_ready_stored [OF assms(1,2), of en o2 p o1] by (simp add: ready_first same_keys_record)

text \<open>A node without upstreams is ready at first, and no other node is.\<close>

lemma ready_fresh:
  assumes g: "wf_graph g" and n: "n \<in> set (gr_nodes g)" and "\<And>m. m \<in> set (gr_nodes g) \<Longrightarrow> stored_record en o1 g p m = None"
    and "ready_now en o1 g p run n"
  shows "nd_upstreams n = []"
proof (rule ccontr)
  assume "nd_upstreams n \<noteq> []"
  have none: "bt_get (current_records run (stored_records en o1 g p)) u = None" if u: "u \<in> set (nd_upstreams n)" for u
  proof -
    obtain m where m: "m \<in> set (gr_nodes g)" "node_name m = u" by (rule upstream_node [OF g n u])
    then have "bt_get (stored_records en o1 g p) u = None"
      using assms(3) [OF m(1)] stored_records_get [OF g m(1), of en o1 p] by simp
    then show ?thesis by (simp add: current_records_get [OF stored_records_wf])
  qed
  obtain u us where "nd_upstreams n = u # us" using \<open>nd_upstreams n \<noteq> []\<close> by (cases "nd_upstreams n") auto
  then show False
    using assms(4) none
    by (auto simp: ready_now_def Let_def is_ready_def recorded_status_def list_ex_iff split: trigger_rule.splits)
qed

subsection \<open>The specs of the graph run\<close>

text \<open>What the scheduler submits for a ready node of a run without reruns.\<close>

definition first_spec :: "'x graph \<Rightarrow> string \<Rightarrow> partition \<Rightarrow> node \<Rightarrow> 'b run_spec \<Rightarrow> bool" where
  "first_spec g h p n spec \<longleftrightarrow>
     rs_run_id spec = run_id (gr_name g) p (node_name n) 0 \<and> rs_headers spec = headers (identity g h p n 0)"

lemma first_spec_submit: "first_spec g h p n (submit_spec en n (identity g h p n 0) ups es)"
  by (simp add: first_spec_def submit_spec_def identity_run_id_def identity_def)

lemma ready_spec_first:
  assumes "wf_graph g" and "n \<in> set (gr_nodes g)" and "stored_record en o1 g p n = None"
  shows "first_spec g (run_definition run) p n (ready_spec en o1 g p run n)"
  using assms first_spec_submit by (simp add: ready_spec_def Let_def next_rerun_def stored_records_get)

text \<open>The submits of a state: every run of the graph run is a first run of its node.\<close>

definition submits_inv :: "'x graph \<Rightarrow> string \<Rightarrow> partition \<Rightarrow> (string \<times> 'b run_spec) list \<Rightarrow> bool" where
  "submits_inv g h p specs \<longleftrightarrow>
     (\<forall>(pool, spec) \<in> set specs. \<forall>n k. run_of g p n k (rs_run_id spec) \<longrightarrow> k = 0 \<and> first_spec g h p n spec)"

lemma submits_inv_append [simp]:
  "submits_inv g h p (xs @ ys) \<longleftrightarrow> submits_inv g h p xs \<and> submits_inv g h p ys"
  unfolding submits_inv_def set_append ball_Un by (rule refl)

lemma submits_inv_other:
  "(\<forall>(pool, spec) \<in> set specs. \<forall>n k. \<not> run_of g p n k (rs_run_id spec)) \<Longrightarrow> submits_inv g h p specs"
  by (auto simp: submits_inv_def)

lemma submits_inv_first:
  assumes "wf_graph g" and "named_graph g" and "partition_ok p"
    and "\<And>pool spec. (pool, spec) \<in> set specs \<Longrightarrow> \<exists>n \<in> set (gr_nodes g). first_spec g h p n spec"
  shows "submits_inv g h p specs"
  unfolding submits_inv_def
proof (intro ballI, clarify)
  fix pool spec m k
  assume "(pool, spec) \<in> set specs" and m: "run_of g p m k (rs_run_id spec)"
  then obtain n where n: "n \<in> set (gr_nodes g)" "first_spec g h p n spec" using assms(4) by blast
  then have "run_id (gr_name g) p (node_name n) 0 = run_id (gr_name g) p (node_name m) k" and "m \<in> set (gr_nodes g)"
    using m by (simp_all add: run_of_def first_spec_def)
  then have "n = m \<and> 0 = k" using node_run_ids_eq [OF assms(1,2,3) n(1)] by blast
  then show "k = 0 \<and> first_spec g h p m spec" using n(2) by simp
qed

text \<open>The records of a state: those of the terminated runs.\<close>

definition records_inv ::
  "('w, 'b, 'x, 'r) env \<Rightarrow> 'x graph \<Rightarrow> partition \<Rightarrow> 'b obs \<Rightarrow> string set \<Rightarrow> bool" where
  "records_inv en g p o1 ended \<longleftrightarrow>
     (\<forall>n \<in> set (gr_nodes g).
        (run_id (gr_name g) p (node_name n) 0 \<in> ended \<longleftrightarrow> stored_record en o1 g p n \<noteq> None) \<and>
        (\<forall>r. stored_record en o1 g p n = Some r \<longrightarrow> rec_rerun r = 0))"

lemma records_inv_same:
  "same_run_keys g p o1 o2 \<Longrightarrow> records_inv en g p o2 ended \<longleftrightarrow> records_inv en g p o1 ended"
  by (simp add: records_inv_def same_keys_record)

subsection \<open>The invariant\<close>

definition active_inv ::
  "('w, 'b, 'x, 'r) env \<Rightarrow> 'x graph \<Rightarrow> partition \<Rightarrow> graph_run_record \<Rightarrow> 'b obs \<Rightarrow> event multiset \<Rightarrow> bool" where
  "active_inv en g p run o1 events \<longleftrightarrow>
     run_expected_reruns run = [] \<and>
     (\<forall>n \<in> set (gr_nodes g). ready_now en o1 g p run n \<longrightarrow>
        run_submitted (run_id (gr_name g) p (node_name n) 0) o1 \<or> (\<exists>ev \<in># events. ev_node ev \<in> set (nd_upstreams n))) \<and>
     (events = {#} \<longrightarrow> (\<exists>n \<in> set (gr_nodes g). stored_record en o1 g p n = None \<and>
        run_submitted (run_id (gr_name g) p (node_name n) 0) o1))"

definition run_inv ::
  "('w, 'b, 'x, 'r) env \<Rightarrow> ('w \<Rightarrow> 'b obs) \<Rightarrow> 'x graph \<Rightarrow> string \<Rightarrow> partition \<Rightarrow> ('w, 'x) run_world \<Rightarrow> bool" where
  "run_inv en obs g h p c \<longleftrightarrow>
     (let o1 = obs (st_world (rw_process c)) in
      cache_ok en (rw_process c) \<and> submits_inv g h p (ob_submits o1) \<and> records_inv en g p o1 (rw_ended c) \<and>
      (\<forall>ev \<in># rw_events c. ev_graph ev = gr_name g \<and> ev_partition ev = p \<and> ev_node ev \<in> set (graph_names g)) \<and>
      (\<exists>run. stored_run en o1 (gr_name g) p = Some run \<and> run_definition run = h \<and>
         (run_state run = RunActive \<longrightarrow> active_inv en g p run o1 (rw_events c))))"

text \<open>What an operation that is not the hook does to the graph run: it submits first runs of its nodes, and it
  leaves the run's record as it is or settles it.\<close>

definition pass_step :: "('w, 'b, 'x, 'r) env \<Rightarrow> 'x graph \<Rightarrow> string \<Rightarrow> partition \<Rightarrow> 'b obs \<Rightarrow> 'b obs \<Rightarrow> bool" where
  "pass_step en g h p o1 o2 \<longleftrightarrow>
     same_run_keys g p o1 o2 \<and> (\<exists>specs. ob_submits o2 = ob_submits o1 @ specs \<and> submits_inv g h p specs) \<and>
     (ob_kv o2 (graph_run_key (gr_name g) p) = ob_kv o1 (graph_run_key (gr_name g) p) \<or>
      (\<exists>run. stored_run en o2 (gr_name g) p = Some run \<and> run_definition run = h \<and> run_state run \<noteq> RunActive))"

lemma pass_step_refl [simp]: "pass_step en g h p o1 o1"
  by (simp add: pass_step_def submits_inv_def)

lemma pass_step_other:
  assumes "other_write g p o1 o2"
  shows "pass_step en g h p o1 o2"
proof -
  from assms obtain specs where "ob_submits o2 = ob_submits o1 @ specs"
    and "\<forall>(pool, spec) \<in> set specs. \<forall>n k. \<not> run_of g p n k (rs_run_id spec)" by (auto simp: other_write_def)
  then have "\<exists>specs. ob_submits o2 = ob_submits o1 @ specs \<and> submits_inv g h p specs"
    by (intro exI [of _ specs] conjI submits_inv_other)
  then show ?thesis using assms by (simp add: other_write_def pass_step_def)
qed

lemma pass_step_submitted: "pass_step en g h p o1 o2 \<Longrightarrow> run_submitted i o1 \<Longrightarrow> run_submitted i o2"
  by (auto simp: pass_step_def run_submitted_def)

lemma inv_step:
  assumes g: "wf_graph g" and inv: "run_inv en obs g h p c" and cache: "cache_ok en s'" and sub: "events \<subseteq># rw_events c"
    and pass: "pass_step en g h p (obs (st_world (rw_process c))) (obs (st_world s'))"
    and handled: "\<And>run. stored_run en (obs (st_world (rw_process c))) (gr_name g) p = Some run \<Longrightarrow> run_state run = RunActive \<Longrightarrow>
       active_inv en g p run (obs (st_world (rw_process c))) (rw_events c) \<Longrightarrow>
       stored_run en (obs (st_world s')) (gr_name g) p = Some run \<Longrightarrow>
       (\<forall>n \<in> set (gr_nodes g). ready_now en (obs (st_world (rw_process c))) g p run n \<longrightarrow>
          run_submitted (run_id (gr_name g) p (node_name n) 0) (obs (st_world s')) \<or>
          (\<exists>ev \<in># events. ev_node ev \<in> set (nd_upstreams n))) \<and>
       (events = {#} \<longrightarrow> (\<exists>n \<in> set (gr_nodes g). stored_record en (obs (st_world (rw_process c))) g p n = None \<and>
          run_submitted (run_id (gr_name g) p (node_name n) 0) (obs (st_world s'))))"
  shows "run_inv en obs g h p (c\<lparr>rw_process := s', rw_events := events\<rparr>)"
proof -
  let ?o1 = "obs (st_world (rw_process c))" and ?o2 = "obs (st_world s')"
  from inv obtain run where run: "stored_run en ?o1 (gr_name g) p = Some run" "run_definition run = h"
      "run_state run = RunActive \<longrightarrow> active_inv en g p run ?o1 (rw_events c)"
    and rest: "submits_inv g h p (ob_submits ?o1)" "records_inv en g p ?o1 (rw_ended c)"
      "\<forall>ev \<in># rw_events c. ev_graph ev = gr_name g \<and> ev_partition ev = p \<and> ev_node ev \<in> set (graph_names g)"
    by (auto simp: run_inv_def Let_def)
  have keys: "same_run_keys g p ?o1 ?o2" using pass by (simp add: pass_step_def)
  have "\<exists>run. stored_run en ?o2 (gr_name g) p = Some run \<and> run_definition run = h \<and>
      (run_state run = RunActive \<longrightarrow> active_inv en g p run ?o2 events)"
  proof (cases "ob_kv ?o2 (graph_run_key (gr_name g) p) = ob_kv ?o1 (graph_run_key (gr_name g) p)")
    case True
    then have same: "stored_run en ?o2 (gr_name g) p = Some run" using run(1) by (simp add: stored_run_def)
    have "active_inv en g p run ?o2 events" if active: "run_state run = RunActive"
    proof -
      have before: "active_inv en g p run ?o1 (rw_events c)" using run(3) active by blast
      then have first: "run_expected_reruns run = []" by (simp add: active_inv_def)
      have ready: "ready_now en ?o2 g p run n \<longleftrightarrow> ready_now en ?o1 g p run n" if "n \<in> set (gr_nodes g)" for n
        by (rule ready_same_keys [OF g that first keys])
      have recd: "stored_record en ?o2 g p n = stored_record en ?o1 g p n" if "n \<in> set (gr_nodes g)" for n
        by (rule same_keys_record [OF keys that])
      show ?thesis
        using handled [OF run(1) active before same] first unfolding active_inv_def by (simp add: ready recd cong: bex_cong)
    qed
    then show ?thesis using same run(2) by blast
  next
    case False
    then show ?thesis using pass unfolding pass_step_def by blast
  qed
  moreover have "submits_inv g h p (ob_submits ?o2)" using pass rest(1) by (auto simp: pass_step_def)
  moreover have "records_inv en g p ?o2 (rw_ended c)" using rest(2) records_inv_same [OF keys] by blast
  moreover have "\<forall>ev \<in># events. ev_graph ev = gr_name g \<and> ev_partition ev = p \<and> ev_node ev \<in> set (graph_names g)"
    using rest(3) sub by (meson mset_subset_eqD)
  ultimately show ?thesis using cache by (simp add: run_inv_def Let_def)
qed

lemma inv_idle:
  assumes "wf_graph g" and inv: "run_inv en obs g h p c" and "cache_ok en s'"
    and pass: "pass_step en g h p (obs (st_world (rw_process c))) (obs (st_world s'))"
  shows "run_inv en obs g h p (c\<lparr>rw_process := s'\<rparr>)"
proof -
  have "run_inv en obs g h p (c\<lparr>rw_process := s', rw_events := rw_events c\<rparr>)"
    using pass_step_submitted [OF pass]
    by (intro inv_step [OF assms(1,2,3) _ pass]) (auto simp: active_inv_def)
  then show ?thesis by simp
qed

end
