(* ===== verification/Run_Passes.thy ===== *)
theory Run_Passes
  imports Run_Invariant
begin

section \<open>The passes over a graph run\<close>

text \<open>
  Whatever an event, the reconciler and a cancel return, they do a \<open>pass_step\<close> on the graph run. An event
  that is handled has submitted the ready nodes below its node, and it leaves the run active only when a node is
  ready or a run of it is live.
\<close>

text \<open>The facts of the graph that the passes rely on.\<close>

definition run_graph :: "('w, 'b, 'x, 'r) env \<Rightarrow> string \<Rightarrow> 'x graph \<Rightarrow> partition \<Rightarrow> bool" where
  "run_graph en h g p \<longleftrightarrow> hash_names en h g \<and> partition_ok p"

lemma run_graphD:
  assumes "run_graph en h g p"
  shows "wf_graph g" "named_graph g" "one_producer g" "partition_ok p"
  using assms unfolding run_graph_def hash_names_def env_load_def
  by (auto dest: load_str_wf load_str_named load_str_producer)

lemma run_graph_hash: "run_graph en h g p \<Longrightarrow> env_hash en t = h \<Longrightarrow> env_load en t = Inr g' \<Longrightarrow> g' = g"
  by (simp add: run_graph_def hash_names_def)

lemma settle_pass:
  assumes ok: "by_itself en obs" and keys: "ob_kv o2 = ob_kv o1" and subs: "ob_submits o2 = ob_submits o1 @ specs"
    and inv: "submits_inv g h p specs"
    and o3: "o3 = o2 \<or> (\<exists>state t. state \<noteq> RunActive \<and> run_definition settled = h \<and> run_state settled = state \<and>
        o3 = apply_effects (settle_effects en (gr_name g) p t settled) o2)"
  shows "pass_step en g h p o1 o3"
proof -
  have codecs: "codecs_ok (en_codecs en)" using ok by (simp add: by_itself_def)
  show ?thesis
    using o3
  proof
    assume "o3 = o2"
    then show ?thesis using keys subs inv by (auto simp: pass_step_def same_run_keys_def)
  next
    assume "\<exists>state t. state \<noteq> RunActive \<and> run_definition settled = h \<and> run_state settled = state \<and>
        o3 = apply_effects (settle_effects en (gr_name g) p t settled) o2"
    then obtain t where t: "o3 = apply_effects (settle_effects en (gr_name g) p t settled) o2"
      and st: "run_state settled \<noteq> RunActive" "run_definition settled = h" by blast
    note facts = settle_effects_obs [OF codecs, of "gr_name g" p t settled o2, folded t]
    have "same_run_keys g p o1 o3"
      using keys by (simp add: same_run_keys_def facts(4) node_record_key_def run_key_record_key [symmetric])
    moreover have "ob_submits o3 = ob_submits o1 @ specs" using facts(1) subs by simp
    moreover have "\<exists>run. stored_run en o3 (gr_name g) p = Some run \<and> run_definition run = h \<and> run_state run \<noteq> RunActive"
      using facts(2) st by simp
    ultimately show ?thesis using inv unfolding pass_step_def by blast
  qed
qed

lemma candidates_pass:
  assumes ok: "by_itself en obs" and graph: "run_graph en h g p" and ns: "set ns \<subseteq> set (gr_nodes g)"
    and run: "run_definition run = h" "run_expected_reruns run = []"
    and states: "node_states g (current_records run (stored_records en (obs (st_world s)) g p)) = Some states"
    and m: "io_fold (submit_candidate en g p run (stored_records en (obs (st_world s)) g p) states) ns k s = (r, s')"
  shows "\<exists>specs. obs (st_world s') = (obs (st_world s))\<lparr>ob_submits := ob_submits (obs (st_world s)) @ specs\<rparr> \<and>
     submits_inv g h p specs"
proof -
  let ?o = "obs (st_world s)"
  note g = run_graphD [OF graph]
  have state: "\<forall>n \<in> set ns. bt_get states (node_name n) = Some (state_at states (node_name n))"
  proof
    fix n
    assume "n \<in> set ns"
    then obtain st where "bt_get states (node_name n) = Some st" using node_states_eq [OF g(1) states, of n] ns by blast
    then show "bt_get states (node_name n) = Some (state_at states (node_name n))" by (simp add: state_at_def)
  qed
  have spec: "submit_spec en n (identity g (run_definition run) p n (next_rerun (stored_records en ?o g p) (node_name n)))
      (upstream_records n (current_records run (stored_records en ?o g p))) [] = ready_spec en ?o g p run n" for n
    by (simp add: ready_spec_def Let_def)
  from candidates_alone [OF ok state m] obtain specs where
    specs: "\<forall>x \<in> set specs. \<exists>n \<in> set ns. state_at states (node_name n) = NodeReady \<and> x = (node_pool n, ready_spec en ?o g p run n)"
      "obs (st_world s') = ?o\<lparr>ob_submits := ob_submits ?o @ specs\<rparr>"
    unfolding spec by blast
  have "\<exists>n \<in> set (gr_nodes g). first_spec g h p n spec" if x: "(pool, spec) \<in> set specs" for pool spec
  proof -
    obtain n where n: "n \<in> set ns" "state_at states (node_name n) = NodeReady" "spec = ready_spec en ?o g p run n"
      using specs(1) x by blast
    then have mem: "n \<in> set (gr_nodes g)" using ns by blast
    then have "ready_now en ?o g p run n" using ready_now_state [OF g(1) mem states] n(2) by blast
    then have "stored_record en ?o g p n = None" using ready_first [OF g(1) mem run(2)] by blast
    then show ?thesis using ready_spec_first [OF g(1) mem] n(3) run(1) mem by blast
  qed
  then have "submits_inv g h p specs" using submits_inv_first [OF g(1,2,4)] by blast
  then show ?thesis using specs(2) by blast
qed

lemma advance_pass:
  assumes ok: "by_itself en obs" and graph: "run_graph en h g p" and ns: "set ns \<subseteq> set (gr_nodes g)"
    and run: "run_definition run = h" "run_expected_reruns run = []" and m: "advance en g p run bs ns s = (r, s')"
  shows "pass_step en g h p (obs (st_world s)) (obs (st_world s'))"
proof -
  from m have "io_bind (read_node_records en g p) (\<lambda>records.
       io_bind (panics (node_states g (current_records run records))) (\<lambda>states.
         io_bind (io_fold (submit_candidate en g p run records states) ns 0) (\<lambda>submitted.
           io_bind (settle en g p run bs records states) (\<lambda>settled. io_return (submitted, settled))))) s = (r, s')"
    by (simp add: advance_def)
  then show ?thesis
  proof (cases rule: io_bind_cases)
    case (error e)
    then show ?thesis using quiet_same [OF quiet_records [OF by_itself_backend [OF ok]] error(1)] by simp
  next
    case (ok rs s1)
    note read = node_records_alone [OF assms(1) ok(1)]
    have "io_bind (panics (node_states g (current_records run rs))) (\<lambda>states.
         io_bind (io_fold (submit_candidate en g p run rs states) ns 0) (\<lambda>submitted.
           io_bind (settle en g p run bs rs states) (\<lambda>settled. io_return (submitted, settled)))) s1 = (r, s')"
      by (rule ok(2))
    then show ?thesis
    proof (cases rule: io_bind_cases)
      case (error e)
      then show ?thesis using read(2) by (simp add: panics_def)
    next
      case (ok states s2)
      then have states: "node_states g (current_records run (stored_records en (obs (st_world s1)) g p)) = Some states"
        and "s2 = s1" using read by simp_all
      have "io_bind (io_fold (submit_candidate en g p run rs states) ns 0) (\<lambda>submitted.
           io_bind (settle en g p run bs rs states) (\<lambda>settled. io_return (submitted, settled))) s1 = (r, s')"
        using ok(2) \<open>s2 = s1\<close> by simp
      then obtain q s3 where fold: "io_fold (submit_candidate en g p run rs states) ns 0 s1 = (q, s3)"
        and rest: "s' = s3 \<or> (\<exists>b. settle en g p run bs rs states s3 = (b, s'))"
        by (elim io_bind_cases) auto
      obtain specs where specs: "obs (st_world s3) = (obs (st_world s1))\<lparr>ob_submits := ob_submits (obs (st_world s1)) @ specs\<rparr>"
          "submits_inv g h p specs"
        using candidates_pass [OF assms(1) graph ns run states, of 0 q s3] fold read by auto
      have settled: "obs (st_world s') = obs (st_world s3) \<or> (\<exists>st t. st \<noteq> RunActive \<and>
          obs (st_world s') = apply_effects (settle_effects en (gr_name g) p t (settled_record run st rs)) (obs (st_world s3)))"
        using rest
      proof
        assume "\<exists>b. settle en g p run bs rs states s3 = (b, s')"
        then obtain b where b: "settle en g p run bs rs states s3 = (b, s')" by blast
        have "st \<noteq> RunActive" if "settled_state states = Some st" for st
          using that by (auto simp: settled_state_def split: if_splits)
        then show ?thesis using settle_alone(1) [OF assms(1) b] by blast
      qed simp
      show ?thesis
        using settled
      proof
        assume "obs (st_world s') = obs (st_world s3)"
        then show ?thesis
          using settle_pass [OF assms(1), of "obs (st_world s3)" "obs (st_world s)" specs g h p "obs (st_world s')"] specs read(2) by simp
      next
        assume "\<exists>st t. st \<noteq> RunActive \<and>
          obs (st_world s') = apply_effects (settle_effects en (gr_name g) p t (settled_record run st rs)) (obs (st_world s3))"
        then obtain st t where "st \<noteq> RunActive"
          "obs (st_world s') = apply_effects (settle_effects en (gr_name g) p t (settled_record run st rs)) (obs (st_world s3))" by blast
        then show ?thesis
          using settle_pass [OF assms(1), of "obs (st_world s3)" "obs (st_world s)" specs g h p "obs (st_world s')" "settled_record run st rs"]
            specs read(2) run(1) by (auto simp: settled_record_def)
      qed
    qed
  qed
qed

end
