(* ===== verification/Run_Events.thy ===== *)
theory Run_Events
  imports Run_Passes
begin

section \<open>Events, reconciling and cancels of a graph run\<close>

text \<open>The operations on the stored run, whatever they return.\<close>

lemma scheduler_graph_same:
  assumes "by_itself en obs" and "run_graph en h g p" and "cache_ok en s" and "scheduler_graph en h s = (Inr g', s')"
  shows "g' = g" and "obs (st_world s') = obs (st_world s)"
proof -
  from scheduler_graph_cases [OF assms(1,3,4)] obtain t where "env_hash en t = h" "env_load en t = Inr g'"
    and same: "obs (st_world s') = obs (st_world s)" by auto
  then show "g' = g" using run_graph_hash [OF assms(2)] by blast
  show "obs (st_world s') = obs (st_world s)" by (rule same)
qed

definition event_body ::
  "('w, 'b, 'x, 'r) env \<Rightarrow> event \<Rightarrow> graph_run_record \<Rightarrow> 'b \<Rightarrow> 'x graph \<Rightarrow> (('w, 'x) process, scheduler_error, unit) io" where
  "event_body en ev run bs g =
     (case graph_node g (ev_node ev) of
       None \<Rightarrow> io_return ()
     | Some n \<Rightarrow> io_bind (panics (those (map (graph_node g) (nd_downstreams n)))) (\<lambda>downstreams.
         io_bind (advance en g (ev_partition ev) run bs downstreams) (\<lambda>x. io_return ())))"

text \<open>The handling of an event of the run ends before its pass, with nothing written, or with its pass.\<close>

lemma handle_event_cases:
  assumes ok: "by_itself en obs" and graph: "run_graph en h g p" and cache: "cache_ok en s"
    and ev: "ev_graph ev = gr_name g" "ev_partition ev = p"
    and run: "stored_run en (obs (st_world s)) (gr_name g) p = Some run" "run_definition run = h"
    and m: "handle_event en ev s = (r, s')"
  obtains (none) "obs (st_world s') = obs (st_world s)" "(\<exists>e. r = Inl e) \<or> run_state run \<noteq> RunActive"
    | (pass) bs s1 where "run_state run = RunActive" "obs (st_world s1) = obs (st_world s)"
        "ob_kv (obs (st_world s)) (graph_run_key (gr_name g) p) = Some bs" "event_body en ev run bs g s1 = (r, s')"
proof -
  let ?rest = "\<lambda>v. case v of None \<Rightarrow> io_return ()
       | Some (run, bs) \<Rightarrow> if run_state run \<noteq> RunActive then io_return ()
           else io_bind (scheduler_graph en (run_definition run)) (\<lambda>g. event_body en ev run bs g)"
  from m have "io_bind (graph_run en (graph_run_key (gr_name g) p)) ?rest s = (r, s')"
    unfolding handle_event_def event_body_def ev by simp
  then show thesis
  proof (cases rule: io_bind_cases)
    case (error e)
    then show thesis
      using none quiet_same [OF quiet_run [OF by_itself_backend [OF ok]] error(1)] by simp
  next
    case (ok v s1)
    note stored = graph_run_stored [OF assms(1) ok(1)]
    obtain bs where v: "v = Some (run, bs)" and bs: "ob_kv (obs (st_world s)) (graph_run_key (gr_name g) p) = Some bs"
      and same: "obs (st_world s1) = obs (st_world s)"
      using stored run(1) by (cases v) auto
    show thesis
    proof (cases "run_state run = RunActive")
      case False
      then show thesis using none ok(2) same v by simp
    next
      case True
      have cache1: "cache_ok en s1" by (rule cache_ok_run [OF ok(1) cache])
      have "io_bind (scheduler_graph en h) (\<lambda>g. event_body en ev run bs g) s1 = (r, s')"
        using ok(2) True v run(2) by simp
      then show thesis
      proof (cases rule: io_bind_cases)
        case (error e)
        then show thesis
          using none quiet_same [OF quiet_graph [OF by_itself_backend [OF assms(1)]] error(1)] same by simp
      next
        case (ok g' s2)
        then show thesis using pass True scheduler_graph_same [OF assms(1) graph cache1 ok(1)] same bs by simp
      qed
    qed
  qed
qed

lemma downstreams_of:
  assumes g: "wf_graph g" and "n \<in> set (gr_nodes g)" and "those (map (graph_node g) (nd_downstreams n)) = Some ds"
  shows "set ds = {m \<in> set (gr_nodes g). node_name n \<in> set (nd_upstreams m)}"
proof -
  have ds: "map (graph_node g) (nd_downstreams n) = map Some ds" using assms(3) by (simp add: those_eq_Some)
  have "m \<in> set ds \<longleftrightarrow> (\<exists>d \<in> set (nd_downstreams n). graph_node g d = Some m)" for m
  proof -
    have "m \<in> set ds \<longleftrightarrow> Some m \<in> set (map Some ds)" by auto
    also have "\<dots> \<longleftrightarrow> (\<exists>d \<in> set (nd_downstreams n). graph_node g d = Some m)" unfolding ds [symmetric] set_map image_iff by metis
    finally show ?thesis .
  qed
  then show ?thesis
    using wf_graph_downstream [OF assms(1,2)] graph_node_unique [OF g] by (auto simp: graph_node_iff [OF g])
qed

lemma event_pass:
  assumes ok: "by_itself en obs" and graph: "run_graph en h g p" and cache: "cache_ok en s"
    and ev: "ev_graph ev = gr_name g" "ev_partition ev = p"
    and run: "stored_run en (obs (st_world s)) (gr_name g) p = Some run" "run_definition run = h"
      "run_state run = RunActive \<Longrightarrow> run_expected_reruns run = []"
    and m: "handle_event en ev s = (r, s')"
  shows "pass_step en g h p (obs (st_world s)) (obs (st_world s'))"
  using ok graph cache ev run(1,2) m
proof (cases rule: handle_event_cases)
  case none
  then show ?thesis by simp
next
  case (pass bs s1)
  note g = run_graphD [OF graph]
  show ?thesis
  proof (cases "graph_node g (ev_node ev)")
    case None
    then show ?thesis using pass by (simp add: event_body_def)
  next
    case (Some n)
    then have n: "n \<in> set (gr_nodes g)" by (simp add: graph_node_iff [OF g(1)])
    from downstream_nodes [OF g(1) n] obtain ds where ds: "those (map (graph_node g) (nd_downstreams n)) = Some ds" "set ds \<subseteq> set (gr_nodes g)"
      by blast
    then obtain q s2 where "advance en g p run bs ds s1 = (q, s2)" "s' = s2"
      using pass(4) Some ev(2) by (auto simp: event_body_def panics_def io_of_sum_def io_bind_def split: prod.splits sum.splits)
    then show ?thesis
      using advance_pass [OF ok graph ds(2) run(2) run(3) [OF pass(1)]] pass(2) by metis
  qed
qed

lemma entry_pass:
  assumes ok: "by_itself en obs" and graph: "run_graph en h g p" and cache: "cache_ok en s"
    and run: "run_definition run = h" "run_expected_reruns run = []"
    and m: "reconcile_entry en (graph_run_key (gr_name g) p, bs, run) report s = (r, s')"
  shows "pass_step en g h p (obs (st_world s)) (obs (st_world s'))"
proof -
  note g = run_graphD [OF graph]
  have "is_name (gr_name g)" using g(2) by (simp add: named_graph_def)
  then have key: "parse_graph_run_key (graph_run_key (gr_name g) p) = Some (gr_name g, p)"
    using run_keys.parse_render [of "(gr_name g, p)"] g(4) by (simp add: graph_partition_ok_def)
  obtain got s1 where got: "definition_get en h s = (got, s1)" by fastforce
  have same: "obs (st_world s1) = obs (st_world s)"
    by (rule quiet_same [OF quiet_definition_get [OF by_itself_backend [OF ok]] got])
  show ?thesis
  proof (cases "\<exists>g'. got = Inr (Some g')")
    case False
    then have "s' = s1"
      using m run(1) got key by (auto simp: reconcile_entry_def io_bind_def io_try_def split: sum.splits option.splits)
    then show ?thesis using same by simp
  next
    case True
    then have "got = Inr (Some g)"
      using definition_get_graph [OF cache] got run_graph_hash [OF graph] by blast
    note rest = m [unfolded reconcile_entry_def Let_def, simplified, unfolded key run(1), simplified]
    show ?thesis
    proof (cases "run_state run")
      case RunActive
      then obtain q s2 where "advance en g p run bs (gr_nodes g) s1 = (q, s2)" "s' = s2"
        using rest got \<open>got = Inr (Some g)\<close> by (auto simp: io_bind_def io_try_def split: prod.splits sum.splits)
      then show ?thesis
        using advance_pass [OF ok graph _ run(1,2)] same by (metis order_refl)
    next
      case RunCancelled
      then obtain q s2 where q: "cancel_active_runs en g p run s1 = (q, s2)" and "s' = s2"
        using rest got \<open>got = Inr (Some g)\<close> by (auto simp: io_bind_def io_try_def split: prod.splits sum.splits)
      then show ?thesis
        using quiet_same [OF quiet_cancel_active [OF by_itself_backend [OF ok]] q] same by simp
    qed (use rest got same \<open>got = Inr (Some g)\<close> in \<open>auto simp: io_bind_def io_try_def\<close>)
  qed
qed

lemma cancel_pass:
  assumes ok: "by_itself en obs" and cache: "cache_ok en s"
    and run: "stored_run en (obs (st_world s)) (gr_name g) p = Some run" "run_definition run = h"
    and m: "cancel_run en (gr_name g) p s = (r, s')"
  shows "pass_step en g h p (obs (st_world s)) (obs (st_world s'))"
proof -
  have "submits_inv g h p []" by (simp add: submits_inv_def)
  then show ?thesis
    using cancel_run_alone [OF ok cache m] run
      settle_pass [OF ok refl, of "obs (st_world s)" "[]" g h p "obs (st_world s')" "run\<lparr>run_state := RunCancelled\<rparr>"]
    by (auto split: if_splits)
qed

subsection \<open>A handled event\<close>

lemma submits_inv_run:
  assumes "submits_inv g h p (ob_submits o1)" and "n \<in> set (gr_nodes g)"
    and "run_submitted (run_id (gr_name g) p (node_name n) k) o1"
  shows "k = 0"
  using assms by (fastforce simp: submits_inv_def run_submitted_def run_of_def)

text \<open>A live run of a task instance is the first run of a node without a record.\<close>

lemma live_unrecorded:
  assumes ok: "by_itself en obs" and g: "wf_graph g" and n: "n \<in> set (gr_nodes g)"
    and live: "live_node en obs o2 g p run (stored_records en o1 g p) n"
    and subs: "submits_inv g h p (ob_submits o2)" and recs: "records_inv en g p o1 ended"
  shows "stored_record en o1 g p n = None \<and> run_submitted (run_id (gr_name g) p (node_name n) 0) o2"
proof -
  obtain rid w w' where rid: "unrecorded_run_id g p run n (stored_records en o1 g p) = Some rid" and w: "obs w = o2"
    and "wf_status (en_backend en) (node_pool n) rid w = (Inr (Some RunLive), w')"
    using live by (auto simp: live_node_def)
  then have sub: "run_submitted rid o2"
    using alone_value [OF backend_status [OF by_itself_backend [OF ok]]] by blast
  show ?thesis
  proof (cases "stored_record en o1 g p n")
    case None
    then show ?thesis using rid sub by (simp add: unrecorded_run_id_def stored_records_get [OF g n])
  next
    case (Some r)
    then have "rec_rerun r = 0" using recs n by (simp add: records_inv_def)
    then have "rid = run_id (gr_name g) p (node_name n) 1"
      using rid Some by (simp add: unrecorded_run_id_def stored_records_get [OF g n] split: if_splits)
    then have "(1 :: u32) = 0" using submits_inv_run [OF subs n] sub by blast
    then show ?thesis by simp
  qed
qed

lemma event_handled:
  assumes ok: "by_itself en obs" and graph: "run_graph en h g p" and cache: "cache_ok en s"
    and ev: "ev_graph ev = gr_name g" "ev_partition ev = p" "ev_node ev \<in> set (graph_names g)"
    and run: "stored_run en (obs (st_world s)) (gr_name g) p = Some run" "run_definition run = h"
      "run_state run = RunActive" "run_expected_reruns run = []"
    and m: "handle_event en ev s = (Inr (), s')"
    and subs: "submits_inv g h p (ob_submits (obs (st_world s)))" and recs: "records_inv en g p (obs (st_world s)) ended"
    and same: "stored_run en (obs (st_world s')) (gr_name g) p = Some run"
  shows "\<forall>d \<in> set (gr_nodes g). ready_now en (obs (st_world s)) g p run d \<longrightarrow> ev_node ev \<in> set (nd_upstreams d) \<longrightarrow>
       run_submitted (run_id (gr_name g) p (node_name d) 0) (obs (st_world s'))"
    and "(\<exists>d \<in> set (gr_nodes g). ready_now en (obs (st_world s)) g p run d) \<or>
      (\<exists>d \<in> set (gr_nodes g). stored_record en (obs (st_world s)) g p d = None \<and>
         run_submitted (run_id (gr_name g) p (node_name d) 0) (obs (st_world s')))"
proof -
  note g = run_graphD [OF graph]
  have codecs: "codecs_ok (en_codecs en)" using ok by (simp add: by_itself_def)
  obtain n where n: "n \<in> set (gr_nodes g)" "node_name n = ev_node ev" using ev(3) by (auto simp: graph_names_def)
  have node: "graph_node g (ev_node ev) = Some n" using n by (simp add: graph_node_iff [OF g(1)])
  obtain bs s1 where s1: "obs (st_world s1) = obs (st_world s)"
    and bs: "ob_kv (obs (st_world s)) (graph_run_key (gr_name g) p) = Some bs" and body: "event_body en ev run bs g s1 = (Inr (), s')"
    by (rule handle_event_cases [OF ok graph cache ev(1,2) run(1,2) m]) (use run(3) in auto)
  obtain ds k settled where ds: "those (map (graph_node g) (nd_downstreams n)) = Some ds"
    and adv: "advance en g p run bs ds s1 = (Inr (k, settled), s')"
    using body node ev(2) by (auto simp: event_body_def io_bind_Inr)
  note below = downstreams_of [OF g(1) n(1) ds]
  have sub: "set ds \<subseteq> set (gr_nodes g)" using below by blast
  note pass = event_pass [OF ok graph cache ev(1,2) run(1,2) _ m, OF run(4)]
  have subs': "submits_inv g h p (ob_submits (obs (st_world s')))" using pass subs by (auto simp: pass_step_def)
  obtain states o2 where states: "node_states g (current_records run (stored_records en (obs (st_world s)) g p)) = Some states"
    and sent: "\<forall>d \<in> set ds. ready_now en (obs (st_world s)) g p run d \<longrightarrow>
        run_submitted (rs_run_id (ready_spec en (obs (st_world s)) g p run d)) o2"
    and yes: "settled \<longrightarrow> (\<exists>state t. settled_state states = Some state \<and> obs (st_world s') =
        apply_effects (settle_effects en (gr_name g) p t (settled_record run state (stored_records en (obs (st_world s)) g p))) o2)"
    and no: "\<not> settled \<longrightarrow> obs (st_world s') = o2 \<and>
      (settled_state states = None \<or> ob_kv (obs (st_world s)) (graph_run_key (gr_name g) p) \<noteq> Some bs \<or>
        (\<exists>n \<in> set (gr_nodes g). live_node en obs o2 g p run (stored_records en (obs (st_world s)) g p) n))"
    by (rule advance_alone [OF ok g(1) sub adv, unfolded s1]) blast
  have "\<not> settled"
  proof
    assume settled
    then obtain state t where st: "settled_state states = Some state" and o': "obs (st_world s') =
        apply_effects (settle_effects en (gr_name g) p t (settled_record run state (stored_records en (obs (st_world s)) g p))) o2"
      using yes by blast
    have "(settled_record run state (stored_records en (obs (st_world s)) g p))\<lparr>run_settled_at_ms := Some t\<rparr> = run"
      using same unfolding o' settle_effects_obs(2) [OF codecs] by simp
    from arg_cong [OF this, of run_state] have "run_state run = state" by (simp add: settled_record_def)
    then show False using st run(3) by (auto simp: settled_state_def split: if_splits)
  qed
  with no have o2: "obs (st_world s') = o2" and alts: "settled_state states = None \<or>
      (\<exists>n \<in> set (gr_nodes g). live_node en obs o2 g p run (stored_records en (obs (st_world s)) g p) n)"
    using bs by auto
  show "\<forall>d \<in> set (gr_nodes g). ready_now en (obs (st_world s)) g p run d \<longrightarrow> ev_node ev \<in> set (nd_upstreams d) \<longrightarrow>
       run_submitted (run_id (gr_name g) p (node_name d) 0) (obs (st_world s'))"
  proof (intro ballI impI)
    fix d
    assume d: "d \<in> set (gr_nodes g)" "ready_now en (obs (st_world s)) g p run d" "ev_node ev \<in> set (nd_upstreams d)"
    then have "run_submitted (rs_run_id (ready_spec en (obs (st_world s)) g p run d)) o2" using sent below n(2) by simp
    moreover have "stored_record en (obs (st_world s)) g p d = None" using ready_first [OF g(1) d(1) run(4)] d(2) by blast
    ultimately show "run_submitted (run_id (gr_name g) p (node_name d) 0) (obs (st_world s'))"
      using ready_spec_first [OF g(1) d(1), of en "obs (st_world s)" p run] o2 by (simp add: first_spec_def)
  qed
  show "(\<exists>d \<in> set (gr_nodes g). ready_now en (obs (st_world s)) g p run d) \<or>
      (\<exists>d \<in> set (gr_nodes g). stored_record en (obs (st_world s)) g p d = None \<and>
         run_submitted (run_id (gr_name g) p (node_name d) 0) (obs (st_world s')))"
    using alts
  proof
    assume "settled_state states = None"
    then show ?thesis
      using settled_state_None [OF g(1) states] ready_now_state [OF g(1) _ states] by blast
  next
    assume "\<exists>n \<in> set (gr_nodes g). live_node en obs o2 g p run (stored_records en (obs (st_world s)) g p) n"
    then show ?thesis using live_unrecorded [OF ok g(1) _ _ _ recs] subs' o2 by blast
  qed
qed

end
