(* ===== verification/Run_Progress.thy ===== *)
theory Run_Progress
  imports Run_Events
begin

section \<open>The steps of a graph run keep the invariant\<close>

text \<open>
  The invariant holds after the start of the graph run, and every step keeps it. A marked step lowers the
  variant, which is at most two for a node of the graph.
\<close>

subsection \<open>The termination of a run\<close>

lemma staged_record:
  assumes "rs_headers spec = headers (identity g h p n 0)" and "partition_ok p" and "oc_headers outcome = rs_headers spec"
    and "stg_puts (stage_effects hk now outcome) \<noteq> []" and "stg_events (stage_effects hk now outcome) \<noteq> []"
  obtains r ev q k where
    "stage_effects hk now outcome = \<lparr>stg_puts = [(node_record_key (gr_name g) p n, r)], stg_events = [(q, ev, k)]\<rparr>"
    "rec_rerun r = 0" "ev_graph ev = gr_name g" "ev_partition ev = p" "ev_node ev = node_name n"
proof -
  have i: "from_headers (oc_headers outcome) = Inr (identity g h p n 0)"
    unfolding assms(1,3) using assms(2) by (intro from_headers_headers) (simp add: identity_ok_def identity_def)
  have ng: "oc_headers outcome header_group = None" by (simp add: assms(1,3))
  have fields: "ti_graph (identity g h p n 0) = gr_name g" "ti_partition (identity g h p n 0) = p"
      "ti_node (identity g h p n 0) = node_name n" "ti_rerun (identity g h p n 0) = 0"
    by (simp_all add: identity_def)
  from assms(4,5) show thesis
    using that [of "hook_record hk now (identity g h p n 0) outcome"]
    by (auto simp: stage_effects_def i ng Let_def nothing_staged_def fields split: if_splits)
qed

lemma submitted_spec:
  assumes "submits_inv g h p (ob_submits o1)" and "(pool, spec) \<in> set (ob_submits o1)" and "run_of g p n k (rs_run_id spec)"
  shows "n \<in> set (gr_nodes g)" "k = 0" "rs_run_id spec = run_id (gr_name g) p (node_name n) 0"
    "rs_headers spec = headers (identity g h p n 0)"
  using assms by (auto simp: submits_inv_def run_of_def first_spec_def)

text \<open>The record of one node is written: it becomes recorded, and only the nodes below it can become ready.\<close>

lemma node_put_record:
  assumes graph: "run_graph en h g p" and codecs: "codecs_ok (en_codecs en)" and n: "n \<in> set (gr_nodes g)"
    and o2: "o2 = apply_effects [PutEffect (node_record_key (gr_name g) p n) (enc_node (en_codecs en) r)] o1"
    and m: "m \<in> set (gr_nodes g)"
  shows "stored_record en o2 g p m = (if m = n then Some r else stored_record en o1 g p m)"
proof -
  note g = run_graphD [OF graph]
  have "node_record_key (gr_name g) p m = node_record_key (gr_name g) p n \<longleftrightarrow> m = n"
    using node_keys_eq [OF g(1,2,3) m n g(4,4)] by simp
  then show ?thesis using codecs by (simp add: o2 stored_record_def codecs_ok_def)
qed

lemma node_put_ready:
  assumes graph: "run_graph en h g p" and codecs: "codecs_ok (en_codecs en)" and n: "n \<in> set (gr_nodes g)"
    and o2: "o2 = apply_effects [PutEffect (node_record_key (gr_name g) p n) (enc_node (en_codecs en) r)] o1"
    and m: "m \<in> set (gr_nodes g)" and first: "run_expected_reruns run = []" and ready: "ready_now en o2 g p run m"
  shows "ready_now en o1 g p run m \<or> node_name n \<in> set (nd_upstreams m)"
proof (cases "node_name n \<in> set (nd_upstreams m)")
  case False
  note g = run_graphD [OF graph]
  have "is_ready m (stored_records en o2 g p) \<longleftrightarrow> is_ready m (stored_records en o1 g p)"
    using False by (intro is_ready_stored [OF g(1) m]) (auto simp: node_put_record [OF graph codecs n o2])
  then show ?thesis
    using ready node_put_record [OF graph codecs n o2 m] by (auto simp: ready_first [OF g(1) m first] split: if_splits)
qed simp

lemma terminate_inv:
  assumes ok: "by_itself en obs" and graph: "run_graph en h g p" and inv: "run_inv en obs g h p c"
    and spec: "(pool, spec) \<in> set (ob_submits (obs (st_world (rw_process c))))" "run_of g p n k (rs_run_id spec)"
    and ended: "rs_run_id spec \<notin> rw_ended c" and oc: "oc_headers outcome = rs_headers spec"
    and st: "st = stage_effects hk now outcome" "stg_puts st \<noteq> []" "stg_events st \<noteq> []"
    and w: "obs w = apply_effects (hook_effects en st) (obs (st_world (rw_process c)))"
  shows "n \<in> set (gr_nodes g) \<and> stored_record en (obs (st_world (rw_process c))) g p n = None \<and>
     (\<exists>r. \<forall>m \<in> set (gr_nodes g). stored_record en (obs w) g p m =
        (if m = n then Some r else stored_record en (obs (st_world (rw_process c))) g p m)) \<and>
     size (hook_events st) = 1 \<and>
     run_inv en obs g h p (c\<lparr>rw_process := (rw_process c)\<lparr>st_world := w\<rparr>, rw_events := rw_events c + hook_events st,
          rw_ended := insert (rs_run_id spec) (rw_ended c)\<rparr>)"
proof -
  let ?o1 = "obs (st_world (rw_process c))"
  note g = run_graphD [OF graph]
  have codecs: "codecs_ok (en_codecs en)" using ok by (simp add: by_itself_def)
  have subs: "submits_inv g h p (ob_submits ?o1)" and recs: "records_inv en g p ?o1 (rw_ended c)"
    using inv by (simp_all add: run_inv_def Let_def)
  note s = submitted_spec [OF subs spec]
  obtain r ev q kk where staged: "st = \<lparr>stg_puts = [(node_record_key (gr_name g) p n, r)], stg_events = [(q, ev, kk)]\<rparr>"
    and r: "rec_rerun r = 0" and ev: "ev_graph ev = gr_name g" "ev_partition ev = p" "ev_node ev = node_name n"
    by (rule staged_record [OF s(4) g(4) oc st(2,3) [unfolded st(1)]]) (use st(1) in auto)
  have o2: "obs w = apply_effects [PutEffect (node_record_key (gr_name g) p n) (enc_node (en_codecs en) r)] ?o1"
    using w by (simp add: staged hook_effects_def)
  have events: "hook_events st = {#ev#}" by (simp add: staged hook_events_def)
  note recd = node_put_record [OF graph codecs s(1) o2]
  have none: "stored_record en ?o1 g p n = None" using recs s(1,3) ended by (auto simp: records_inv_def)
  have "records_inv en g p (obs w) (insert (rs_run_id spec) (rw_ended c))"
    using recs r node_run_ids_eq [OF g(1,2,4) _ s(1)] by (auto simp: records_inv_def recd s(3))
  moreover have "ob_submits (obs w) = ob_submits ?o1" by (simp add: o2)
  moreover have run: "stored_run en (obs w) (gr_name g) p = stored_run en ?o1 (gr_name g) p"
    by (simp add: o2 stored_run_def node_record_key_def run_key_record_key)
  moreover have "active_inv en g p run (obs w) (rw_events c + {#ev#})"
    if a: "active_inv en g p run ?o1 (rw_events c)" for run
  proof -
    have first: "run_expected_reruns run = []" using a by (simp add: active_inv_def)
    have same: "run_submitted i (obs w) \<longleftrightarrow> run_submitted i ?o1" for i by (simp add: o2 run_submitted_def)
    show ?thesis
      using a node_put_ready [OF graph codecs s(1) o2 _ first] ev(3) unfolding active_inv_def by (auto simp: same)
  qed
  ultimately show ?thesis
    using inv s(1) none recd ev by (auto simp: run_inv_def Let_def events graph_names_def)
qed

subsection \<open>Every step\<close>

lemma process_event_handle:
  assumes "dec_event (en_codecs en) (job_payload job) = Inr ev" and "process_event en job s = (r, s')"
  obtains q where "handle_event en ev s = (q, s')" "r = Inr () \<Longrightarrow> q = Inr ()"
proof -
  from assms obtain q where "handle_event en ev s = (q, s')" "r = (case q of Inl e \<Rightarrow> Inl (worker_error_of e) | Inr a \<Rightarrow> Inr a)"
    by (auto simp: process_event_def io_map_error_result elim!: io_bind_cases)
  then show thesis using that by (cases q) auto
qed

lemma handle_event_inv:
  assumes ok: "by_itself en obs" and graph: "run_graph en h g p" and inv: "run_inv en obs g h p c"
    and ev: "ev \<in># rw_events c" and m: "handle_event en ev (rw_process c) = (q, s')"
  shows "run_inv en obs g h p (c\<lparr>rw_process := s'\<rparr>)"
    and "same_run_keys g p (obs (st_world (rw_process c))) (obs (st_world s'))"
    and "q = Inr () \<Longrightarrow> run_inv en obs g h p (c\<lparr>rw_process := s', rw_events := rw_events c - {#ev#}\<rparr>)"
proof -
  let ?o1 = "obs (st_world (rw_process c))"
  note g = run_graphD [OF graph]
  obtain run where run: "stored_run en ?o1 (gr_name g) p = Some run" "run_definition run = h"
      "run_state run = RunActive \<longrightarrow> active_inv en g p run ?o1 (rw_events c)"
    and cache: "cache_ok en (rw_process c)" and subs: "submits_inv g h p (ob_submits ?o1)"
    and recs: "records_inv en g p ?o1 (rw_ended c)"
    and evs: "ev_graph ev = gr_name g" "ev_partition ev = p" "ev_node ev \<in> set (graph_names g)"
    using inv ev by (auto simp: run_inv_def Let_def)
  have first: "run_state run = RunActive \<Longrightarrow> run_expected_reruns run = []" using run(3) by (simp add: active_inv_def)
  have cache': "cache_ok en s'" using cache_kept.keepsD [OF cache_kept_event m] cache by (simp add: cache_kept_def)
  note pass = event_pass [OF ok graph cache evs(1,2) run(1,2) first m]
  show "run_inv en obs g h p (c\<lparr>rw_process := s'\<rparr>)" by (rule inv_idle [OF g(1) inv cache' pass])
  show "same_run_keys g p ?o1 (obs (st_world s'))" using pass by (simp add: pass_step_def)
  assume q: "q = Inr ()"
  show "run_inv en obs g h p (c\<lparr>rw_process := s', rw_events := rw_events c - {#ev#}\<rparr>)"
  proof (rule inv_step [OF g(1) inv cache' diff_subset_eq_self pass])
    fix run'
    assume "stored_run en ?o1 (gr_name g) p = Some run'" and active: "run_state run' = RunActive"
      and before: "active_inv en g p run' ?o1 (rw_events c)" and same: "stored_run en (obs (st_world s')) (gr_name g) p = Some run'"
    then have "run' = run" using run(1) by simp
    note facts = active [unfolded this] before [unfolded this] same [unfolded this]
    note handled = event_handled [OF ok graph cache evs run(1,2) facts(1) first [OF facts(1)] m [unfolded q] subs recs facts(3)]
    have sent: "run_submitted (run_id (gr_name g) p (node_name n) 0) (obs (st_world s')) \<or>
        (\<exists>ev' \<in># rw_events c - {#ev#}. ev_node ev' \<in> set (nd_upstreams n))"
      if n: "n \<in> set (gr_nodes g)" "ready_now en ?o1 g p run n" for n
    proof -
      from facts(2) n consider "run_submitted (run_id (gr_name g) p (node_name n) 0) ?o1"
        | ev' where "ev' \<in># rw_events c" "ev_node ev' \<in> set (nd_upstreams n)" by (auto simp: active_inv_def)
      then show ?thesis
      proof cases
        case 1
        then show ?thesis using pass_step_submitted [OF pass] by blast
      next
        case 2
        then show ?thesis
          using handled(1) n by (cases "ev' = ev") (auto simp: in_diff_count not_in_iff)
      qed
    qed
    have "\<exists>n \<in> set (gr_nodes g). stored_record en ?o1 g p n = None \<and>
        run_submitted (run_id (gr_name g) p (node_name n) 0) (obs (st_world s'))" if "rw_events c - {#ev#} = {#}"
      using handled(2) sent that ready_first [OF g(1) _ first [OF facts(1)]] by fastforce
    then show "(\<forall>n \<in> set (gr_nodes g). ready_now en ?o1 g p run' n \<longrightarrow>
          run_submitted (run_id (gr_name g) p (node_name n) 0) (obs (st_world s')) \<or>
          (\<exists>ev' \<in># rw_events c - {#ev#}. ev_node ev' \<in> set (nd_upstreams n))) \<and>
        (rw_events c - {#ev#} = {#} \<longrightarrow> (\<exists>n \<in> set (gr_nodes g). stored_record en ?o1 g p n = None \<and>
          run_submitted (run_id (gr_name g) p (node_name n) 0) (obs (st_world s'))))"
      using sent \<open>run' = run\<close> by blast
  qed
qed

text \<open>The variant of the marked steps: a termination records a node and stages one event, and a handled event is
  gone.\<close>

definition unrecorded_nodes :: "('w, 'b, 'x, 'r) env \<Rightarrow> 'b obs \<Rightarrow> 'x graph \<Rightarrow> partition \<Rightarrow> node set" where
  "unrecorded_nodes en o1 g p = {n \<in> set (gr_nodes g). stored_record en o1 g p n = None}"

definition run_variant :: "('w, 'b, 'x, 'r) env \<Rightarrow> ('w \<Rightarrow> 'b obs) \<Rightarrow> 'x graph \<Rightarrow> partition \<Rightarrow> ('w, 'x) run_world \<Rightarrow> nat" where
  "run_variant en obs g p c =
     2 * card (unrecorded_nodes en (obs (st_world (rw_process c))) g p) + size (rw_events c)"

lemma finite_unrecorded [simp]: "finite (unrecorded_nodes en o1 g p)"
  by (simp add: unrecorded_nodes_def)

lemma unrecorded_same: "same_run_keys g p o1 o2 \<Longrightarrow> unrecorded_nodes en o2 g p = unrecorded_nodes en o1 g p"
  by (auto simp: unrecorded_nodes_def same_keys_record)

lemma run_step_inv:
  fixes en :: "('w, 'b, 'x, 'r) env"
  assumes ok: "by_itself en obs" and graph: "run_graph en h g p" and inv: "run_inv en obs g h p c"
    and step: "run_step en obs hk g h p b c c'"
  shows "run_inv en obs g h p c' \<and> run_variant en obs g p c' + (if b then 1 else 0) \<le> run_variant en obs g p c"
proof -
  note g = run_graphD [OF graph]
  obtain run where cache: "cache_ok en (rw_process c)"
    and run: "stored_run en (obs (st_world (rw_process c))) (gr_name g) p = Some run" "run_definition run = h"
    using inv by (auto simp: run_inv_def Let_def)
  have idle: ?thesis if "\<not> b" "c' = c\<lparr>rw_process := s'\<rparr>" "io_keeps (cache_kept en) m" "m (rw_process c) = (r, s')"
    "pass_step en g h p (obs (st_world (rw_process c))) (obs (st_world s'))"
    for s' and m :: "(('w, 'x) process, 'e, 'v) io" and r
  proof -
    have "cache_ok en s'" using cache_kept.keepsD [OF that(3,4)] cache by (simp add: cache_kept_def)
    then show ?thesis
      using inv_idle [OF g(1) inv _ that(5)] that(1,2,5) unrecorded_same [of g p "obs (st_world (rw_process c))" "obs (st_world s')" en]
      by (simp add: run_variant_def pass_step_def)
  qed
  from step show ?thesis
  proof cases
    case (run_terminates pool spec n k outcome staged now w)
    note t = terminate_inv [OF ok graph inv run_terminates(3,4,5,7,8,9,10,11)]
    then obtain r where "\<forall>m \<in> set (gr_nodes g). stored_record en (obs w) g p m =
        (if m = n then Some r else stored_record en (obs (st_world (rw_process c))) g p m)" by blast
    then have "unrecorded_nodes en (obs w) g p = unrecorded_nodes en (obs (st_world (rw_process c))) g p - {n}"
      by (auto simp: unrecorded_nodes_def split: if_splits)
    moreover have n: "n \<in> unrecorded_nodes en (obs (st_world (rw_process c))) g p" using t by (simp add: unrecorded_nodes_def)
    then have "card (unrecorded_nodes en (obs (st_world (rw_process c))) g p) > 0" by (auto simp: card_gt_0_iff)
    ultimately show ?thesis using t n run_terminates(1,2) by (simp add: run_variant_def)
  next
    case (run_event ev job s')
    obtain q where q: "handle_event en ev (rw_process c) = (q, s')" "q = Inr ()"
      using process_event_handle [OF run_event(4,5)] by metis
    have "size (rw_events c) > 0" using run_event(3) by (auto simp: nonempty_has_size [symmetric])
    then show ?thesis
      using handle_event_inv(2,3) [OF ok graph inv run_event(3) q(1)] q(2) run_event(1,2,3)
        unrecorded_same [of g p "obs (st_world (rw_process c))" "obs (st_world s')" en]
      by (simp add: run_variant_def size_Diff_singleton)
  next
    case (run_event_again ev job r s')
    obtain q where q: "handle_event en ev (rw_process c) = (q, s')"
      using process_event_handle [OF run_event_again(4,5)] by metis
    then show ?thesis
      using handle_event_inv(1,2) [OF ok graph inv run_event_again(3) q] run_event_again(1,2)
        unrecorded_same [of g p "obs (st_world (rw_process c))" "obs (st_world s')" en]
      by (simp add: run_variant_def)
  next
    case (run_reconciled bs run' report r' s')
    show ?thesis
      by (rule idle [OF _ run_reconciled(2) cache_kept_entry run_reconciled(6)])
        (use run_reconciled(1) entry_pass [OF ok graph cache run_reconciled(4,5,6)] in auto)
  next
    case (run_cancel r' s')
    show ?thesis
      by (rule idle [OF _ run_cancel(2) cache_kept_cancel run_cancel(3)])
        (use run_cancel(1) cancel_pass [OF ok cache run run_cancel(3)] in auto)
  next
    case (run_other s')
    have pass: "pass_step en g h p (obs (st_world (rw_process c))) (obs (st_world s'))" by (rule pass_step_other [OF run_other(3)])
    then show ?thesis
      using inv_idle [OF g(1) inv run_other(4) pass] run_other(1,2) unrecorded_same [of g p "obs (st_world (rw_process c))" "obs (st_world s')" en]
      by (simp add: run_variant_def pass_step_def)
  qed
qed

lemma run_steps_inv:
  assumes ok: "by_itself en obs" and graph: "run_graph en h g p"
    and "run_steps en obs hk g h p k c c'" and "run_inv en obs g h p c"
  shows "run_inv en obs g h p c' \<and> run_variant en obs g p c' + k \<le> run_variant en obs g p c"
  using assms(3,4)
proof induction
  case (steps_idle k c c' c'')
  then show ?case using run_step_inv [OF ok graph _ steps_idle.hyps(2)] by fastforce
next
  case (steps_more k c c' c'')
  then show ?case using run_step_inv [OF ok graph _ steps_more.hyps(2)] by fastforce
qed simp

subsection \<open>The start\<close>

lemma graph_root:
  assumes "wf_graph g" and "n \<in> set (gr_nodes g)"
  shows "\<exists>m \<in> set (gr_nodes g). nd_upstreams m = []"
  using assms
proof (induction n rule: graph_induct)
  case (node n)
  show ?case
  proof (cases "nd_upstreams n")
    case (Cons u us)
    then obtain m where "m \<in> set (gr_nodes g)" "node_name m = u" using upstream_node [OF assms(1) node(1), of u] by auto
    then show ?thesis using node(2) Cons by auto
  qed (use node(1) in auto)
qed

definition started_world :: "('w, 'x) process \<Rightarrow> ('w, 'x) run_world" where
  "started_world s = \<lparr>rw_process = s, rw_events = {#}, rw_ended = {}\<rparr>"

lemma start_inv:
  assumes ok: "by_itself en obs" and graph: "run_graph en h g p" and cache: "cache_ok en s0"
    and fresh: "fresh_run (obs (st_world s0)) g p" and m: "start_run en h p s0 = (Inr out, s)" and started: "so_started out"
  shows "run_inv en obs g h p (started_world s) \<and> run_variant en obs g p (started_world s) \<le> 2 * length (gr_nodes g)"
proof -
  note g = run_graphD [OF graph]
  have codecs: "codecs_ok (en_codecs en)" using ok by (simp add: by_itself_def)
  obtain g' t where "env_hash en t = h" "env_load en t = Inr g'" and eff: "start_effect en g' h p out (obs (st_world s0)) (obs (st_world s))"
    by (rule start_run_alone [OF ok cache m]) blast
  then have "start_effect en g h p out (obs (st_world s0)) (obs (st_world s))" using run_graph_hash [OF graph] by blast
  then obtain now specs where
    o2: "obs (st_world s) = (obs (st_world s0))\<lparr>
        ob_kv := (ob_kv (obs (st_world s0)))(graph_run_key (gr_name g) p \<mapsto> enc_run (en_codecs en) (new_run_record h now)),
        ob_submits := ob_submits (obs (st_world s0)) @ specs\<rparr>"
    and specs: "\<forall>x \<in> set specs. \<exists>n \<in> set (graph_roots g). x = (node_pool n, root_spec en g h p n)"
    and roots: "\<forall>n \<in> set (graph_roots g). run_submitted (run_id (gr_name g) p (node_name n) 0) (obs (st_world s))"
    using started by (auto simp: start_effect_def split: if_splits)
  let ?o = "obs (st_world s)"
  have root: "n \<in> set (graph_roots g) \<longleftrightarrow> n \<in> set (gr_nodes g) \<and> nd_upstreams n = []" for n by (auto simp: graph_roots_def)
  have none: "stored_record en ?o g p n = None" if "n \<in> set (gr_nodes g)" for n
    using fresh that by (simp add: fresh_run_def o2 stored_record_def node_record_key_def run_key_record_key [symmetric])
  have "\<exists>n \<in> set (gr_nodes g). first_spec g h p n spec" if "(pool, spec) \<in> set specs" for pool spec
    using specs that root by (fastforce simp: root_spec_def intro: first_spec_submit)
  then have "submits_inv g h p specs" using submits_inv_first [OF g(1,2,4)] by blast
  moreover have "submits_inv g h p (ob_submits (obs (st_world s0)))"
    using fresh by (intro submits_inv_other) (simp add: fresh_run_def)
  ultimately have subs: "submits_inv g h p (ob_submits ?o)" by (simp add: o2)
  have "active_inv en g p (new_run_record h now) ?o {#}"
    unfolding active_inv_def
  proof (intro conjI impI ballI)
    fix n
    assume n: "n \<in> set (gr_nodes g)" "ready_now en ?o g p (new_run_record h now) n"
    have "nd_upstreams n = []" by (rule ready_fresh [OF g(1) n(1) none n(2)])
    then show "run_submitted (run_id (gr_name g) p (node_name n) 0) ?o \<or> (\<exists>ev \<in># {#}. ev_node ev \<in> set (nd_upstreams n))"
      using roots root n(1) by blast
  next
    have "gr_nodes g \<noteq> []" using g(2) by (simp add: named_graph_def)
    then obtain n where "n \<in> set (gr_nodes g)" by (cases "gr_nodes g") auto
    then obtain m where "m \<in> set (gr_nodes g)" "nd_upstreams m = []" using graph_root [OF g(1)] by blast
    then show "\<exists>n \<in> set (gr_nodes g). stored_record en ?o g p n = None \<and> run_submitted (run_id (gr_name g) p (node_name n) 0) ?o"
      using roots root none by blast
  qed (simp add: new_run_record_def)
  moreover have "stored_run en ?o (gr_name g) p = Some (new_run_record h now)"
    using codecs by (simp add: o2 stored_run_def codecs_ok_def)
  moreover have "cache_ok en s" using cache_kept.keepsD [OF cache_kept_start m] cache by (simp add: cache_kept_def)
  moreover have "card (unrecorded_nodes en ?o g p) \<le> length (gr_nodes g)"
  proof -
    have "card (unrecorded_nodes en ?o g p) \<le> card (set (gr_nodes g))"
      by (rule card_mono) (auto simp: unrecorded_nodes_def)
    then show ?thesis using card_length [of "gr_nodes g"] by linarith
  qed
  ultimately show ?thesis
    using subs none by (auto simp: run_inv_def Let_def started_world_def records_inv_def run_variant_def new_run_record_def)
qed

end
