(* ===== verification/Run_Properties.thy ===== *)
theory Run_Properties
  imports Run_Progress
begin

section \<open>An active graph run is never stuck, and it ends\<close>

subsection \<open>An example: the extract terminates, and its event submits the load\<close>

definition extract_identity :: task_identity where
  "extract_identity = identity example_graph ''ab'' partition_none extract_node 0"

definition extract_outcome :: run_outcome where
  "extract_outcome = example_outcome extract_identity ''1''"

definition extract_ended :: "(stored memory, nat) run_world" where
  "extract_ended =
     \<lparr>rw_process = example_process extracted_memory, rw_events = {#example_event#}, rw_ended = {''orders-none-extract-r0''}\<rparr>"

definition load_submitted :: "(stored memory, nat) run_world" where
  "load_submitted =
     \<lparr>rw_process = example_process loading_memory, rw_events = {#}, rw_ended = {''orders-none-extract-r0''}\<rparr>"

lemma extract_run_id: "identity_run_id extract_identity = ''orders-none-extract-r0''"
  by code_simp

lemma extract_headers: "rs_headers extract_spec = headers extract_identity" "rs_run_id extract_spec = ''orders-none-extract-r0''"
  using extract_run_id by (simp_all add: extract_spec_def submit_spec_def extract_identity_def extract_node_def)

lemma extract_outcome_fields:
  "oc_headers extract_outcome = headers extract_identity" "oc_run_id extract_outcome = ''orders-none-extract-r0''"
  by (simp_all add: extract_outcome_def example_outcome_def extract_run_id)

lemma extract_staged:
  "stage_effects example_hook 60 extract_outcome =
     \<lparr>stg_puts = [(''swale/assets/raw/none'', node_record_of extract_node 0 Succeeded)],
      stg_events = [(events_queue, example_event, ''evt:orders-none-extract-r0'')]\<rparr>"
proof -
  have i: "from_headers (headers extract_identity) = Inr extract_identity"
    by (rule from_headers_headers) (simp add: identity_ok_def extract_identity_def identity_def)
  have key: "identity_record_key extract_identity = ''swale/assets/raw/none''" by (simp add: extract_identity_def)
  have fields: "ti_graph extract_identity = ''orders''" "ti_partition extract_identity = partition_none"
      "ti_node extract_identity = ''extract''" "ti_rerun extract_identity = 0" "ti_definition extract_identity = ''ab''"
    by (simp_all add: extract_identity_def identity_def)
  have rid: "run_id ''orders'' partition_none ''extract'' 0 = ''orders-none-extract-r0''" by code_simp
  have recd: "hook_record example_hook 60 extract_identity extract_outcome = node_record_of extract_node 0 Succeeded"
    by (simp add: hook_record_def Let_def hook_output_def output_value_def example_hook_def extract_outcome_def
        example_outcome_def node_record_of_def fields extract_run_id rid record_status_of_def)
  have ok: "hk_put_ok example_hook k r" "hk_enqueue_ok example_hook ev" for k r ev by (simp_all add: example_hook_def)
  have status: "rec_status (node_record_of extract_node 0 Succeeded) = Succeeded" by (simp add: node_record_of_def)
  show ?thesis
    by (simp add: stage_effects_def extract_outcome_fields i key fields recd ok status example_event_def Let_def)
qed

lemma load_submitted_steps:
  "run_steps example_env memory_obs example_hook example_graph ''ab'' partition_none 2
     (started_world (example_process started_memory)) load_submitted"
proof -
  let ?c = "started_world (example_process started_memory)"
  have run: "run_of example_graph partition_none extract_node 0 (rs_run_id extract_spec)"
    unfolding extract_headers(2) run_of_def by code_simp
  have spec: "(''default'', extract_spec) \<in> set (ob_submits (memory_obs (st_world (rw_process ?c))))"
    by (simp add: started_world_def started_memory_def)
  have w: "memory_obs extracted_memory =
      apply_effects (hook_effects example_env (stage_effects example_hook 60 extract_outcome)) (memory_obs (st_world (rw_process ?c)))"
    by (simp add: extract_staged hook_effects_def started_world_def memory_obs_def extracted_memory_def started_memory_def
        stored_codecs_def fun_eq_iff bt_get_def)
  have "run_step example_env memory_obs example_hook example_graph ''ab'' partition_none True ?c
      (?c\<lparr>rw_process := (rw_process ?c)\<lparr>st_world := extracted_memory\<rparr>,
          rw_events := rw_events ?c + hook_events (stage_effects example_hook 60 extract_outcome),
          rw_ended := insert (rs_run_id extract_spec) (rw_ended ?c)\<rparr>)"
    by (rule run_terminates [OF spec run _ _ _ refl _ _ w])
      (simp_all add: extract_staged extract_headers started_world_def extract_outcome_fields)
  then have first: "run_step example_env memory_obs example_hook example_graph ''ab'' partition_none True ?c extract_ended"
    by (simp add: started_world_def extract_ended_def extract_staged hook_events_def extract_headers)
  have event: "process_event example_env \<lparr>job_id = ''e1'', job_headers = (\<lambda>k. None), job_payload = StoredEvent example_event\<rparr>
      (rw_process extract_ended) = (Inr (), example_process loading_memory)"
    using event_example by (simp add: process_event_def extract_ended_def stored_codecs_def io_defs)
  have "run_step example_env memory_obs example_hook example_graph ''ab'' partition_none True extract_ended
      (extract_ended\<lparr>rw_process := example_process loading_memory, rw_events := rw_events extract_ended - {#example_event#}\<rparr>)"
    by (rule run_event [OF _ _ event]) (simp_all add: extract_ended_def stored_codecs_def)
  then have "run_step example_env memory_obs example_hook example_graph ''ab'' partition_none True extract_ended load_submitted"
    by (simp add: extract_ended_def load_submitted_def)
  then have "run_steps example_env memory_obs example_hook example_graph ''ab'' partition_none (Suc (Suc 0)) ?c load_submitted"
    using first by (blast intro: run_steps.intros)
  then show ?thesis by (simp add: numeral_2_eq_2)
qed

lemma example_fresh: "fresh_run (memory_obs (st_world (example_process empty_memory))) example_graph partition_none"
  by (simp add: fresh_run_def empty_memory_def bt_get_def)

lemma example_hash_names: "hash_names example_env ''ab'' example_graph"
  using example_hash example_load example_hash_graph by (auto simp: hash_names_def)

subsection \<open>The properties\<close>





end
