(* ===== verification/Publish_Correct.thy ===== *)
theory Publish_Correct
  imports Scheduler_Runs Template_Roundtrip
begin

section \<open>A published definition is found\<close>

text \<open>
  The objects of the definition store, by themselves: \<open>definition_publish\<close> writes the definition and the
  pointer of its graph, and every process that reads the store afterwards finds both.
\<close>

subsection \<open>Locations\<close>

lemma last_split_on: "last (split_on d (w @ d # s)) = last (split_on d s)"
proof (induction w)
  case (Cons c w)
  obtain v vs where v: "split_on d (w @ d # s) = v # vs" by (cases "split_on d (w @ d # s)") auto
  have "vs \<noteq> [] \<or> c = d"
  proof -
    have "length (split_on d (w @ d # s)) > 1" by (induction w) (auto split: list.split)
    then show ?thesis using v by auto
  qed
  then show ?case using Cons v by auto
qed (cases "split_on d s", auto)

lemma last_segment_child: "CHR ''/'' \<notin> set name \<Longrightarrow> last_segment (path @ ''/'' @ name) = name"
  using last_split_on [of "CHR ''/''" path name] by (simp add: last_segment_def split_on_id)

lemma direct_child_iff: "direct_child path l \<longleftrightarrow> (\<exists>name. l = path @ ''/'' @ name \<and> CHR ''/'' \<notin> set name)"
proof -
  have "l = path @ ''/'' @ name \<longleftrightarrow> strip_prefix (path @ ''/'') l = Some name" for name
    by (simp add: strip_prefix_iff)
  then show ?thesis by (auto simp: direct_child_def split: option.split)
qed

lemma pointer_child:
  assumes "CHR ''/'' \<notin> set name"
  shows "direct_child (prefix_path (definitions_prefix en) ''current'') l \<and> last_segment l = name \<longleftrightarrow> l = pointer_path en name"
proof -
  have path: "pointer_path en name = prefix_path (definitions_prefix en) ''current'' @ ''/'' @ name" for name
    by (simp add: pointer_path_def prefix_path_def)
  show ?thesis
    using assms last_segment_child [of _ "prefix_path (definitions_prefix en) ''current''"]
    unfolding direct_child_iff path by metis
qed

text \<open>A hash is lower case hexadecimal.\<close>

lemma hash_bytes:
  assumes "\<forall>b \<in> set (sha256 t). b < 256" and "c \<in> set (definition_hash sha256 t)"
  shows "ref_byte c"
proof -
  have digit: "ref_byte (hex_digit d)" if "d < 16" for d
    using that by (auto simp: ref_byte_def partition_byte_def char_class hex_digit_def)
  obtain b where "b \<in> set (sha256 t)" "c = hex_digit (b div 16) \<or> c = hex_digit (b mod 16)"
    using assms(2) by (auto simp: definition_hash_def)
  moreover have "b div 16 < 16" using assms(1) calculation(1) by (auto simp: less_mult_imp_div_less)
  ultimately show ?thesis using digit by auto
qed

lemma trim_ref:
  assumes "\<forall>c \<in> set r. ref_byte c"
  shows "trim r = r"
proof (cases r)
  case Nil
  then show ?thesis by (simp add: trim_def trim_start_def trim_end_def strip_all.simps split: option.split)
next
  case (Cons c cs)
  obtain d ds where r': "rev r = d # ds" using Cons by (cases "rev r") auto
  have "d \<in> set r" using r' by (metis list.set_intros(1) set_rev)
  then have ends: "ref_byte c" "ref_byte d" using assms Cons by auto
  have "trim_start r = r" using strip_all_ref(1) [OF ends(1)] by (simp add: trim_start_def Cons)
  moreover have "trim_end r = rev (rev r)" using strip_all_ref(2) [OF ends(2)] by (simp only: trim_end_def r')
  ultimately show ?thesis by (simp add: trim_def)
qed

subsection \<open>The calls, by themselves\<close>

lemma world_io_same: "reads alone obs m \<Longrightarrow> world_io m s = (r, s') \<Longrightarrow> obs (st_world s') = obs (st_world s) \<and> st_graphs s' = st_graphs s"
  by (auto simp: world_io_result dest: alone_reads)

lemma prefix_get_alone:
  assumes ok: "by_itself en obs" and m: "prefix_get (en_backend en) path w = (r, w')"
  shows "obs w' = obs w" and "r = Inr v \<Longrightarrow> v = ob_objects (obs w) path"
proof -
  obtain q where q: "(io_try (object_get (en_backend en) path) :: (_, lib_error, _) io) w = (Inr q, w')"
    and r: "r = (case q of Inr v \<Rightarrow> Inr (Some v) | Inl ObjectNotFound \<Rightarrow> Inr None | Inl (OtherObject e) \<Rightarrow> Inl e)"
    using m unfolding prefix_get_def
    by (elim io_bind_cases) (auto split: sum.splits object_error.splits)
  note law = alone_value [OF backend_object_get [OF by_itself_backend [OF ok]] q]
  show "obs w' = obs w" using law by simp
  show "r = Inr v \<Longrightarrow> v = ob_objects (obs w) path"
    using law r by (auto simp: object_result_def split: sum.splits object_error.splits)
qed

lemma read_text_alone:
  assumes ok: "by_itself en obs" and m: "read_text en path s = (r, s')"
  shows "obs (st_world s') = obs (st_world s)" and "st_graphs s' = st_graphs s"
    and "r = Inr v \<Longrightarrow> v = ob_objects (obs (st_world s)) path"
    and "r = Inl e \<Longrightarrow> (\<exists>q. e = DefinitionObjectStore q) \<or>
      (\<exists>bs. ob_objects (obs (st_world s)) path = Some bs \<and> from_utf8 bs = None)"
proof -
  obtain q w where q: "prefix_get (en_backend en) path (st_world s) = (q, w)" by fastforce
  have s': "s' = s\<lparr>st_world := w\<rparr>" and r: "r = (case q of Inl e \<Rightarrow> Inl (DefinitionObjectStore e) | Inr None \<Rightarrow> Inr None
        | Inr (Some bs) \<Rightarrow> (case from_utf8 bs of None \<Rightarrow> Inl (NotText path) | Some t \<Rightarrow> Inr (Some t)))"
    using m by (auto simp: read_text_def q io_bind_def io_map_error_def world_io_def io_lift_def io_return_def io_fail_def
      split: sum.splits option.splits)
  note got = prefix_get_alone [OF ok q]
  show "obs (st_world s') = obs (st_world s)" "st_graphs s' = st_graphs s" using got s' by simp_all
  show "r = Inr v \<Longrightarrow> v = ob_objects (obs (st_world s)) path"
    using got(2) r by (auto simp: from_utf8_def split: sum.splits option.splits if_splits)
  show "r = Inl e \<Longrightarrow> (\<exists>q. e = DefinitionObjectStore q) \<or>
      (\<exists>bs. ob_objects (obs (st_world s)) path = Some bs \<and> from_utf8 bs = None)"
    using got(2) r by (auto split: sum.splits option.splits)
qed

subsection \<open>Reading the pointers\<close>

lemma pointers_alone:
  assumes ok: "by_itself en obs"
    and m: "io_fold (\<lambda>(location, filename) current.
         case filename of
           None \<Rightarrow> io_return current
         | Some name \<Rightarrow> io_bind (read_text en location) (\<lambda>v.
               case v of None \<Rightarrow> io_return current | Some hash \<Rightarrow> io_return (bt_insert name (trim hash) current))) es acc s = (Inr cur, s')"
    and files: "\<forall>(l, f) \<in> set es. f = Some (last_segment l)"
    and object: "\<forall>(l, f) \<in> set es. last_segment l = name \<longrightarrow> l = l0"
  shows "obs (st_world s') = obs (st_world s) \<and>
     bt_get cur name = (if l0 \<in> fst ` set es \<and> last_segment l0 = name \<and> ob_objects (obs (st_world s)) l0 \<noteq> None
        then map_option trim (ob_objects (obs (st_world s)) l0) else bt_get acc name)"
  using m files object
proof (induction es arbitrary: acc s)
  case (Cons e es)
  obtain l where e: "e = (l, Some (last_segment l))" using Cons.prems(2) by (cases e) auto
  from Cons.prems(1) e obtain v s1 where v: "read_text en l s = (Inr v, s1)"
    and rest: "io_fold (\<lambda>(location, filename) current.
         case filename of
           None \<Rightarrow> io_return current
         | Some name \<Rightarrow> io_bind (read_text en location) (\<lambda>v.
               case v of None \<Rightarrow> io_return current | Some hash \<Rightarrow> io_return (bt_insert name (trim hash) current))) es
        (case v of None \<Rightarrow> acc | Some hash \<Rightarrow> bt_insert (last_segment l) (trim hash) acc) s1 = (Inr cur, s')"
    by (auto simp: io_bind_Inr split: option.splits)
  note got = read_text_alone [OF ok v]
  have later: "\<forall>(l, f) \<in> set es. f = Some (last_segment l)" "\<forall>(l, f) \<in> set es. last_segment l = name \<longrightarrow> l = l0"
    using Cons.prems(2,3) by simp_all
  have "last_segment l = name \<Longrightarrow> l = l0" using Cons.prems(3) e by simp
  then show ?case
    using Cons.IH [OF rest later] got(1) got(3) [OF refl] e by (cases "l = l0") (auto split: option.splits)
qed simp

lemma current_alone:
  assumes ok: "by_itself en obs" and m: "definition_current en s = (Inr cur, s')" and name: "CHR ''/'' \<notin> set name"
  shows "obs (st_world s') = obs (st_world s) \<and>
     bt_get cur name = map_option trim (ob_objects (obs (st_world s)) (pointer_path en name))"
proof -
  let ?path = "prefix_path (definitions_prefix en) ''current''"
  obtain es w where list: "object_list (en_backend en) ?path (st_world s) = (Inr es, w)"
    and rest: "io_fold (\<lambda>(location, filename) current.
         case filename of
           None \<Rightarrow> io_return current
         | Some name \<Rightarrow> io_bind (read_text en location) (\<lambda>v.
               case v of None \<Rightarrow> io_return current | Some hash \<Rightarrow> io_return (bt_insert name (trim hash) current))) es []
         (s\<lparr>st_world := w\<rparr>) = (Inr cur, s')"
    using m unfolding definition_current_def prefix_calls by (auto simp: io_bind_Inr world_io_result)
  note law = alone_value [OF backend_object_list [OF by_itself_backend [OF ok]] list]
  have es: "l \<in> fst ` set es \<longleftrightarrow> ob_objects (obs (st_world s)) l \<noteq> None \<and> direct_child ?path l" for l using law by blast
  have files: "\<forall>(l, f) \<in> set es. f = Some (last_segment l)" using law by blast
  have "\<forall>(l, f) \<in> set es. last_segment l = name \<longrightarrow> l = pointer_path en name"
  proof (clarify)
    fix l f
    assume "(l, f) \<in> set es" "name = last_segment l"
    then have "direct_child ?path l \<and> last_segment l = name" using es [of l] by force
    then show "l = pointer_path en (last_segment l)" using pointer_child [OF name, of en l] by blast
  qed
  from pointers_alone [OF ok rest files this] show ?thesis
    using law es [of "pointer_path en name"] pointer_child [OF name, of en "pointer_path en name"] by auto
qed

subsection \<open>What a publish writes\<close>

lemma conflicts_alone:
  assumes ok: "by_itself en obs" and cache: "cache_ok en s" and m: "check_conflicts en g current s = (r, s')"
  shows "obs (st_world s') = obs (st_world s)" and "cache_ok en s'"
proof -
  have "io_keeps (quiet en alone obs) (check_conflicts en g current)"
    unfolding check_conflicts_def
    by (auto intro!: quiet.keeps_intros quiet_definition_get by_itself_backend [OF ok] split: option.split)
  then have "quiet en alone obs s s'" using m by (rule quiet.keepsD)
  then show "obs (st_world s') = obs (st_world s)" "cache_ok en s'" using cache by (auto simp: quiet_def later_def)
qed

lemma put_object_alone:
  assumes ok: "by_itself en obs" and m: "world_io (prefix_put (en_backend en) path v) s = (Inr u, s')"
  shows "obs (st_world s') = (obs (st_world s))\<lparr>ob_objects := (ob_objects (obs (st_world s)))(path \<mapsto> v)\<rparr>"
    and "st_graphs s' = st_graphs s"
  using m alone_writes [OF backend_writes(6) [OF by_itself_backend [OF ok]]] by (auto simp: prefix_calls world_io_result)

lemma write_alone:
  assumes ok: "by_itself en obs" and cache: "cache_ok en s" and load: "env_load en t = Inr g"
    and m: "definition_write en t g s = (Inr (hash, g'), s')"
  shows "hash = env_hash en t" and "cache_ok en s'" and "\<exists>t'. env_hash en t' = hash \<and> env_load en t' = Inr g'"
    and "obs (st_world s') = (obs (st_world s))\<lparr>ob_objects := (ob_objects (obs (st_world s)))(definition_path en hash \<mapsto> t)\<rparr>"
proof -
  obtain s1 where put: "world_io (prefix_put (en_backend en) (definition_path en (env_hash en t)) t) s = (Inr (), s1)"
    and keep: "cache_graph (env_hash en t) g s1 = (Inr g' :: definition_error + _, s')" and hash: "hash = env_hash en t"
    using m by (auto simp: definition_write_def Let_def io_bind_Inr)
  note w = put_object_alone [OF ok put]
  have cache1: "cache_ok en s1" using cache w(2) by (simp add: cache_ok_def)
  show "hash = env_hash en t" by (rule hash)
  show "\<exists>t'. env_hash en t' = hash \<and> env_load en t' = Inr g'" "cache_ok en s'"
    using keep cache1 load hash by (auto simp: cache_graph_def cache_ok_def split: option.splits if_splits)
  show "obs (st_world s') = (obs (st_world s))\<lparr>ob_objects := (ob_objects (obs (st_world s)))(definition_path en hash \<mapsto> t)\<rparr>"
    using keep w(1) hash by (auto simp: cache_graph_def split: option.splits)
qed

lemma loaded_name:
  assumes "env_load en t = Inr g"
  shows "CHR ''/'' \<notin> set (gr_name g)"
  using load_str_named [OF assms [unfolded env_load_def]] is_name_bytes by (auto simp: named_graph_def)

lemma pointer_definition_path:
  assumes "\<forall>c \<in> set h. ref_byte c"
  shows "pointer_path en name \<noteq> definition_path en h"
proof
  assume "pointer_path en name = definition_path en h"
  then have "h @ ''.toml'' = ''current/'' @ name" by (simp add: pointer_path_def definition_path_def prefix_path_def)
  then have "CHR ''/'' \<in> set (h @ ''.toml'')" by simp
  then have "ref_byte (CHR ''/'')" using assms by auto
  then show False by (simp add: ref_byte_def partition_byte_def char_class)
qed

text \<open>After a publish the object store has the definition at its hash and a pointer of its graph to the hash.\<close>

lemma publish_alone:
  assumes ok: "by_itself en obs" and cache: "cache_ok en s" and bytes: "\<forall>b \<in> set (en_sha256 en t). b < 256"
    and m: "definition_publish en t s = (Inr pub, s')"
  shows "pub_hash pub = env_hash en t" and "CHR ''/'' \<notin> set (gr_name (pub_graph pub))"
    and "ob_objects (obs (st_world s')) (definition_path en (env_hash en t)) = Some t"
    and "map_option trim (ob_objects (obs (st_world s')) (pointer_path en (gr_name (pub_graph pub)))) = Some (env_hash en t)"
proof -
  obtain g s1 current s2 s3 hash g' where load: "env_load en t = Inr g" and cur: "definition_current en s = (Inr current, s1)"
    and confl: "check_conflicts en g current s1 = (Inr (), s2)" and wr': "definition_write en t g s2 = (Inr (hash, g'), s3)"
    and rest: "(let changed = (bt_get current (gr_name g') \<noteq> Some hash) in
             if changed
             then io_bind (io_map_error DefinitionObjectStore
                 (world_io (prefix_put (en_backend en) (pointer_path en (gr_name g')) hash))) (\<lambda>u.
                   io_return \<lparr>pub_graph = g', pub_hash = hash, pub_changed = changed\<rparr>)
             else io_return \<lparr>pub_graph = g', pub_hash = hash, pub_changed = changed\<rparr>) s3 = (Inr pub, s')"
    using m by (auto simp: definition_publish_def io_bind_Inr eq_commute [of _ "env_load en t"])
  have pub: "pub_graph pub = g'" "pub_hash pub = hash" using rest by (auto simp: Let_def io_bind_Inr split: if_splits)
  note wr = wr' [folded pub]
  have last: "if bt_get current (gr_name (pub_graph pub)) \<noteq> Some (pub_hash pub)
        then world_io (prefix_put (en_backend en) (pointer_path en (gr_name (pub_graph pub))) (pub_hash pub)) s3 = (Inr (), s')
        else s' = s3"
    using rest by (auto simp: pub Let_def io_bind_Inr split: if_splits)
  have cache1: "cache_ok en s1"
    using quiet.keepsD [OF quiet_current [OF by_itself_backend [OF ok]] cur] cache by (simp add: quiet_def)
  note c = conflicts_alone [OF ok cache1 confl]
  note w = write_alone [OF ok c(2) load wr]
  show hash: "pub_hash pub = env_hash en t" by (rule w(1))
  show name: "CHR ''/'' \<notin> set (gr_name (pub_graph pub))" using w(3) loaded_name by blast
  note read = current_alone [OF ok cur name]
  have ref: "\<forall>c \<in> set (env_hash en t). ref_byte c" using hash_bytes [of "en_sha256 en" t] bytes by (auto simp: env_hash_def)
  have path: "pointer_path en n \<noteq> definition_path en (env_hash en t)" for n by (rule pointer_definition_path [OF ref])
  have "ob_objects (obs (st_world s')) (definition_path en (env_hash en t)) = Some t \<and>
      map_option trim (ob_objects (obs (st_world s')) (pointer_path en (gr_name (pub_graph pub)))) = Some (env_hash en t)"
  proof (cases "bt_get current (gr_name (pub_graph pub)) = Some (pub_hash pub)")
    case True
    then show ?thesis using last read w(4) c(1) path hash by (auto simp: fun_upd_def)
  next
    case False
    then have "world_io (prefix_put (en_backend en) (pointer_path en (gr_name (pub_graph pub))) (pub_hash pub)) s3 = (Inr (), s')"
      using last by simp
    from put_object_alone(1) [OF ok this] show ?thesis
      using w(4) path [THEN not_sym] hash trim_ref [OF ref] by simp
  qed
  then show "ob_objects (obs (st_world s')) (definition_path en (env_hash en t)) = Some t"
    "map_option trim (ob_objects (obs (st_world s')) (pointer_path en (gr_name (pub_graph pub)))) = Some (env_hash en t)" by simp_all
qed

lemma get_published:
  assumes ok: "by_itself en obs" and cache: "cache_ok en r" and stored: "ob_objects (obs (st_world r)) (definition_path en (env_hash en t)) = Some t"
    and utf8: "from_utf8 t = Some t" and load: "env_load en t = Inr g" and m: "definition_get en (env_hash en t) r = (v, r')"
  shows "(\<exists>g' t'. v = Inr (Some g') \<and> env_hash en t' = env_hash en t \<and> env_load en t' = Inr g') \<or> (\<exists>e. v = Inl (DefinitionObjectStore e))"
proof (cases v)
  case (Inr w)
  have "w \<noteq> None"
  proof
    assume "w = None"
    with m Inr have "read_text en (definition_path en (env_hash en t)) r = (Inr None, r')"
      by (auto simp: definition_get_def cached_graph_def io_bind_Inr split: option.splits if_splits) (metis option.exhaust)
    from read_text_alone(3) [OF ok this refl] show False using stored by simp
  qed
  then show ?thesis using definition_get_graph [OF cache] m Inr by (cases w) auto
next
  case (Inl e)
  have "\<exists>q. e = DefinitionObjectStore q"
  proof (cases "st_graphs r (env_hash en t)")
    case (Some g')
    then show ?thesis using m Inl by (simp add: definition_get_def cached_graph_def io_bind_def)
  next
    case None
    obtain q s1 where q: "read_text en (definition_path en (env_hash en t)) r = (q, s1)" by fastforce
    note got = read_text_alone [OF ok q]
    show ?thesis
    proof (cases q)
      case (Inl e')
      then show ?thesis
        using got(4) [OF Inl] m \<open>v = Inl e\<close> None q stored utf8 by (auto simp: definition_get_def cached_graph_def io_bind_def)
    next
      case (Inr u)
      then have "u = Some t" using got(3) stored by simp
      then show ?thesis
        using m \<open>v = Inl e\<close> None q Inr load
        by (auto simp: definition_get_def cached_graph_def io_bind_def io_map_error_def io_of_sum_def cache_graph_def io_return_def
          split: option.splits)
    qed
  qed
  then show ?thesis using Inl by simp
qed

text \<open>C11. A published definition is found: after a publish that succeeds, every process that reads the object
  store (with or without graphs in its cache) maps the graph's name to the hash of the text, and finds at
  the hash a graph of a text with that hash; it cannot fail but by an error of the object store. Whether the
  pointer was written or was there before makes no difference.\<close>

theorem published_definition_found:
  assumes "by_itself en obs" and "cache_ok en s" and "utf8_valid t" and "\<forall>b \<in> set (en_sha256 en t). b < 256"
    and "definition_publish en t s = (Inr pub, s')" and "obs (st_world r) = obs (st_world s')" and "cache_ok en r"
  shows "pub_hash pub = env_hash en t \<and>
     (\<forall>current r'. definition_current en r = (Inr current, r') \<longrightarrow>
        bt_get current (gr_name (pub_graph pub)) = Some (pub_hash pub)) \<and>
     (\<forall>v r'. definition_get en (pub_hash pub) r = (v, r') \<longrightarrow>
        (\<exists>g t'. v = Inr (Some g) \<and> env_hash en t' = pub_hash pub \<and> env_load en t' = Inr g) \<or>
        (\<exists>e. v = Inl (DefinitionObjectStore e)))"
proof -
  note p = publish_alone [OF assms(1,2,4,5)]
  obtain g where load: "env_load en t = Inr g" using assms(5) by (auto simp: definition_publish_def io_bind_Inr dest: sym)
  have utf8: "from_utf8 t = Some t" using assms(3) by (simp add: from_utf8_def)
  show ?thesis
    using p current_alone [OF assms(1) _ p(2), of r] get_published [OF assms(1,7) _ utf8 load] assms(6) by auto
qed

text \<open>The example definition, published to an empty store and read by a process with an empty cache.\<close>

definition published_memory :: "stored memory" where
  "published_memory = empty_memory\<lparr>mem_objects := [(''definitions/ab.toml'', ''orders''), (''definitions/current/orders'', ''ab'')]\<rparr>"

definition reading_process :: "(stored memory, nat) process" where
  "reading_process = \<lparr>st_world = published_memory, st_graphs = Map.empty\<rparr>"

lemma example_paths:
  "definition_path example_env ''ab'' = ''definitions/ab.toml''" "pointer_path example_env ''orders'' = ''definitions/current/orders''"
  "prefix_path (definitions_prefix example_env) ''current'' = ''definitions/current''"
  by (simp_all add: definition_path_def pointer_path_def prefix_path_def definitions_prefix_def store_path_def example_env_def)

lemma example_published:
  "definition_publish example_env ''orders'' (example_process empty_memory) =
     (Inr \<lparr>pub_graph = example_graph, pub_hash = ''ab'', pub_changed = True\<rparr>, example_process published_memory)"
  by (simp add: definition_publish_def definition_current_def check_conflicts_def definition_write_def prefix_calls example_load example_hash
      example_paths io_bind_def io_return_def io_map_error_def io_of_sum_def world_io_def io_lift_def memory_backend_def empty_memory_def
      cache_graph_def Let_def example_process_def published_memory_def bt_get_def bt_keys_def)

lemma example_reads: "\<exists>r'. definition_current example_env reading_process = (Inr [(''orders'', ''ab'')], r')"
proof -
  have child: "filter (direct_child ''definitions/current'') (remdups (bt_keys (mem_objects published_memory))) =
      [''definitions/current/orders'']" "last_segment ''definitions/current/orders'' = ''orders''"
    by code_simp+
  have list: "object_list (memory_backend [''default''] 50) ''definitions/current'' published_memory =
      (Inr [(''definitions/current/orders'', Some ''orders'')], published_memory)"
    by (simp add: memory_backend_def child)
  have stored: "object_get (memory_backend [''default''] 50) ''definitions/current/orders'' published_memory = (Inr ''ab'', published_memory)"
    by (simp add: memory_backend_def published_memory_def bt_get_def)
  have utf8: "from_utf8 ''ab'' = Some ''ab''" "trim ''ab'' = ''ab''" by code_simp+
  show ?thesis
    by (simp add: definition_current_def prefix_calls example_paths reading_process_def list stored utf8 read_text_def prefix_get_def
      io_bind_def io_return_def io_map_error_def io_try_def world_io_def io_lift_def)
qed

theorem published_definition_found_witness:
  "\<exists>current r'. definition_current example_env reading_process = (Inr current, r') \<and> bt_get current ''orders'' = Some ''ab''"
proof -
  have ok: "utf8_valid ''orders''" "\<forall>b \<in> set (en_sha256 example_env ''orders''). b < 256" by (code_simp, simp add: example_env_def)
  have cache: "cache_ok example_env reading_process" by (simp add: cache_ok_def reading_process_def)
  have same: "memory_obs (st_world reading_process) = memory_obs (st_world (example_process published_memory))"
    by (simp add: reading_process_def)
  show ?thesis
    using published_definition_found [OF by_itself_example example_cache ok example_published same cache] example_reads by auto
qed

end
