(* ===== verification/Reconcile_Correct.thy ===== *)
theory Reconcile_Correct
  imports Run_Steps
begin

section \<open>The reconciler recovers every active graph run\<close>

text \<open>
  A pass of the reconciler by itself, from any state of the store: events may have been lost, and a start
  may have failed half way. An entry of the scan changes the records of graph runs only by settling active ones.
\<close>

lemma io_fold_append:
  "io_fold f (as @ bs) a s = (Inr r, s') \<longleftrightarrow> (\<exists>b s1. io_fold f as a s = (Inr b, s1) \<and> io_fold f bs b s1 = (Inr r, s'))"
  by (induction as arbitrary: a s) (auto simp: io_bind_Inr)

definition reconciled :: "('w, 'b, 'x, 'r) env \<Rightarrow> 'b obs \<Rightarrow> 'b obs \<Rightarrow> bool" where
  "reconciled en o1 o2 \<longleftrightarrow>
     (\<exists>specs. ob_submits o2 = ob_submits o1 @ specs) \<and>
     (\<forall>h q m a. ob_kv o2 (record_key h q m a) = ob_kv o1 (record_key h q m a)) \<and>
     (\<forall>h q. ob_kv o2 (graph_run_key h q) = ob_kv o1 (graph_run_key h q) \<or>
        (\<exists>r1 r2. stored_run en o1 h q = Some r1 \<and> run_state r1 = RunActive \<and>
           stored_run en o2 h q = Some r2 \<and> run_state r2 \<noteq> RunActive))"

lemma reconciled_refl [simp]: "reconciled en o1 o1"
  by (simp add: reconciled_def)

lemma stored_run_key:
  "ob_kv o2 (graph_run_key h q) = ob_kv o1 (graph_run_key h q) \<Longrightarrow> stored_run en o2 h q = stored_run en o1 h q"
  by (simp add: stored_run_def)

lemma reconciled_trans:
  assumes "reconciled en o1 o2" and "reconciled en o2 o3"
  shows "reconciled en o1 o3"
proof -
  have "ob_kv o3 (graph_run_key h q) = ob_kv o1 (graph_run_key h q) \<or>
      (\<exists>r1 r2. stored_run en o1 h q = Some r1 \<and> run_state r1 = RunActive \<and>
         stored_run en o3 h q = Some r2 \<and> run_state r2 \<noteq> RunActive)" for h q
  proof (cases "ob_kv o2 (graph_run_key h q) = ob_kv o1 (graph_run_key h q)")
    case True
    then show ?thesis using assms(2) stored_run_key [OF True, of en] unfolding reconciled_def by metis
  next
    case False
    then obtain r1 r2 where "stored_run en o1 h q = Some r1" "run_state r1 = RunActive"
        and r2: "stored_run en o2 h q = Some r2" "run_state r2 \<noteq> RunActive"
      using assms(1) unfolding reconciled_def by blast
    moreover have "ob_kv o3 (graph_run_key h q) = ob_kv o2 (graph_run_key h q)"
      using assms(2) r2 unfolding reconciled_def by (metis option.inject)
    ultimately show ?thesis using stored_run_key [of o3 h q o2 en] by auto
  qed
  moreover have "\<exists>specs. ob_submits o3 = ob_submits o1 @ specs" using assms by (auto simp: reconciled_def)
  ultimately show ?thesis using assms unfolding reconciled_def by simp
qed

lemma reconciled_settled:
  "reconciled en o1 o2 \<Longrightarrow> stored_run en o1 h q = Some r \<Longrightarrow> run_state r \<noteq> RunActive \<Longrightarrow> stored_run en o2 h q = Some r"
  unfolding reconciled_def using stored_run_key by (metis option.inject)

lemma reconciled_submitted: "reconciled en o1 o2 \<Longrightarrow> run_submitted i o1 \<Longrightarrow> run_submitted i o2"
  by (auto simp: reconciled_def run_submitted_def)

lemma reconciled_records:
  assumes "reconciled en o1 o2"
  shows "stored_record en o2 g p n = stored_record en o1 g p n" and "stored_records en o2 g p = stored_records en o1 g p"
proof -
  have "stored_record en o2 g p = stored_record en o1 g p"
    using assms by (auto simp: reconciled_def stored_record_def node_record_key_def)
  then show "stored_record en o2 g p n = stored_record en o1 g p n" "stored_records en o2 g p = stored_records en o1 g p"
    by (simp_all add: stored_records_def)
qed

lemma reconciled_ready:
  assumes "reconciled en o1 o2"
  shows "ready_now en o2 g p run n \<longleftrightarrow> ready_now en o1 g p run n" and "ready_spec en o2 g p run n = ready_spec en o1 g p run n"
  by (simp_all add: ready_now_def ready_spec_def reconciled_records [OF assms])

text \<open>A pass over a graph run whose bytes are those of an active run.\<close>

lemma advance_reconciled:
  assumes ok: "by_itself en obs" and g: "wf_graph g" and m: "advance en g p run bs (gr_nodes g) s = (Inr (k, settled), s')"
    and bs: "dec_run (en_codecs en) bs = Inr run" "run_state run = RunActive"
  shows "reconciled en (obs (st_world s)) (obs (st_world s'))"
    and "\<forall>n \<in> set (gr_nodes g). ready_now en (obs (st_world s)) g p run n \<longrightarrow>
      run_submitted (rs_run_id (ready_spec en (obs (st_world s)) g p run n)) (obs (st_world s'))"
    and "(\<exists>n \<in> set (gr_nodes g). ready_now en (obs (st_world s)) g p run n) \<or>
      ob_kv (obs (st_world s)) (graph_run_key (gr_name g) p) \<noteq> Some bs \<or>
      (\<exists>n \<in> set (gr_nodes g). \<exists>o2. live_node en obs o2 g p run (stored_records en (obs (st_world s)) g p) n) \<or>
      (\<exists>r. stored_run en (obs (st_world s')) (gr_name g) p = Some r \<and> run_state r \<noteq> RunActive)"
proof -
  let ?o = "obs (st_world s)" and ?o' = "obs (st_world s')" and ?rs = "stored_records en (obs (st_world s)) g p"
  have codecs: "codecs_ok (en_codecs en)" using ok by (simp add: by_itself_def)
  obtain states specs o2 where states: "node_states g (current_records run ?rs) = Some states"
    and o2: "o2 = ?o\<lparr>ob_submits := ob_submits ?o @ specs\<rparr>"
    and sent: "\<forall>n \<in> set (gr_nodes g). ready_now en ?o g p run n \<longrightarrow> run_submitted (rs_run_id (ready_spec en ?o g p run n)) o2"
    and yes: "settled \<longrightarrow> (\<exists>state t. settled_state states = Some state \<and>
        ob_kv ?o (graph_run_key (gr_name g) p) = Some bs \<and>
        ?o' = apply_effects (settle_effects en (gr_name g) p t (settled_record run state ?rs)) o2)"
    and no: "\<not> settled \<longrightarrow> ?o' = o2 \<and>
      (settled_state states = None \<or> ob_kv ?o (graph_run_key (gr_name g) p) \<noteq> Some bs \<or>
        (\<exists>n \<in> set (gr_nodes g). live_node en obs o2 g p run ?rs n))"
    by (rule advance_alone [OF ok g order_refl m]) blast
  have ready: "settled_state states = None \<longleftrightarrow> (\<exists>n \<in> set (gr_nodes g). ready_now en ?o g p run n)"
    using ready_now_state [OF g _ states] settled_state_None [OF g states] by blast
  have "reconciled en ?o ?o' \<and>
     (\<forall>n \<in> set (gr_nodes g). ready_now en ?o g p run n \<longrightarrow> run_submitted (rs_run_id (ready_spec en ?o g p run n)) ?o') \<and>
     ((\<exists>n \<in> set (gr_nodes g). ready_now en ?o g p run n) \<or> ob_kv ?o (graph_run_key (gr_name g) p) \<noteq> Some bs \<or>
      (\<exists>n \<in> set (gr_nodes g). \<exists>o2. live_node en obs o2 g p run ?rs n) \<or>
      (\<exists>r. stored_run en ?o' (gr_name g) p = Some r \<and> run_state r \<noteq> RunActive))"
  proof (cases settled)
    case False
    then show ?thesis using no sent ready o2 by (auto simp: reconciled_def)
  next
    case True
    then obtain state t where st: "settled_state states = Some state" and before: "ob_kv ?o (graph_run_key (gr_name g) p) = Some bs"
      and o': "?o' = apply_effects (settle_effects en (gr_name g) p t (settled_record run state ?rs)) o2" using yes by blast
    note facts = settle_effects_obs [OF codecs, of "gr_name g" p t "settled_record run state ?rs" o2, folded o']
    have state: "state \<noteq> RunActive" using st by (auto simp: settled_state_def split: if_splits)
    have kv: "ob_kv o2 = ob_kv ?o" by (simp add: o2)
    have run: "stored_run en ?o (gr_name g) p = Some run" using before bs(1) by (simp add: stored_run_def)
    have keys: "ob_kv ?o' (graph_run_key h q) = ob_kv ?o (graph_run_key h q) \<or>
        (\<exists>r1 r2. stored_run en ?o h q = Some r1 \<and> run_state r1 = RunActive \<and>
           stored_run en ?o' h q = Some r2 \<and> run_state r2 \<noteq> RunActive)" for h q
    proof (cases "graph_run_key h q = graph_run_key (gr_name g) p")
      case True
      then have "stored_run en o3 h q = stored_run en o3 (gr_name g) p" for o3 :: "'b obs" by (simp add: stored_run_def)
      then show ?thesis using run bs(2) facts(2) state by (simp add: settled_record_def)
    next
      case False
      then show ?thesis by (simp add: facts(4) kv)
    qed
    have "reconciled en ?o ?o'"
      using keys facts(1) by (auto simp: reconciled_def o2 facts(4) run_key_record_key [symmetric])
    moreover have "run_submitted i ?o'" if "run_submitted i o2" for i
      using that run_submitted_submits [OF facts(1)] by blast
    ultimately show ?thesis using sent facts(2) state by (simp add: settled_record_def)
  qed
  then show "reconciled en ?o ?o'" and "\<forall>n \<in> set (gr_nodes g). ready_now en ?o g p run n \<longrightarrow>
      run_submitted (rs_run_id (ready_spec en ?o g p run n)) ?o'"
    and "(\<exists>n \<in> set (gr_nodes g). ready_now en ?o g p run n) \<or> ob_kv ?o (graph_run_key (gr_name g) p) \<noteq> Some bs \<or>
      (\<exists>n \<in> set (gr_nodes g). \<exists>o2. live_node en obs o2 g p run ?rs n) \<or>
      (\<exists>r. stored_run en ?o' (gr_name g) p = Some r \<and> run_state r \<noteq> RunActive)" by blast+
qed

lemma entry_reconciled:
  assumes ok: "by_itself en obs" and cache: "cache_ok en s" and bs: "dec_run (en_codecs en) bs = Inr run"
    and m: "reconcile_entry en (key, bs, run) report s = (Inr rep, s')"
  shows "reconciled en (obs (st_world s)) (obs (st_world s'))"
proof (cases "parse_graph_run_key key")
  case None
  then show ?thesis using m by (simp add: reconcile_entry_def)
next
  case (Some gp)
  obtain name p where gp: "gp = (name, p)" by (cases gp)
  obtain got s1 where got: "definition_get en (run_definition run) s = (got, s1)" by fastforce
  have same: "obs (st_world s1) = obs (st_world s)"
    by (rule quiet_same [OF quiet_definition_get [OF by_itself_backend [OF ok]] got])
  show ?thesis
  proof (cases "\<exists>g. got = Inr (Some g)")
    case False
    then have "s' = s1" using m got Some gp by (auto simp: reconcile_entry_def io_bind_def io_try_def split: sum.splits option.splits)
    then show ?thesis using same by simp
  next
    case True
    then obtain g where g: "got = Inr (Some g)" by blast
    have wf: "wf_graph g" using definition_get_wf(1) [OF cache] got g by blast
    show ?thesis
    proof (cases "run_state run")
      case RunActive
      then obtain k settled where "advance en g p run bs (gr_nodes g) s1 = (Inr (k, settled), s')"
        using m got g Some gp by (auto simp: reconcile_entry_def io_bind_def io_try_def split: prod.splits sum.splits)
      then show ?thesis using advance_reconciled(1) [OF ok wf _ bs RunActive] same by metis
    next
      case RunCancelled
      then obtain n where "cancel_active_runs en g p run s1 = (Inr n, s')"
        using m got g Some gp by (auto simp: reconcile_entry_def io_bind_def io_try_def split: prod.splits sum.splits)
      then show ?thesis using quiet_same [OF quiet_cancel_active [OF by_itself_backend [OF ok]]] same by fastforce
    qed (use m got g Some gp same in \<open>auto simp: reconcile_entry_def io_bind_def io_try_def\<close>)
  qed
qed

lemma entries_reconciled:
  assumes ok: "by_itself en obs" and "cache_ok en s" and "\<forall>(key, bs, run) \<in> set es. dec_run (en_codecs en) bs = Inr run"
    and "io_fold (reconcile_entry en) es report s = (Inr rep, s')"
  shows "reconciled en (obs (st_world s)) (obs (st_world s')) \<and> cache_kept en s s'"
  using assms(2-4)
proof (induction es arbitrary: report s)
  case (Cons e es)
  obtain key bs run where e: "e = (key, bs, run)" by (cases e)
  from Cons.prems(3) e obtain r1 s1 where one: "reconcile_entry en (key, bs, run) report s = (Inr r1, s1)"
    and rest: "io_fold (reconcile_entry en) es r1 s1 = (Inr rep, s')" by (auto simp: io_bind_Inr)
  have kept: "cache_kept en s s1" by (rule cache_kept.keepsD [OF cache_kept_entry one])
  then have "cache_ok en s1" using Cons.prems(1) by (simp add: cache_kept_def)
  moreover have "reconciled en (obs (st_world s)) (obs (st_world s1))"
    using entry_reconciled [OF ok Cons.prems(1) _ one] Cons.prems(2) e by simp
  ultimately show ?case
    using Cons.IH [OF _ _ rest] Cons.prems(2) kept reconciled_trans cache_kept.R_trans by fastforce
qed (auto simp: cache_kept.R_refl)

lemma scan_complete:
  assumes ok: "by_itself en obs" and m: "queue_io (scan_records (en_backend en) (dec_run (en_codecs en)) graph_runs_prefix) s = (Inr runs, s1)"
  shows "obs (st_world s1) = obs (st_world s)" and "st_graphs s1 = st_graphs s"
    and "\<forall>(key, bs, run) \<in> set runs. dec_run (en_codecs en) bs = Inr run"
    and "ob_kv (obs (st_world s)) (graph_run_key h q) = Some bs \<Longrightarrow> dec_run (en_codecs en) bs = Inr run \<Longrightarrow>
      (graph_run_key h q, bs, run) \<in> set runs"
proof -
  obtain es w where es: "kv_entries (en_backend en) graph_runs_prefix (st_world s) = (Inr es, w)"
    and runs: "runs = parsed_entries (dec_run (en_codecs en)) es" and s1: "s1 = s\<lparr>st_world := w\<rparr>"
    using m by (auto simp: queue_io_Inr scan_records_def io_bind_Inr)
  show "obs (st_world s1) = obs (st_world s)" "st_graphs s1 = st_graphs s"
    using alone_reads [OF backend_reads(2) [OF by_itself_backend [OF ok]] es] s1 by simp_all
  show "\<forall>(key, bs, run) \<in> set runs. dec_run (en_codecs en) bs = Inr run"
    unfolding runs parsed_entries_def by (auto simp: List.map_filter_def split: sum.splits)
  have law: "\<forall>p w es w' k v. kv_entries (en_backend en) p w = (Inr es, w') \<longrightarrow> strip_prefix p k \<noteq> None \<longrightarrow>
        (\<forall>o1. alone\<^sup>*\<^sup>* (obs w) o1 \<longrightarrow> ob_kv o1 k = Some v) \<longrightarrow> (k, v) \<in> set es"
    using by_itself_backend [OF ok] unfolding backend_ok_def by (elim conjE)
  assume kv: "ob_kv (obs (st_world s)) (graph_run_key h q) = Some bs" and dec: "dec_run (en_codecs en) bs = Inr run"
  have "strip_prefix graph_runs_prefix (graph_run_key h q) \<noteq> None" by (simp add: graph_run_key_def)
  then have "(graph_run_key h q, bs) \<in> set es" using law es kv unfolding alone_star by blast
  then show "(graph_run_key h q, bs, run) \<in> set runs"
    unfolding runs parsed_entries_def using dec by (force simp: List.map_filter_def image_iff parse_record_def split: sum.splits)
qed

lemma entry_active:
  assumes key: "parse_graph_run_key key = Some (name, p)" and "run_state run = RunActive"
    and cached: "st_graphs s (run_definition run) = Some g" and m: "reconcile_entry en (key, bs, run) report s = (Inr rep, s')"
  shows "\<exists>k settled. advance en g p run bs (gr_nodes g) s = (Inr (k, settled), s')"
proof -
  have "definition_get en (run_definition run) s = (Inr (Some g), s)"
    using cached by (simp add: definition_get_def cached_graph_def io_bind_def)
  then show ?thesis
    using m assms(1,2) by (auto simp: reconcile_entry_def io_bind_def io_try_def split: prod.splits sum.splits)
qed


text \<open>The extract of the example has terminated, and its event is lost: the reconciler submits the load.\<close>

lemma reconcile_example:
  "\<exists>report. reconcile example_env (example_process extracted_memory) = (Inr report, example_process loading_memory)"
proof -
  have filtered: "filter (\<lambda>k. strip_prefix graph_runs_prefix k \<noteq> None) (bt_keys (mem_kv extracted_memory)) = [''swale/runs/orders/none'']"
    by code_simp
  have stored: "bt_get (mem_kv extracted_memory) ''swale/runs/orders/none'' = Some (StoredRun example_run)"
    by (simp add: extracted_memory_def bt_get_def)
  have parsed: "parsed_entries (dec_run stored_codecs) [(k, StoredRun r)] = [(k, StoredRun r, r)]" for k r
    by (simp add: parsed_entries_def List.map_filter_simps parse_record_def stored_codecs_def)
  have scan: "scan_records (memory_backend [''default''] 50) (dec_run stored_codecs) graph_runs_prefix extracted_memory =
      (Inr [(''swale/runs/orders/none'', StoredRun example_run, example_run)], extracted_memory)"
    by (simp add: scan_records_def memory_backend_def filtered stored io_bind_def io_return_def parsed del: memory_calls not_None_eq)
  have key: "parse_graph_run_key ''swale/runs/orders/none'' = Some (''orders'', partition_none)" by code_simp
  have get: "definition_get example_env ''ab'' (example_process m) = (Inr (Some example_graph), example_process m)" for m
    by (simp add: definition_get_def cached_graph_def example_process_def io_bind_def io_return_def)
  show ?thesis
    using advance_examples(2)
    by (simp add: reconcile_def scan io_bind_def io_return_def reconcile_entry_def key get io_try_def example_nodes)
qed


end
