(* ===== verification/Spec2Isabelle.thy ===== *)
theory Spec2Isabelle
  imports Duration Partition Template_Roundtrip Graph_Cycle Graph_Build_Correct Definition Readiness_Correct Input
    Definition_Store Graph_Examples Core_Properties Readiness_Properties Memory Scheduler Scheduler_Safety
    Scheduler_Contract Requests Retention Hook
    System Scheduler_Properties Operation_Properties Run_Life Retention_Properties Dispatch_Correct Operator_Correct
    Daemon_Correct Error_Text Status_Correct Pools Command_Correct Daemon_Run
    Graph_Keys Run_Properties Publish_Correct Reconcile_Correct
begin

text \<open>
  \<open>swale\<close> is an orchestrator of asset graphs: a definition file names the nodes of a graph, each an asset
  or a task with an operator and its upstreams; a graph run is the run of a graph for one partition; a task
  instance is one run of a node of it on the workflow runtime of the node's pool. Every worker of the daemon
  works on one key-value store with a queue (\<open>taquba\<close>), and what they know of a graph run is in its records.

  Parts and theories (sources under \<open>src/swale/src\<close>):

  \<^item> Shared: \<open>Prelude\<close> (integers, bytes, decimal texts), \<open>Ordered_Map\<close> (\<open>BTreeMap\<close>, \<open>BTreeSet\<close>), \<open>Text_Util\<close>
    (the \<open>str\<close> functions of the standard library), \<open>Utf8_Text\<close> (\<open>from_utf8_lossy\<close>, \<open>floor_char_boundary\<close>), \<open>Json\<close>.
  \<^item> Definitions: \<open>Duration\<close> (\<open>duration.rs\<close>), \<open>Partition\<close> (\<open>partition.rs\<close>), \<open>Template\<close> and \<open>Template_Roundtrip\<close>
    (\<open>template.rs\<close>), \<open>Graph\<close>, \<open>Graph_Build\<close>, \<open>Graph_Cycle\<close> and \<open>Graph_Build_Correct\<close> (\<open>graph.rs\<close>), \<open>Operators\<close>
    (\<open>operator/mod.rs\<close>), \<open>Definition\<close> (\<open>definition.rs\<close>), \<open>Error_Text\<close> (\<open>error.rs\<close> and the texts of the errors),
    \<open>Definition_Store\<close> (\<open>definition_store.rs\<close>, \<open>store.rs\<close>).
  \<^item> Records and rules: \<open>Records\<close> (\<open>records.rs\<close>), \<open>Task\<close> (\<open>task.rs\<close>), \<open>Input\<close> (\<open>input.rs\<close>), \<open>Readiness\<close> and
    \<open>Readiness_Correct\<close> (\<open>readiness.rs\<close>).
  \<^item> Workers: \<open>World\<close> (the services), \<open>Scheduler\<close> (\<open>scheduler.rs\<close>), \<open>Requests\<close> (\<open>request.rs\<close>), \<open>Retention\<close>
    (\<open>retention.rs\<close>), \<open>Hook\<close> (\<open>hook.rs\<close>), \<open>Daemon\<close> and \<open>Daemon_Run\<close> (\<open>daemon.rs\<close>), \<open>Dispatch\<close> (\<open>dispatch.rs\<close>) and
    \<open>Operator_Run\<close> (\<open>operator/\<close>).
  \<^item> Readers and commands: \<open>Pools\<close> (\<open>pools.rs\<close>), \<open>Status\<close> (\<open>status.rs\<close>), \<open>Command_Text\<close>, \<open>Command_Line\<close>,
    \<open>Command_Store\<close> (the store, the pools and the readers of a command, over the calls of the \<open>host\<close>), \<open>Command_Run\<close> and
    \<open>Command_Main\<close> (\<open>cli/\<close>).

  A program that calls a service is a function from a state to an error or a value and the next state
  (the type \<open>io\<close> of \<open>World\<close>), composed with \<open>io_bind\<close> as the source composes with \<open>?\<close>. The state of a process is
  the state of the services, of an arbitrary type, with the cache of the definitions. A panic of the source
  is an error of its own (\<open>Panicked\<close>), so that a theorem can exclude it. The parts interact through the store
  alone: the hook stages a node record and an event with the termination of a run; the event is a job of the
  scheduler, which reads the records of the graph run, submits the runs of the ready nodes and settles the
  run when there is no more to do; a settle writes an entry of the expiry index, which the retention reads;
  requests are jobs as well, and the sync pass writes which definition a graph has.

  The laws of the services are the predicate \<open>backend_ok\<close> of \<open>World\<close>, over an observation of their state (the
  key-value pairs, the entries of the expiry index, the runs that were submitted). It is parametrised by the
  interference: a relation that the observation may move along before and during every call. With \<open>alone\<close>
  the calls of one worker are the only ones; with the steps of the other workers (\<open>store_step\<close> of
  \<open>Scheduler_Safety\<close>) a theorem holds whatever the interleaving is. A compare-and-put compares at the time of
  the call. \<open>Memory\<close> shows that the laws can hold: a store in memory for every interference, on which the
  witnesses run the operations of the example graph (\<open>Graph_Examples\<close>, \<open>Scheduler_Examples\<close>, \<open>Scheduler_Runs\<close>).

  What the lemmas show:

  \<^item> \<open>Core_Properties\<close>: what \<open>Graph::build\<close> accepts, that it returns and that its graph is well formed, the
    templates, the durations, the partitions, the keys and the identities.
  \<^item> \<open>Readiness_Properties\<close>: the states of the nodes are the unique solution of the readiness equation, when a
    graph run is settled, and how the states move along a run.
  \<^item> \<open>Scheduler_Contract\<close>, \<open>System\<close> and \<open>Run_Life\<close>: under interference; every write of an operation is a step
    of the store, so that the invariant of the expiry index holds in every reachable state, no worker panics,
    and the writes of a graph run refine its abstract life, absent, active and settled.
  \<^item> \<open>Scheduler_Advance\<close>, \<open>Scheduler_Correct\<close>, \<open>Scheduler_Properties\<close>, \<open>Scheduler_Outcomes\<close>,
    \<open>Operation_Properties\<close> and \<open>Retention_Properties\<close>: what one operation does when no other worker is in between,
    on every branch that reaches a result.
  \<^item> \<open>Hook\<close>, \<open>Dispatch_Correct\<close>, \<open>Operator_Correct\<close>, \<open>Daemon_Correct\<close> and \<open>Status_Correct\<close>: the record of a
    termination, the output and the polls of a mapped node, the errors and the deadlines of the operators, the
    adoption of definitions, that the status shows what the scheduler acts on, and (\<open>Command_Run\<close>,
    \<open>Command_Correct\<close>) that the exit code of a run is the end of the graph run, that a command that waits for its request
    reports its record, and that a command that fails says why.
  \<^item> \<open>Publish_Correct\<close> and \<open>Reconcile_Correct\<close>: a published definition is found by every process; a pass of the
    reconciler recovers every active graph run, from any state of the store.
  \<^item> \<open>Run_Steps\<close> is the loop of one graph run, from the terminal hook over the event to the scheduler, as a step
    relation (\<open>run_step\<close>); \<open>Run_Invariant\<close>, \<open>Run_Passes\<close>, \<open>Run_Events\<close> and \<open>Run_Progress\<close> have its invariant
    and its variant, and \<open>Run_Properties\<close> concludes that an active run is never stuck, and that it ends
    in at most two marked steps for each node. \<open>Graph_Keys\<close> has what keeps the keys of a graph's nodes apart.

  The interfaces are locales with their interpretations on the model: an ordered map (\<open>ordered_dict\<close> of
  \<open>Ordered_Map\<close>), a text that identifies a value (\<open>key_codec\<close> of \<open>Records\<close>, for the keys, the identities and the
  partitions), programs whose steps are in a preorder of the states and that keep an invariant (\<open>io_preorder\<close> and
  \<open>io_contract\<close> of \<open>World\<close>), and the operators that poll until a deadline (\<open>deadline_poll\<close> of \<open>Operator_Correct\<close>).

  Bounds. There is no fuel: the loops are structural recursions, a \<open>function\<close> with a measure, or a
  \<open>partial_function (option)\<close> whose result is \<open>None\<close> when the loop does not end. The search for a cycle, the passes
  of the readiness rule and the search of a rerun are proved to return. The registration of the cron schedules
  ends only when the cron scheduler rejects schedules of the set, which is \<open>taquba-cron\<close>'s contract, the wait
  of a command when what it waits for happens, and the loop of the daemon with its shutdown. A \<open>u32\<close> and a \<open>u64\<close> are words; their
  additions wrap as in a release build, and where the source saturates or checks, so does the model. A
  duration of the source is a count of its unit as an unbounded natural number with the bound written out.

  The steps of \<open>run_step\<close> interleave whole operations: each handler runs by itself, and between two of them any other
  part may write what is not of the graph run. It leaves out a rerun, the expiry of the run, a termination whose
  staging the store refuses, and an event that fails for good (the reconciler recovers its run). The interleaving of the
  calls of two operations is what \<open>Scheduler_Contract\<close>, \<open>System\<close> and \<open>Run_Life\<close> are for.

  Not modelled: the spawn and the stop of the workers, and the loops of the queue library that hand them jobs,
  the declarations of the argument parser, what a command printed before it failed, and log
  output, but for the log of the refusals of the daemon. Parameters stand for
  third-party code: TOML, JSON, SHA-256, ULID and cron expressions, the calendar, the object stores, the
  queue, the workflow library, the HTTP client, child processes and the race of a call with its cancellation.
\<close>

end
